(* ===== verification/Prelude.thy ===== *)
theory Prelude
  imports Main "HOL-Library.Sublist"
begin

text \<open>
  What every component theory shares: the machine's bounds, the list operations that
  Rust's \<open>Vec\<close> gives the code (\<open>remove\<close>, \<open>drain\<close>, \<open>position\<close>), the ASCII string
  helpers, the loops of the shape \<open>while cond && self.step().is_some() {}\<close>, and the
  collections of rewrite and introduction rules the component proofs draw on.
\<close>

named_theorems vec_simps "facts about the Vec operations"
named_theorems token_simps "token accounting of lists of entries"
named_theorems wf_intros "operations keep the component invariants"
named_theorems frame_simps "what an operation leaves alone"

subsection \<open>Machine integers\<close>

text \<open>
  \<open>usize\<close> and \<open>u64\<close> counters are natural numbers. The workspace builds with
  \<open>overflow-checks = true\<close>, so an addition past the bound or a subtraction below
  zero panics rather than wraps; the component invariants show that the
  subtractions stay in range. Saturating operations keep their bound.
\<close>

definition usize_max :: nat where
  "usize_max = 2 ^ 64 - 1"

definition saturating_add :: "nat \<Rightarrow> nat \<Rightarrow> nat" where
  "saturating_add a b = min usize_max (a + b)"

definition saturating_mul :: "nat \<Rightarrow> nat \<Rightarrow> nat" where
  "saturating_mul a b = min usize_max (a * b)"

definition saturating_sub :: "nat \<Rightarrow> nat \<Rightarrow> nat" where
  "saturating_sub a b = a - b"

lemma saturating_sub_simp [simp]: "saturating_sub a b = a - b"
  by (simp add: saturating_sub_def)

lemma saturating_add_less:
  "n \<le> usize_max \<Longrightarrow> (saturating_add a b < n) = (a + b < n)"
  by (auto simp: saturating_add_def)

text \<open>A checked subtraction: \<open>None\<close> is the panic an underflow would be.\<close>

definition checked_sub :: "nat \<Rightarrow> nat \<Rightarrow> nat option" where
  "checked_sub a b = (if b \<le> a then Some (a - b) else None)"

lemma checked_sub_Some [simp]: "b \<le> a \<Longrightarrow> checked_sub a b = Some (a - b)"
  by (simp add: checked_sub_def)

subsection \<open>Vectors\<close>

text \<open>\<open>Vec::remove\<close> at an index in range (the callers check the index first).\<close>

definition remove_nth :: "nat \<Rightarrow> 'a list \<Rightarrow> 'a list" where
  "remove_nth i xs = take i xs @ drop (Suc i) xs"

text \<open>\<open>Vec::drain(start..start + n)\<close>: what stays, and what is handed out.\<close>

definition drain_rest :: "nat \<Rightarrow> nat \<Rightarrow> 'a list \<Rightarrow> 'a list" where
  "drain_rest start n xs = take start xs @ drop (start + n) xs"

definition drained :: "nat \<Rightarrow> nat \<Rightarrow> 'a list \<Rightarrow> 'a list" where
  "drained start n xs = take n (drop start xs)"

text \<open>\<open>Iterator::position\<close>: the first index whose element satisfies the predicate.\<close>

fun position :: "('a \<Rightarrow> bool) \<Rightarrow> 'a list \<Rightarrow> nat option" where
  "position P [] = None"
| "position P (x # xs) = (if P x then Some 0 else map_option Suc (position P xs))"

lemma position_Some:
  "position P xs = Some i \<Longrightarrow> i < length xs \<and> P (xs ! i) \<and> (\<forall>j<i. \<not> P (xs ! j))"
proof (induction xs arbitrary: i)
  case (Cons x xs)
  show ?case
  proof (cases "P x")
    case False
    with Cons.prems obtain k where k: "position P xs = Some k" "i = Suc k" by auto
    with Cons.IH [of k] False show ?thesis by (auto simp: less_Suc_eq_0_disj)
  qed (use Cons.prems in auto)
qed simp

lemma position_None [simp]: "(position P xs = None) = (\<forall>x \<in> set xs. \<not> P x)"
  by (induction xs) auto

lemma position_lt: "position P xs = Some i \<Longrightarrow> i < length xs"
  using position_Some by blast

lemma position_sat: "position P xs = Some i \<Longrightarrow> P (xs ! i)"
  using position_Some by blast

lemma remove_nth_Nil [simp]: "remove_nth i [] = []"
  by (simp add: remove_nth_def)

lemma remove_nth_Cons [simp]:
  "remove_nth 0 (x # xs) = xs"
  "remove_nth (Suc i) (x # xs) = x # remove_nth i xs"
  by (simp_all add: remove_nth_def)

lemma length_remove_nth [vec_simps]:
  "i < length xs \<Longrightarrow> length (remove_nth i xs) = length xs - 1"
  by (simp add: remove_nth_def)

lemma remove_nth_eq_drain: "remove_nth i xs = drain_rest i 1 xs"
  by (simp add: remove_nth_def drain_rest_def)

lemma subseq_drain_rest [simp]: "subseq (drain_rest i n xs) xs"
proof -
  have "subseq (take i xs @ drop (i + n) xs) (take i xs @ drop i xs)"
    by (intro list_emb_append_mono subseq_order.refl)
      (metis add.commute drop_drop list_emb_append2 append_take_drop_id subseq_order.refl)
  then show ?thesis by (simp add: drain_rest_def)
qed

lemma subseq_remove_nth [simp]: "subseq (remove_nth i xs) xs"
  by (simp add: remove_nth_eq_drain)

lemma subseq_set: "subseq xs ys \<Longrightarrow> set xs \<subseteq> set ys"
  by (induction rule: list_emb.induct) auto

lemma set_remove_nth_subset: "set (remove_nth i xs) \<subseteq> set xs"
  by (auto simp: remove_nth_def dest: in_set_takeD in_set_dropD)

lemma set_drain_rest_subset: "set (drain_rest i n xs) \<subseteq> set xs"
  by (auto simp: drain_rest_def dest: in_set_takeD in_set_dropD)

lemma zip_remove_nth [vec_simps]:
  "length xs = length ys \<Longrightarrow>
   zip (remove_nth i xs) (remove_nth i ys) = remove_nth i (zip xs ys)"
proof (induction i arbitrary: xs ys)
  case 0
  then show ?case by (cases xs; cases ys) auto
next
  case (Suc i)
  then show ?case by (cases xs; cases ys) auto
qed

lemma remove_nth_drop:
  "i < length xs \<Longrightarrow> xs = take i xs @ xs ! i # drop (Suc i) xs"
  by (rule id_take_nth_drop)

lemma in_set_remove_nthI:
  assumes "x \<in> set xs" and "i < length xs" and "x \<noteq> xs ! i"
  shows "x \<in> set (remove_nth i xs)"
proof -
  have "set xs = set (take i xs) \<union> {xs ! i} \<union> set (drop (Suc i) xs)"
    using assms(2) by (subst id_take_nth_drop [OF assms(2)]) auto
  with assms show ?thesis by (auto simp: remove_nth_def)
qed

lemma drain_rest_0 [simp]: "drain_rest i 0 xs = xs"
  by (simp add: drain_rest_def)

lemma drained_0 [simp]: "drained i 0 xs = []"
  by (simp add: drained_def)

lemma remove_nth_drain_rest:
  "remove_nth i (drain_rest i n xs) = drain_rest i (Suc n) xs"
proof (cases "i \<le> length xs")
  case True
  then have "take i (drain_rest i n xs) = take i xs"
    "drop (Suc i) (drain_rest i n xs) = drop (Suc (i + n)) xs"
    by (auto simp: drain_rest_def min_def)
  then show ?thesis by (simp add: remove_nth_def drain_rest_def)
next
  case False
  then show ?thesis by (simp add: remove_nth_def drain_rest_def)
qed

lemma remove_nth_pow: "(remove_nth i ^^ n) xs = drain_rest i n xs"
  by (induction n) (simp_all add: remove_nth_drain_rest)

lemma drain_rest_zip:
  assumes "length xs = length ys"
  shows "zip (drain_rest i n xs) (drain_rest i n ys) = drain_rest i n (zip xs ys)"
  using assms by (simp add: drain_rest_def take_zip drop_zip)

lemma length_drain_rest [vec_simps]:
  "i + n \<le> length xs \<Longrightarrow> length (drain_rest i n xs) = length xs - n"
  by (simp add: drain_rest_def)

lemma length_drained [vec_simps]:
  "i + n \<le> length xs \<Longrightarrow> length (drained i n xs) = n"
  by (simp add: drained_def)

lemma drain_split:
  "take i xs @ drained i n xs @ drop (i + n) xs = xs"
  by (simp add: drained_def) (metis add.commute append_take_drop_id drop_drop)

text \<open>\<open>Iterator::min_by_key\<close>: the first of the smallest.\<close>

fun min_by_key :: "('a \<Rightarrow> 'k::linorder) \<Rightarrow> 'a list \<Rightarrow> 'a option" where
  "min_by_key f [] = None"
| "min_by_key f (x # xs) =
     (case min_by_key f xs of None \<Rightarrow> Some x
      | Some y \<Rightarrow> if f y < f x then Some y else Some x)"

lemma min_by_key_None [simp]: "(min_by_key f xs = None) = (xs = [])"
  by (cases xs) (auto split: option.splits)

lemma min_by_key_Some:
  "min_by_key f xs = Some y \<Longrightarrow> y \<in> set xs \<and> (\<forall>x \<in> set xs. f y \<le> f x)"
proof (induction xs arbitrary: y)
  case (Cons x xs)
  then show ?case
    by (fastforce split: option.splits if_splits)
qed simp

subsection \<open>Sums over entries\<close>

lemma sum_list_remove_nth [token_simps]:
  fixes f :: "'a \<Rightarrow> nat"
  assumes "i < length xs"
  shows "sum_list (map f (remove_nth i xs)) = sum_list (map f xs) - f (xs ! i)"
proof -
  have "map f xs = map f (take i xs) @ f (xs ! i) # map f (drop (Suc i) xs)"
    by (subst id_take_nth_drop [OF assms]) simp
  then show ?thesis by (simp add: remove_nth_def)
qed

lemma nth_le_sum_list:
  fixes f :: "'a \<Rightarrow> nat"
  shows "i < length xs \<Longrightarrow> f (xs ! i) \<le> sum_list (map f xs)"
  by (metis elem_le_sum_list length_map nth_map)

lemma sum_list_remove_nth_add:
  fixes f :: "'a \<Rightarrow> nat"
  assumes "i < length xs"
  shows "sum_list (map f (remove_nth i xs)) + f (xs ! i) = sum_list (map f xs)"
  using sum_list_remove_nth [OF assms, of f] nth_le_sum_list [OF assms, of f] by simp

lemma sum_list_drain_rest:
  fixes f :: "'a \<Rightarrow> nat"
  shows "sum_list (map f (drain_rest i n xs)) + sum_list (map f (drained i n xs)) =
         sum_list (map f xs)"
proof -
  have "xs = take i xs @ take n (drop i xs) @ drop n (drop i xs)"
    by (metis append_take_drop_id)
  then have "sum_list (map f xs) =
      sum_list (map f (take i xs)) + sum_list (map f (take n (drop i xs))) +
      sum_list (map f (drop n (drop i xs)))"
    by (metis add.assoc map_append sum_list_append)
  then show ?thesis
    by (simp add: drain_rest_def drained_def add.commute)
qed

lemma sum_list_partition:
  fixes f :: "'a \<Rightarrow> nat"
  shows "sum_list (map f (filter P xs)) + sum_list (map f (filter (\<lambda>x. \<not> P x) xs)) =
         sum_list (map f xs)"
  by (induction xs) auto

lemma sum_list_update_nat:
  fixes f :: "'a \<Rightarrow> nat"
  assumes "i < length xs"
  shows "sum_list (map f (xs[i := y])) + f (xs ! i) = sum_list (map f xs) + f y"
  using assms by (induction xs arbitrary: i) (auto simp: nth_Cons split: nat.splits)

subsection \<open>ASCII text\<close>

text \<open>
  The case mapping and trimming the code uses on mime types and configuration words act on
  ASCII alone, so they read the same on the characters of a text and on its UTF-8 bytes.
\<close>

definition lower_char :: "char \<Rightarrow> char" where
  "lower_char c = (let n = (of_char c :: nat) in
     if 65 \<le> n \<and> n \<le> 90 then char_of (n + 32) else c)"

definition to_ascii_lowercase :: "string \<Rightarrow> string" where
  "to_ascii_lowercase s = map lower_char s"

definition is_space :: "char \<Rightarrow> bool" where
  "is_space c = (let n = (of_char c :: nat) in n = 32 \<or> (9 \<le> n \<and> n \<le> 13))"

definition trim :: "string \<Rightarrow> string" where
  "trim s = rev (dropWhile is_space (rev (dropWhile is_space s)))"

definition trim_end :: "string \<Rightarrow> string" where
  "trim_end s = rev (dropWhile is_space (rev s))"

text \<open>\<open>str::split_once\<close> on one character.\<close>

fun split_once :: "char \<Rightarrow> string \<Rightarrow> (string \<times> string) option" where
  "split_once c [] = None"
| "split_once c (x # xs) =
     (if x = c then Some ([], xs)
      else map_option (\<lambda>(a, b). (x # a, b)) (split_once c xs))"

lemma split_once_Some:
  "split_once c s = Some (a, b) \<Longrightarrow> s = a @ c # b \<and> c \<notin> set a"
  by (induction s arbitrary: a b) (auto split: if_splits)

lemma split_once_append:
  "c \<notin> set a \<Longrightarrow> split_once c (a @ c # b) = Some (a, b)"
  by (induction a) auto

lemma split_once_None: "(split_once c s = None) = (c \<notin> set s)"
  by (induction s) auto

lemma lower_char_idem [simp]: "lower_char (lower_char c) = lower_char c"
proof -
  have "of_char (char_of (n :: nat) :: char) = n mod 256" for n
    by simp
  then show ?thesis by (auto simp: lower_char_def Let_def)
qed

lemma to_ascii_lowercase_idem [simp]:
  "to_ascii_lowercase (to_ascii_lowercase s) = to_ascii_lowercase s"
  by (simp add: to_ascii_lowercase_def)

text \<open>Numbers in messages, and \<open>join\<close>.\<close>

fun show_nat :: "nat \<Rightarrow> string" where
  "show_nat n = (if n < 10 then [char_of (48 + n)]
     else show_nat (n div 10) @ [char_of (48 + n mod 10)])"

declare show_nat.simps [simp del]

definition quoted :: "string \<Rightarrow> string" where
  "quoted s = [CHR 0x27] @ s @ [CHR 0x27]"

fun join :: "string \<Rightarrow> string list \<Rightarrow> string" where
  "join sep [] = []"
| "join sep [w] = w"
| "join sep (w # ws) = w @ sep @ join sep ws"

subsection \<open>Loops that drain a store\<close>

text \<open>
  Several loops of the code have the shape
  \<open>while cond(self) && self.step().is_some() {}\<close>. The fuel is the size of what is
  drained; the locale below shows that it is enough, because each step shrinks it.
\<close>

fun drain_while :: "nat \<Rightarrow> ('s \<Rightarrow> bool) \<Rightarrow> ('s \<Rightarrow> 's option) \<Rightarrow> 's \<Rightarrow> 's" where
  "drain_while 0 cond step s = s"
| "drain_while (Suc n) cond step s =
     (if cond s then (case step s of None \<Rightarrow> s | Some s' \<Rightarrow> drain_while n cond step s')
      else s)"

locale draining =
  fixes size_of :: "'s \<Rightarrow> nat"
    and step :: "'s \<Rightarrow> 's option"
  assumes step_shrinks: "step s = Some s' \<Longrightarrow> size_of s' < size_of s"
begin

lemma loop_exit:
  "size_of s \<le> n \<Longrightarrow>
   \<not> cond (drain_while n cond step s) \<or> step (drain_while n cond step s) = None"
proof (induction n arbitrary: s)
  case 0
  have "step s = None"
  proof (cases "step s")
    case (Some s')
    with step_shrinks [of s s'] "0" show ?thesis by simp
  qed simp
  then show ?case by simp
next
  case (Suc n)
  show ?case
  proof (cases "step s")
    case None
    then show ?thesis by simp
  next
    case (Some s')
    with step_shrinks [of s s'] Suc.prems have "size_of s' \<le> n" by simp
    from Suc.IH [OF this] Some show ?thesis by simp
  qed
qed

lemma loop_fuel:
  "size_of s \<le> n \<Longrightarrow> drain_while n cond step s = drain_while (size_of s) cond step s"
proof (induction n arbitrary: s rule: less_induct)
  case (less n)
  show ?case
  proof (cases "step s")
    case None
    then show ?thesis by (cases n; cases "size_of s") auto
  next
    case (Some s')
    with step_shrinks [of s s'] have lt: "size_of s' < size_of s" by simp
    with less.prems obtain m k where mk: "n = Suc m" "size_of s = Suc k"
      by (cases n; cases "size_of s") auto
    with lt less.prems have "size_of s' \<le> m" "size_of s' \<le> k" "k < n" "m < n" by auto
    with less.IH [of m s'] less.IH [of k s'] Some mk show ?thesis by simp
  qed
qed

lemma loop_size: "size_of (drain_while n cond step s) \<le> size_of s"
proof (induction n arbitrary: s)
  case (Suc n)
  show ?case
  proof (cases "step s")
    case (Some s')
    with step_shrinks [of s s'] Suc.IH [of s'] show ?thesis by auto
  qed simp
qed simp

end

text \<open>Whatever one step keeps, the loop keeps.\<close>

lemma drain_while_invariant:
  assumes "P s" and "\<And>s s'. P s \<Longrightarrow> cond s \<Longrightarrow> step s = Some s' \<Longrightarrow> P s'"
  shows "P (drain_while n cond step s)"
  using assms(1)
proof (induction n arbitrary: s)
  case (Suc n)
  then show ?case using assms(2) by (auto split: option.splits)
qed simp

text \<open>A value that no step changes is the same after the loop.\<close>

lemma drain_while_frame:
  assumes "\<And>s s'. step s = Some s' \<Longrightarrow> f s' = f s"
  shows "f (drain_while n cond step s) = f s"
proof (rule drain_while_invariant [where P = "\<lambda>r. f r = f s"])
  show "f s' = f s" if "f r = f s" and "step r = Some s'" for r s'
    using assms [OF that(2)] that(1) by simp
qed simp

text \<open>
  Loops that also count their steps: \<open>make_room\<close> reports how many it dropped.
\<close>

fun drain_count :: "nat \<Rightarrow> ('s \<Rightarrow> bool) \<Rightarrow> ('s \<Rightarrow> 's option) \<Rightarrow> 's \<Rightarrow> nat" where
  "drain_count 0 cond step s = 0"
| "drain_count (Suc n) cond step s =
     (if cond s then (case step s of None \<Rightarrow> 0 | Some s' \<Rightarrow> Suc (drain_count n cond step s'))
      else 0)"

end
