(* ===== verification/Taint.thy ===== *)
theory Taint
  imports Prelude "HOL-Library.Char_ord" "HOL-Library.List_Lexorder"
begin

text \<open>
  The taint types of \<open>crates/leviath-core/src/taint.rs\<close>: sensitivity levels and their
  order, tool directions and classifications, the per-region taint record, the cascade
  that decides whether tracking is on, and the table of built-in tools. The locale
  \<open>taint_ledger\<close> is what a region relies on of its taint record.
\<close>

subsection \<open>Levels\<close>

datatype taint_level = Public | Internal | Private

definition taint_rank :: "taint_level \<Rightarrow> nat" where
  "taint_rank l = (case l of Public \<Rightarrow> 0 | Internal \<Rightarrow> 1 | Private \<Rightarrow> 2)"

lemma taint_rank_simps [simp]:
  "taint_rank Public = 0" "taint_rank Internal = 1" "taint_rank Private = 2"
  by (simp_all add: taint_rank_def)

lemma taint_rank_inj: "taint_rank a = taint_rank b \<Longrightarrow> a = b"
  by (cases a; cases b) auto

text \<open>\<open>impl Ord for TaintLevel\<close> compares ranks.\<close>

instantiation taint_level :: linorder
begin

definition less_eq_taint_level :: "taint_level \<Rightarrow> taint_level \<Rightarrow> bool" where
  "less_eq_taint_level a b = (taint_rank a \<le> taint_rank b)"

definition less_taint_level :: "taint_level \<Rightarrow> taint_level \<Rightarrow> bool" where
  "less_taint_level a b = (taint_rank a < taint_rank b)"

instance
  by standard
    (auto simp: less_eq_taint_level_def less_taint_level_def intro: taint_rank_inj)

end

lemmas taint_order = less_eq_taint_level_def less_taint_level_def

lemma Public_le [simp]: "Public \<le> l"
  by (simp add: taint_order)

lemma le_Private [simp]: "l \<le> Private"
  by (cases l) (simp_all add: taint_order)

lemma le_Public [simp]: "(l \<le> Public) = (l = Public)"
  by (cases l) (simp_all add: taint_order)

text \<open>\<open>TaintLevel::max\<close> is written out in the source; it is the order's maximum.\<close>

definition taint_max :: "taint_level \<Rightarrow> taint_level \<Rightarrow> taint_level" where
  "taint_max a b = (if b \<le> a then a else b)"

lemma taint_max_is_max: "taint_max a b = max a b"
  by (auto simp: taint_max_def max_def)

definition taint_from_str_loose :: "string \<Rightarrow> taint_level option" where
  "taint_from_str_loose s = (let w = to_ascii_lowercase s in
     if w = ''public'' then Some Public
     else if w = ''internal'' then Some Internal
     else if w = ''private'' then Some Private
     else None)"

definition taint_as_str :: "taint_level \<Rightarrow> string" where
  "taint_as_str l = (case l of Public \<Rightarrow> ''public'' | Internal \<Rightarrow> ''internal''
     | Private \<Rightarrow> ''private'')"

lemma taint_str_roundtrip: "taint_from_str_loose (taint_as_str l) = Some l"
  by (cases l) (simp_all add: taint_from_str_loose_def taint_as_str_def
      to_ascii_lowercase_def lower_char_def Let_def)

subsection \<open>Directions and classifications\<close>

datatype tool_direction = Inbound | DInternal | Outbound

definition direction_from_str_loose :: "string \<Rightarrow> tool_direction option" where
  "direction_from_str_loose s = (let w = to_ascii_lowercase s in
     if w = ''inbound'' then Some Inbound
     else if w = ''internal'' then Some DInternal
     else if w = ''outbound'' then Some Outbound
     else None)"

definition direction_as_str :: "tool_direction \<Rightarrow> string" where
  "direction_as_str d = (case d of Inbound \<Rightarrow> ''inbound'' | DInternal \<Rightarrow> ''internal''
     | Outbound \<Rightarrow> ''outbound'')"

lemma direction_str_roundtrip: "direction_from_str_loose (direction_as_str d) = Some d"
  by (cases d) (simp_all add: direction_from_str_loose_def direction_as_str_def
      to_ascii_lowercase_def lower_char_def Let_def)

record tool_classification =
  sensitivity :: taint_level
  direction :: tool_direction
  clearance :: taint_level

definition classification_new ::
  "taint_level \<Rightarrow> tool_direction \<Rightarrow> taint_level \<Rightarrow> tool_classification" where
  "classification_new s d c = \<lparr>sensitivity = s, direction = d, clearance = c\<rparr>"

definition is_outbound :: "tool_classification \<Rightarrow> bool" where
  "is_outbound c = (direction c = Outbound)"

definition check_clearance :: "tool_classification \<Rightarrow> taint_level \<Rightarrow> bool" where
  "check_clearance c taint = (if \<not> is_outbound c then True else taint \<le> clearance c)"

lemma check_clearance_antimono:
  "check_clearance c t \<Longrightarrow> t' \<le> t \<Longrightarrow> check_clearance c t'"
  by (auto simp: check_clearance_def split: if_splits)

subsection \<open>The taint record of a region\<close>

record region_taint =
  current_level :: taint_level
  entry_taints :: "taint_level list"

definition taint_new :: region_taint where
  "taint_new = \<lparr>current_level = Public, entry_taints = []\<rparr>"

text \<open>\<open>.iter().copied().max().unwrap_or(Public)\<close>.\<close>

definition max_level :: "taint_level list \<Rightarrow> taint_level" where
  "max_level ls = fold max ls Public"

definition taint_add_entry :: "region_taint \<Rightarrow> taint_level \<Rightarrow> region_taint" where
  "taint_add_entry t l =
     t\<lparr>entry_taints := entry_taints t @ [l],
       current_level := taint_max (current_level t) l\<rparr>"

definition taint_recompute :: "region_taint \<Rightarrow> region_taint" where
  "taint_recompute t = t\<lparr>current_level := max_level (entry_taints t)\<rparr>"

definition taint_remove_oldest :: "region_taint \<Rightarrow> region_taint" where
  "taint_remove_oldest t =
     (if entry_taints t \<noteq> []
      then taint_recompute (t\<lparr>entry_taints := remove_nth 0 (entry_taints t)\<rparr>) else t)"

definition taint_remove_at :: "region_taint \<Rightarrow> nat \<Rightarrow> region_taint" where
  "taint_remove_at t idx =
     (if idx < length (entry_taints t)
      then taint_recompute (t\<lparr>entry_taints := remove_nth idx (entry_taints t)\<rparr>) else t)"

definition taint_clear :: "region_taint \<Rightarrow> region_taint" where
  "taint_clear t = t\<lparr>entry_taints := [], current_level := Public\<rparr>"

definition from_entry_taints :: "taint_level list \<Rightarrow> region_taint" where
  "from_entry_taints ls = \<lparr>current_level = max_level ls, entry_taints = ls\<rparr>"

definition entry_taint :: "region_taint \<Rightarrow> nat \<Rightarrow> taint_level option" where
  "entry_taint t i = (if i < length (entry_taints t) then Some (entry_taints t ! i) else None)"

text \<open>The record is consistent when its level is the maximum of its entries' levels.\<close>

definition taint_ok :: "region_taint \<Rightarrow> bool" where
  "taint_ok t = (current_level t = max_level (entry_taints t))"

lemma fold_max_base: "fold max ls (max a b) = max (fold max ls a) (b :: taint_level)"
  by (induction ls arbitrary: a) (simp_all add: max.assoc [symmetric])

lemma max_level_simps [simp]:
  "max_level [] = Public"
  "max_level (l # ls) = max l (max_level ls)"
  "max_level (ls @ ms) = max (max_level ls) (max_level ms)"
proof -
  show "max_level [] = Public" by (simp add: max_level_def)
  show cons: "max_level (l # ls) = max l (max_level ls)" for l ls
    using fold_max_base [of ls Public l] by (simp add: max_level_def max.commute)
  show "max_level (ls @ ms) = max (max_level ls) (max_level ms)"
  proof (induction ls)
    case Nil
    then show ?case by (simp add: max_level_def max_def)
  next
    case (Cons l ls)
    then show ?case by (simp add: cons max.assoc)
  qed
qed

lemma max_level_upper: "l \<in> set ls \<Longrightarrow> l \<le> max_level ls"
  by (induction ls) (auto simp: le_max_iff_disj)

lemma max_level_mem: "ls \<noteq> [] \<Longrightarrow> max_level ls \<in> set ls"
proof (induction ls)
  case (Cons l ls)
  then show ?case by (cases ls) (auto simp: max_def)
qed simp

lemma max_level_mono: "set ls \<subseteq> set ms \<Longrightarrow> max_level ls \<le> max_level ms"
  by (induction ls) (auto intro: max_level_upper)

subsubsection \<open>The record keeps its own invariant\<close>

lemma taint_ok_new [wf_intros]: "taint_ok taint_new"
  by (simp add: taint_ok_def taint_new_def)

lemma taint_ok_add [wf_intros]: "taint_ok t \<Longrightarrow> taint_ok (taint_add_entry t l)"
  by (simp add: taint_ok_def taint_add_entry_def taint_max_is_max max_def)

lemma taint_ok_recompute [wf_intros]: "taint_ok (taint_recompute t)"
  by (simp add: taint_ok_def taint_recompute_def)

lemma taint_ok_remove_at [wf_intros]: "taint_ok t \<Longrightarrow> taint_ok (taint_remove_at t i)"
  by (simp add: taint_remove_at_def taint_ok_recompute)

lemma taint_ok_clear [wf_intros]: "taint_ok (taint_clear t)"
  by (simp add: taint_ok_def taint_clear_def)

lemma taint_ok_from_entries [wf_intros]: "taint_ok (from_entry_taints ls)"
  by (simp add: taint_ok_def from_entry_taints_def)

lemma entry_taints_add [simp]: "entry_taints (taint_add_entry t l) = entry_taints t @ [l]"
  by (simp add: taint_add_entry_def)

lemma entry_taints_clear [simp]: "entry_taints (taint_clear t) = []"
  by (simp add: taint_clear_def)

lemma entry_taints_new [simp]: "entry_taints taint_new = []"
  by (simp add: taint_new_def)

lemma entry_taints_remove_at [simp]:
  "entry_taints (taint_remove_at t i) = remove_nth i (entry_taints t)"
  by (auto simp: taint_remove_at_def taint_recompute_def remove_nth_def)

subsubsection \<open>What a region relies on\<close>

text \<open>
  The interface a region uses: levels are recorded per entry, in entry order, and the
  reported level bounds every recorded one. Client lemmas: a level that covers a list
  of true sensitivities still covers what is left after a removal at the same index,
  and it recovers when the sensitive entry leaves.
\<close>

locale taint_ledger =
  fixes recorded :: "'t \<Rightarrow> 'l::linorder list"
    and level :: "'t \<Rightarrow> 'l"
    and add :: "'t \<Rightarrow> 'l \<Rightarrow> 't"
    and remove :: "'t \<Rightarrow> nat \<Rightarrow> 't"
    and ok :: "'t \<Rightarrow> bool"
  assumes recorded_add: "recorded (add t l) = recorded t @ [l]"
    and recorded_remove: "recorded (remove t i) = remove_nth i (recorded t)"
    and ok_add: "ok t \<Longrightarrow> ok (add t l)"
    and ok_remove: "ok t \<Longrightarrow> ok (remove t i)"
    and level_bounds: "ok t \<Longrightarrow> l \<in> set (recorded t) \<Longrightarrow> l \<le> level t"
    and level_least: "ok t \<Longrightarrow> recorded t \<noteq> [] \<Longrightarrow> level t \<in> set (recorded t)"
begin

text \<open>\<open>covers t truth\<close>: entry by entry, the record is at least the true level.\<close>

lemma covers_add:
  "list_all2 (\<le>) truth (recorded t) \<Longrightarrow> l \<le> l' \<Longrightarrow>
   list_all2 (\<le>) (truth @ [l]) (recorded (add t l'))"
  by (simp add: recorded_add list_all2_appendI)

lemma covers_remove:
  assumes "list_all2 (\<le>) truth (recorded t)"
  shows "list_all2 (\<le>) (remove_nth i truth) (recorded (remove t i))"
  using assms
  by (auto simp: recorded_remove remove_nth_def intro!: list_all2_appendI list_all2_takeI
      list_all2_dropI)

lemma covers_level:
  assumes "ok t" and "list_all2 (\<le>) truth (recorded t)" and "l \<in> set truth"
  shows "l \<le> level t"
proof -
  from assms(3) obtain i where i: "i < length truth" "truth ! i = l"
    by (auto simp: in_set_conv_nth)
  with assms(2) have "l \<le> recorded t ! i" "recorded t ! i \<in> set (recorded t)"
    by (auto simp: list_all2_conv_all_nth)
  with level_bounds [OF assms(1)] show ?thesis by (meson order_trans)
qed

lemma level_recovers:
  assumes "ok t" and "recorded (remove t i) \<noteq> []"
    and "\<And>j. j < length (recorded t) \<Longrightarrow> j \<noteq> i \<Longrightarrow> recorded t ! j \<le> c"
    and "i < length (recorded t)"
  shows "level (remove t i) \<le> c"
proof -
  let ?r = "recorded t"
  have "level (remove t i) \<in> set (remove_nth i ?r)"
    using level_least [OF ok_remove [OF assms(1)] assms(2)] by (simp add: recorded_remove)
  then obtain k where k: "k < length (remove_nth i ?r)" "remove_nth i ?r ! k = level (remove t i)"
    by (auto simp: in_set_conv_nth)
  have "remove_nth i ?r ! k = ?r ! (if k < i then k else Suc k)"
    using k(1) assms(4) by (auto simp: remove_nth_def nth_append min_def)
  moreover have "(if k < i then k else Suc k) < length ?r"
    using k(1) assms(4) by (auto simp: length_remove_nth)
  ultimately show ?thesis using assms(3) [of "if k < i then k else Suc k"] k(2) by auto
qed

end

interpretation rt: taint_ledger entry_taints current_level taint_add_entry taint_remove_at
  taint_ok
proof unfold_locales
  show "l \<le> current_level t" if "taint_ok t" "l \<in> set (entry_taints t)" for t l
    using that max_level_upper by (simp add: taint_ok_def)
  show "current_level t \<in> set (entry_taints t)" if "taint_ok t" "entry_taints t \<noteq> []" for t
    using that max_level_mem by (simp add: taint_ok_def)
qed (simp_all add: wf_intros)

subsection \<open>Whether tracking is on\<close>

record security_config =
  taint_tracking :: bool

definition resolve_taint_enabled ::
  "bool \<Rightarrow> security_config option \<Rightarrow> security_config option \<Rightarrow> bool" where
  "resolve_taint_enabled global agent stage =
     (let manifest = (case stage of Some s \<Rightarrow> Some (taint_tracking s)
                      | None \<Rightarrow> map_option taint_tracking agent)
      in global \<or> (case manifest of Some b \<Rightarrow> b | None \<Rightarrow> False))"

definition resolve_hint :: "bool \<Rightarrow> bool option \<Rightarrow> bool option \<Rightarrow> bool" where
  "resolve_hint global agent stage =
     (case stage of Some b \<Rightarrow> b
      | None \<Rightarrow> (case agent of Some b \<Rightarrow> b | None \<Rightarrow> global))"

subsection \<open>Gate decisions and their audit events\<close>

datatype gate_decision =
    Allowed
  | Blocked taint_level taint_level "string list" string

fun is_allowed :: "gate_decision \<Rightarrow> bool" where
  "is_allowed Allowed = True"
| "is_allowed (Blocked t c rs n) = False"

fun blocked_levels :: "gate_decision \<Rightarrow> (taint_level \<times> taint_level) option" where
  "blocked_levels (Blocked t c rs n) = Some (t, c)"
| "blocked_levels Allowed = None"

datatype gate_decision_source =
    AutoAllow
  | AutoBlock
  | AllowlistRule nat
  | ScriptedRule string
  | UserAllowOnce
  | UserAlwaysAllow
  | UserDenied
  | TaintDisabled
  | YoloAutoApprove

record gate_event =
  ev_timestamp :: int
  ev_agent_id :: string
  ev_tool_name :: string
  ev_taint_level :: taint_level
  ev_clearance :: taint_level
  ev_allowed :: bool
  ev_source :: gate_decision_source

subsection \<open>The table of built-in tools\<close>

definition classified_builtin :: "string \<Rightarrow> tool_classification option" where
  "classified_builtin n =
    (if n \<in> set [''read_file'', ''read_files''] then
       Some (classification_new Internal Inbound Public)
     else if n \<in> set [''write_file'', ''install_self_tool'', ''install_global_tool'',
         ''install_tool''] then
       Some (classification_new Internal DInternal Public)
     else if n \<in> set [''edit_file'', ''edit_document''] then
       Some (classification_new Internal DInternal Public)
     else if n \<in> set [''context_write'', ''context_append'', ''context_read'',
         ''context_delete'', ''context_list'', ''context_attach'', ''context_export'',
         ''todo_add'', ''todo_done'', ''todo_note''] then
       Some (classification_new Internal DInternal Public)
     else if n = ''submit_output'' then
       Some (classification_new Public Outbound Public)
     else if n \<in> set [''list_dir'', ''search_files'', ''glob''] then
       Some (classification_new Internal Inbound Public)
     else if n \<in> set [''shell'', ''bash''] then
       Some (classification_new Public Outbound Public)
     else if n \<in> set [''web_search'', ''web_fetch'', ''http_get'', ''http_post'', ''fetch''] then
       Some (classification_new Public Outbound Public)
     else if n \<in> set [''current_time'', ''locale_info''] then
       Some (classification_new Public Inbound Public)
     else if n \<in> set [''system_info'', ''environment_info'', ''which_command'',
         ''runtime_info''] then
       Some (classification_new Internal Inbound Public)
     else if n \<in> set [''ask_user_text'', ''ask_user_choice'', ''ask_user_confirm'',
         ''present_for_review''] then
       Some (classification_new Internal DInternal Public)
     else if n = ''end_conversation'' then
       Some (classification_new Public DInternal Public)
     else if n \<in> set [''spawn_agent'', ''check_agent'', ''wait_for_agent'', ''send_to_agent'',
         ''kill_agent'', ''spawn_schema'', ''describe_blueprint'', ''validate_spawn'',
         ''run_history'', ''fan_out''] then
       Some (classification_new Internal DInternal Public)
     else None)"

definition builtin_tool_classification :: "string \<Rightarrow> tool_classification" where
  "builtin_tool_classification n =
     (case classified_builtin n of Some c \<Rightarrow> c
      | None \<Rightarrow> classification_new Public Outbound Public)"

lemma classification_new_simps [simp]:
  "sensitivity (classification_new s d c) = s"
  "direction (classification_new s d c) = d"
  "clearance (classification_new s d c) = c"
  by (simp_all add: classification_new_def)

lemma builtin_clearance: "clearance (builtin_tool_classification n) = Public"
  by (simp add: builtin_tool_classification_def classified_builtin_def)

text \<open>The one list of names the gate lets through without looking at the context.\<close>

definition ungated_builtins :: "string list" where
  "ungated_builtins =
    [''read_file'', ''read_files'', ''write_file'', ''install_self_tool'',
     ''install_global_tool'', ''install_tool'', ''edit_file'', ''edit_document'',
     ''context_write'', ''context_append'', ''context_read'', ''context_delete'',
     ''context_list'', ''context_attach'', ''context_export'', ''todo_add'', ''todo_done'',
     ''todo_note'', ''list_dir'', ''search_files'', ''glob'', ''current_time'',
     ''locale_info'', ''system_info'', ''environment_info'', ''which_command'',
     ''runtime_info'', ''ask_user_text'', ''ask_user_choice'', ''ask_user_confirm'',
     ''present_for_review'', ''end_conversation'', ''spawn_agent'', ''check_agent'',
     ''wait_for_agent'', ''send_to_agent'', ''kill_agent'', ''spawn_schema'',
     ''describe_blueprint'', ''validate_spawn'', ''run_history'', ''fan_out'']"

lemma builtin_outbound_iff:
  "is_outbound (builtin_tool_classification n) \<longleftrightarrow> n \<notin> set ungated_builtins"
  by (auto simp: is_outbound_def builtin_tool_classification_def classified_builtin_def
      ungated_builtins_def)

end
