(* ===== verification/Text_Cut.thy ===== *)
theory Text_Cut
  imports Prelude
begin

text \<open>
  Cutting a UTF-8 string at a byte offset, \<open>crates/leviath-core/src/text.rs\<close>. A
  \<open>str\<close> is its list of bytes; an index is a character boundary unless the byte there
  is a continuation byte (0x80 to 0xBF). \<open>str::get\<close> is \<open>None\<close> where slicing would
  panic, so that no helper panics is the statement that its \<open>get\<close> never is.
\<close>

definition is_continuation :: "char \<Rightarrow> bool" where
  "is_continuation c = (let n = (of_char c :: nat) in 128 \<le> n \<and> n < 192)"

definition is_char_boundary :: "string \<Rightarrow> nat \<Rightarrow> bool" where
  "is_char_boundary s i =
     (i = 0 \<or> i = length s \<or> (i < length s \<and> \<not> is_continuation (s ! i)))"

lemma boundary_0 [simp]: "is_char_boundary s 0"
  by (simp add: is_char_boundary_def)

lemma boundary_len [simp]: "is_char_boundary s (length s)"
  by (simp add: is_char_boundary_def)

lemma boundary_le: "is_char_boundary s i \<Longrightarrow> i \<le> length s"
  by (auto simp: is_char_boundary_def)

definition str_get :: "string \<Rightarrow> nat \<Rightarrow> nat \<Rightarrow> string option" where
  "str_get s a b =
     (if a \<le> b \<and> is_char_boundary s a \<and> is_char_boundary s b
      then Some (take (b - a) (drop a s)) else None)"

subsection \<open>The two walks\<close>

fun floor_walk :: "string \<Rightarrow> nat \<Rightarrow> nat" where
  "floor_walk s 0 = 0"
| "floor_walk s (Suc n) = (if is_char_boundary s (Suc n) then Suc n else floor_walk s n)"

definition floor_char_boundary :: "string \<Rightarrow> nat \<Rightarrow> nat" where
  "floor_char_boundary s mx = floor_walk s (min mx (length s))"

text \<open>The walk forward stops at the end of the string, which is a boundary.\<close>

function ceil_walk :: "string \<Rightarrow> nat \<Rightarrow> nat" where
  "ceil_walk s start =
     (if start \<ge> length s \<or> is_char_boundary s start then start else ceil_walk s (Suc start))"
  by pat_completeness auto
termination
  by (relation "measure (\<lambda>(s, start). length s - start)") auto

declare ceil_walk.simps [simp del]

definition ceil_char_boundary :: "string \<Rightarrow> nat \<Rightarrow> nat" where
  "ceil_char_boundary s mn = ceil_walk s (min mn (length s))"

lemma floor_walk_spec:
  "is_char_boundary s (floor_walk s n) \<and> floor_walk s n \<le> n \<and>
   (\<forall>k. floor_walk s n < k \<and> k \<le> n \<longrightarrow> \<not> is_char_boundary s k)"
  by (induction n) (auto simp: le_Suc_eq)

lemma ceil_walk_spec:
  "n \<le> length s \<Longrightarrow> is_char_boundary s (ceil_walk s n) \<and> n \<le> ceil_walk s n \<and>
   (\<forall>k. n \<le> k \<and> k < ceil_walk s n \<longrightarrow> \<not> is_char_boundary s k)"
proof (induction s n rule: ceil_walk.induct)
  case (1 s n)
  show ?case
  proof (cases "n \<ge> length s \<or> is_char_boundary s n")
    case True
    with "1.prems" show ?thesis
      by (subst (1 2 3) ceil_walk.simps) (auto simp: ceil_walk.simps [of s n])
  next
    case False
    with "1.IH" "1.prems" have ih: "is_char_boundary s (ceil_walk s (Suc n))"
      "Suc n \<le> ceil_walk s (Suc n)"
      "\<forall>k. Suc n \<le> k \<and> k < ceil_walk s (Suc n) \<longrightarrow> \<not> is_char_boundary s k" by auto
    have eq: "ceil_walk s n = ceil_walk s (Suc n)"
      using False by (subst ceil_walk.simps) simp
    have "\<not> is_char_boundary s k" if "n \<le> k" "k < ceil_walk s (Suc n)" for k
      using that ih(3) False by (cases "k = n") auto
    with ih eq show ?thesis by auto
  qed
qed

lemma floor_boundary [simp]: "is_char_boundary s (floor_char_boundary s m)"
  by (simp add: floor_char_boundary_def floor_walk_spec)

lemma floor_le: "floor_char_boundary s m \<le> m"
  using floor_walk_spec [of s "min m (length s)"] by (simp add: floor_char_boundary_def)

lemma floor_le_len: "floor_char_boundary s m \<le> length s"
  using floor_walk_spec [of s "min m (length s)"] by (simp add: floor_char_boundary_def)

lemma floor_greatest:
  "is_char_boundary s k \<Longrightarrow> k \<le> m \<Longrightarrow> k \<le> floor_char_boundary s m"
  using floor_walk_spec [of s "min m (length s)"] boundary_le [of s k]
  by (auto simp: floor_char_boundary_def not_less [symmetric])

lemma floor_at_boundary: "is_char_boundary s k \<Longrightarrow> floor_char_boundary s k = k"
  by (simp add: floor_greatest floor_le le_antisym)

lemma ceil_boundary [simp]: "is_char_boundary s (ceil_char_boundary s m)"
  by (simp add: ceil_char_boundary_def ceil_walk_spec)

lemma ceil_ge: "min m (length s) \<le> ceil_char_boundary s m"
  by (simp add: ceil_char_boundary_def ceil_walk_spec)

lemma ceil_least:
  "is_char_boundary s k \<Longrightarrow> m \<le> k \<Longrightarrow> ceil_char_boundary s m \<le> k"
  using ceil_walk_spec [of "min m (length s)" s] boundary_le [of s k]
  by (auto simp: ceil_char_boundary_def min_def not_less [symmetric] split: if_splits)

subsection \<open>Slices\<close>

definition substring :: "string \<Rightarrow> nat \<Rightarrow> nat \<Rightarrow> string" where
  "substring s a b =
     (let e = floor_char_boundary s b; st = floor_char_boundary s (min a e)
      in case str_get s st e of Some x \<Rightarrow> x | None \<Rightarrow> [])"

definition split_at_boundary :: "string \<Rightarrow> nat \<Rightarrow> string \<times> string" where
  "split_at_boundary s mid =
     (let m = floor_char_boundary s mid in (substring s 0 m, substring s m (length s)))"

definition truncate_at_boundary :: "string \<Rightarrow> nat \<Rightarrow> string" where
  "truncate_at_boundary s mx = substring s 0 mx"

text \<open>U+2026, the ellipsis, is three bytes.\<close>

definition ellipsis :: string where
  "ellipsis = map char_of [226, 128, 166 :: nat]"

definition snippet_around :: "string \<Rightarrow> nat \<Rightarrow> nat \<Rightarrow> string" where
  "snippet_around s at0 radius =
     (let at = min at0 (length s);
          start = floor_char_boundary s (saturating_sub at radius);
          e = ceil_char_boundary s (saturating_add at radius)
      in (if start > 0 then ellipsis else []) @ substring s start e @
         (if e < length s then ellipsis else []))"

definition estimate_tokens :: "string \<Rightarrow> nat" where
  "estimate_tokens s = (length s + 3) div 4"

lemma floor_min_le: "floor_char_boundary s (min a e) \<le> e"
  using floor_le [of s "min a e"] by simp

text \<open>The \<open>get\<close> inside \<open>substring\<close> always succeeds.\<close>

lemma substring_get:
  "str_get s (floor_char_boundary s (min a (floor_char_boundary s b)))
     (floor_char_boundary s b) = Some (substring s a b)"
  using floor_min_le [of s a "floor_char_boundary s b"]
  by (simp add: substring_def str_get_def Let_def)

lemma substring_exact:
  assumes "is_char_boundary s a" and "is_char_boundary s b" and "a \<le> b"
  shows "substring s a b = take (b - a) (drop a s)"
  using assms by (simp add: substring_def str_get_def Let_def floor_at_boundary)

lemma substring_backwards: "b \<le> a \<Longrightarrow> substring s a b = []"
  using floor_le [of s b]
  by (simp add: substring_def str_get_def Let_def min_absorb2 floor_at_boundary)

lemma split_at_boundary_concat:
  "fst (split_at_boundary s mid) @ snd (split_at_boundary s mid) = s"
  by (simp add: split_at_boundary_def Let_def substring_exact floor_le_len)

lemma truncate_prefix: "\<exists>r. s = truncate_at_boundary s m @ r"
proof -
  have "truncate_at_boundary s m = take (floor_char_boundary s m) s"
    using substring_exact [of s 0 "floor_char_boundary s m"]
    by (simp add: truncate_at_boundary_def substring_def Let_def floor_at_boundary)
  then show ?thesis by (metis append_take_drop_id)
qed

lemma truncate_eq_take: "truncate_at_boundary s m = take (floor_char_boundary s m) s"
  using substring_exact [of s 0 "floor_char_boundary s m"]
  by (simp add: truncate_at_boundary_def substring_def Let_def floor_at_boundary)

lemma truncate_length: "length (truncate_at_boundary s m) \<le> m"
  using floor_le [of s m] by (simp add: truncate_eq_take)

lemma truncate_id: "length s \<le> m \<Longrightarrow> truncate_at_boundary s m = s"
  using floor_greatest [of s "length s" m] by (simp add: truncate_eq_take)

lemma estimate_tokens_bound: "length s \<le> 4 * estimate_tokens s"
  by (simp add: estimate_tokens_def)

lemma estimate_tokens_pos: "s \<noteq> [] \<Longrightarrow> 0 < estimate_tokens s"
  by (cases s) (auto simp: estimate_tokens_def)

end
