(* ===== verification/Mime.thy ===== *)
theory Mime
  imports Text_Cut
begin

text \<open>
  Mime types, patterns, parts and entry contents: \<open>crates/leviath-core/src/mime/mod.rs\<close>,
  \<open>mime/pattern.rs\<close>, \<open>mime/part.rs\<close> and \<open>region/parts.rs\<close>. A part's bytes are inline
  text or a reference into the blob store; an entry's content is a list of parts with the
  text they read as, rendered once when the content is built.
\<close>

subsection \<open>Mime types\<close>

datatype mime_type = MimeType (mime_str: string)

datatype mime_error = Shape string | Parameter string | Character string

definition is_ascii_alphanumeric :: "char \<Rightarrow> bool" where
  "is_ascii_alphanumeric c = (let n = (of_char c :: nat) in
     (48 \<le> n \<and> n \<le> 57) \<or> (65 \<le> n \<and> n \<le> 90) \<or> (97 \<le> n \<and> n \<le> 122))"

definition is_token_char :: "char \<Rightarrow> bool" where
  "is_token_char c = (is_ascii_alphanumeric c \<or> c \<in> set ''!#$&-^_.+*'')"

definition mime_parse :: "string \<Rightarrow> mime_error + mime_type" where
  "mime_parse raw =
    (let trimmed = trim raw in
     if CHR '';'' \<in> set trimmed then Inl (Parameter raw)
     else let lower = to_ascii_lowercase trimmed in
       (case split_once (CHR ''/'') lower of
          None \<Rightarrow> Inl (Shape raw)
        | Some (kind, sub) \<Rightarrow>
            if kind = [] \<or> sub = [] \<or> CHR ''/'' \<in> set sub then Inl (Shape raw)
            else if \<not> list_all (\<lambda>c. c = CHR ''/'' \<or> is_token_char c) lower
              then Inl (Character raw)
            else Inr (MimeType lower)))"

definition mime_kind :: "mime_type \<Rightarrow> string" where
  "mime_kind t = (case split_once (CHR ''/'') (mime_str t) of None \<Rightarrow> mime_str t
     | Some (k, _) \<Rightarrow> k)"

definition mime_subtype :: "mime_type \<Rightarrow> string" where
  "mime_subtype t = (case split_once (CHR ''/'') (mime_str t) of None \<Rightarrow> []
     | Some (_, s) \<Rightarrow> s)"

definition text_plain :: mime_type where
  "text_plain = MimeType ''text/plain''"

definition octet_stream :: mime_type where
  "octet_stream = MimeType ''application/octet-stream''"

subsection \<open>Patterns\<close>

definition matches_normalised :: "string \<Rightarrow> mime_type \<Rightarrow> bool" where
  "matches_normalised pattern t =
    (case split_once (CHR ''/'') pattern of
       None \<Rightarrow> False
     | Some (k, s) \<Rightarrow> if k = ''*'' \<and> s = ''*'' then True
                     else if s = ''*'' then mime_kind t = k
                     else mime_str t = pattern)"

definition mime_matches :: "mime_type \<Rightarrow> string \<Rightarrow> bool" where
  "mime_matches t pattern = matches_normalised (to_ascii_lowercase (trim pattern)) t"

definition mime_matches_any :: "mime_type \<Rightarrow> string list \<Rightarrow> bool" where
  "mime_matches_any t patterns = list_ex (mime_matches t) patterns"

definition family_pattern :: "mime_type \<Rightarrow> string" where
  "family_pattern t = mime_kind t @ ''/*''"

datatype mime_pattern = MimePattern (pattern_str: string)

definition parse_pattern :: "string \<Rightarrow> mime_error + mime_pattern" where
  "parse_pattern raw =
    (let lower = to_ascii_lowercase (trim raw);
         as_type = (case mime_parse raw of Inl e \<Rightarrow> Inl e
                    | Inr t \<Rightarrow> Inr (MimePattern (mime_str t)))
     in case split_once (CHR ''/'') lower of
          Some (kind, sub) \<Rightarrow>
            if sub = ''*'' \<and> kind \<noteq> [] then
              (if CHR '';'' \<in> set lower then Inl (Parameter raw)
               else if list_all is_token_char kind then Inr (MimePattern lower)
               else Inl (Character raw))
            else as_type
        | None \<Rightarrow> as_type)"

definition pattern_matches :: "mime_pattern \<Rightarrow> mime_type \<Rightarrow> bool" where
  "pattern_matches p t = matches_normalised (pattern_str p) t"

text \<open>What a parsed type is: lowercase tokens around exactly one slash.\<close>

definition mime_wf :: "mime_type \<Rightarrow> bool" where
  "mime_wf t = (\<exists>k s. mime_str t = k @ CHR ''/'' # s \<and> k \<noteq> [] \<and> s \<noteq> [] \<and>
     list_all is_token_char k \<and> list_all is_token_char s \<and>
     to_ascii_lowercase (mime_str t) = mime_str t)"

lemma slash_not_token [simp]: "\<not> is_token_char (CHR ''/'')"
  by (simp add: is_token_char_def is_ascii_alphanumeric_def Let_def)

lemma semicolon_not_token [simp]: "\<not> is_token_char (CHR '';'')"
  by (simp add: is_token_char_def is_ascii_alphanumeric_def Let_def)

lemma token_not_space: "is_token_char c \<Longrightarrow> \<not> is_space c"
  by (auto simp: is_token_char_def is_ascii_alphanumeric_def is_space_def Let_def)

lemma slash_not_space [simp]: "\<not> is_space (CHR ''/'')"
  by (simp add: is_space_def)

lemma trim_no_space: "\<forall>c \<in> set s. \<not> is_space c \<Longrightarrow> trim s = s"
proof -
  assume ns: "\<forall>c \<in> set s. \<not> is_space c"
  have "dropWhile is_space xs = xs" if "\<forall>c \<in> set xs. \<not> is_space c" for xs
    using that by (cases xs) auto
  from this [of s] this [of "rev s"] ns show ?thesis by (simp add: trim_def)
qed

lemma list_all_other: "list_all (\<lambda>c. c = x \<or> P c) ys \<Longrightarrow> x \<notin> set ys \<Longrightarrow> list_all P ys"
  by (induction ys) auto

lemma mime_parse_wf: "mime_parse raw = Inr t \<Longrightarrow> mime_wf t"
proof -
  assume p: "mime_parse raw = Inr t"
  let ?l = "to_ascii_lowercase (trim raw)"
  from p obtain k s where ks: "split_once (CHR ''/'') ?l = Some (k, s)"
    and ne: "k \<noteq> []" "s \<noteq> []" "CHR ''/'' \<notin> set s"
    and tok: "list_all (\<lambda>c. c = CHR ''/'' \<or> is_token_char c) ?l"
    and t: "t = MimeType ?l"
    by (simp add: mime_parse_def Let_def split: if_split_asm option.split_asm prod.split_asm)
  from split_once_Some [OF ks] have l: "?l = k @ CHR ''/'' # s" "CHR ''/'' \<notin> set k" by auto
  from tok have tok': "list_all (\<lambda>c. c = CHR ''/'' \<or> is_token_char c) (k @ CHR ''/'' # s)"
    by (simp only: l(1))
  with l(2) ne(3) have "list_all is_token_char k" "list_all is_token_char s"
    using list_all_other [of "CHR ''/''" is_token_char k]
      list_all_other [of "CHR ''/''" is_token_char s] by simp_all
  moreover have "to_ascii_lowercase (mime_str t) = mime_str t" using t by simp
  moreover have "mime_str t = k @ CHR ''/'' # s" using t l(1) by simp
  ultimately show ?thesis using ne(1,2) unfolding mime_wf_def by blast
qed

lemma mime_wf_parse:
  assumes "mime_wf t"
  shows "mime_parse (mime_str t) = Inr t"
proof -
  from assms obtain k s where str: "mime_str t = k @ CHR ''/'' # s" and ne: "k \<noteq> []" "s \<noteq> []"
    and tok: "list_all is_token_char k" "list_all is_token_char s"
    and low: "to_ascii_lowercase (mime_str t) = mime_str t"
    unfolding mime_wf_def by blast
  have trim: "trim (mime_str t) = mime_str t"
    using tok token_not_space by (intro trim_no_space) (auto simp: str list_all_iff)
  have nosemi: "CHR '';'' \<notin> set (mime_str t)"
    using tok semicolon_not_token by (auto simp: str list_all_iff)
  have slash: "CHR ''/'' \<notin> set k" "CHR ''/'' \<notin> set s"
    using tok slash_not_token by (auto simp: list_all_iff)
  have "split_once (CHR ''/'') (mime_str t) = Some (k, s)"
    using slash by (simp add: str split_once_append)
  moreover have "list_all (\<lambda>c. c = CHR ''/'' \<or> is_token_char c) (mime_str t)"
    using tok by (auto simp: str list_all_iff)
  ultimately show ?thesis using ne slash nosemi trim low
    by (cases t) (simp add: mime_parse_def Let_def)
qed

lemma parse_pattern_str:
  "parse_pattern raw = Inr p \<Longrightarrow> pattern_str p = to_ascii_lowercase (trim raw)"
  by (auto simp: parse_pattern_def mime_parse_def Let_def
      split: option.splits if_splits sum.splits)

lemma family_pattern_matches:
  assumes "mime_wf t"
  shows "mime_matches t (family_pattern t)"
proof -
  from assms obtain k s where str: "mime_str t = k @ CHR ''/'' # s"
    and tok: "list_all is_token_char k"
    and low: "to_ascii_lowercase (mime_str t) = mime_str t"
    unfolding mime_wf_def by blast
  have nk: "CHR ''/'' \<notin> set k" using tok slash_not_token by (auto simp: list_all_iff)
  then have kind: "mime_kind t = k" by (simp add: mime_kind_def str split_once_append)
  have trim: "trim (k @ ''/*'') = k @ ''/*''"
    using tok token_not_space
    by (intro trim_no_space) (auto simp: list_all_iff is_space_def)
  have lowk: "to_ascii_lowercase k = k"
    using low unfolding str to_ascii_lowercase_def by (auto simp: append_eq_append_conv)
  have star: "to_ascii_lowercase ''/*'' = ''/*''"
    by (simp add: to_ascii_lowercase_def lower_char_def Let_def)
  have "to_ascii_lowercase (trim (family_pattern t)) = k @ ''/*''"
    using trim lowk star by (simp add: family_pattern_def kind to_ascii_lowercase_def)
  then show ?thesis using nk split_once_append [of "CHR ''/''" k "''*''"]
    by (simp add: mime_matches_def matches_normalised_def kind)
qed

subsection \<open>Parts\<close>

datatype delivery = Native | DText | StandIn

definition delivery_from_arg :: "string \<Rightarrow> string + delivery" where
  "delivery_from_arg word =
     (if word = ''native'' then Inr Native
      else if word = ''text'' then Inr DText
      else if word = ''stand_in'' then Inr StandIn
      else Inl word)"

record blob_ref =
  sha256 :: string
  blob_mime :: mime_type
  blob_size :: nat
  blob_width :: "nat option"
  blob_height :: "nat option"
  duration_ms :: "nat option"
  blob_tokens :: nat
  blob_stand_in :: string

definition blob_dims :: "blob_ref \<Rightarrow> (nat \<times> nat) option" where
  "blob_dims b = (case blob_width b of None \<Rightarrow> None
     | Some w \<Rightarrow> (case blob_height b of None \<Rightarrow> None | Some h \<Rightarrow> Some (w, h)))"

definition short_sha :: "blob_ref \<Rightarrow> string" where
  "short_sha b = (case str_get (sha256 b) 0 12 of Some s \<Rightarrow> s | None \<Rightarrow> sha256 b)"

datatype part_body = Inline string | Stored blob_ref

record part =
  part_mime :: mime_type
  part_body :: part_body
  part_name :: "string option"
  part_deliver :: "delivery option"

definition part_inline :: "mime_type \<Rightarrow> string \<Rightarrow> part" where
  "part_inline m s = \<lparr>part_mime = m, part_body = Inline s, part_name = None,
     part_deliver = None\<rparr>"

definition part_text :: "string \<Rightarrow> part" where
  "part_text s = part_inline text_plain s"

definition part_stored :: "blob_ref \<Rightarrow> part" where
  "part_stored b = \<lparr>part_mime = blob_mime b, part_body = Stored b, part_name = None,
     part_deliver = None\<rparr>"

definition part_blob :: "part \<Rightarrow> blob_ref option" where
  "part_blob p = (case part_body p of Inline _ \<Rightarrow> None | Stored b \<Rightarrow> Some b)"

definition part_inline_text :: "part \<Rightarrow> string option" where
  "part_inline_text p = (case part_body p of Inline s \<Rightarrow> Some s | Stored _ \<Rightarrow> None)"

definition is_stored :: "part \<Rightarrow> bool" where
  "is_stored p = (case part_body p of Inline _ \<Rightarrow> False | Stored _ \<Rightarrow> True)"

definition stand_in :: "part \<Rightarrow> string" where
  "stand_in p = (case part_body p of Inline s \<Rightarrow> s | Stored b \<Rightarrow> blob_stand_in b)"

definition part_handle :: "part \<Rightarrow> string option" where
  "part_handle p = (case part_name p of Some n \<Rightarrow> Some n
     | None \<Rightarrow> map_option short_sha (part_blob p))"

text \<open>
  \<open>Path::file_name\<close> on a Unix path: the last component, when it is a name. Empty and
  \<open>.\<close> components vanish; \<open>..\<close> is not a name.
\<close>

fun split_on :: "char \<Rightarrow> string \<Rightarrow> string list" where
  "split_on c [] = [[]]"
| "split_on c (x # xs) =
     (if x = c then [] # split_on c xs
      else (case split_on c xs of [] \<Rightarrow> [[x]] | w # ws \<Rightarrow> (x # w) # ws))"

definition path_file_name :: "string \<Rightarrow> string option" where
  "path_file_name s =
     (case rev (filter (\<lambda>w. w \<noteq> [] \<and> w \<noteq> ''.'') (split_on (CHR ''/'') s)) of
        [] \<Rightarrow> None
      | w # _ \<Rightarrow> if w = ''..'' then None else Some w)"

definition is_named :: "part \<Rightarrow> string \<Rightarrow> bool" where
  "is_named p needle =
    (case part_blob p of None \<Rightarrow> False
     | Some b \<Rightarrow>
         if part_name p = Some needle then True
         else if (case path_file_name needle of None \<Rightarrow> False
                  | Some base \<Rightarrow> base \<noteq> needle \<and> part_name p = Some base) then True
         else let lower = to_ascii_lowercase needle in
           6 \<le> length lower \<and> prefix lower (sha256 b))"

subsection \<open>Entry contents\<close>

record entry_content =
  parts :: "part list"
  content_text :: string

text \<open>Inline text as it is, a stored part as its stand-in, one per line.\<close>

definition push_line :: "string \<Rightarrow> string \<Rightarrow> string" where
  "push_line out s =
     (if out \<noteq> [] \<and> last out \<noteq> CHR ''\<newline>'' \<and> s \<noteq> []
      then out @ [CHR ''\<newline>''] @ s else out @ s)"

definition render_parts :: "part list \<Rightarrow> string" where
  "render_parts ps = foldl (\<lambda>out p. push_line out (stand_in p)) [] ps"

definition from_parts :: "part list \<Rightarrow> entry_content" where
  "from_parts ps = \<lparr>parts = ps, content_text = render_parts ps\<rparr>"

definition text_content :: "string \<Rightarrow> entry_content" where
  "text_content s = from_parts [part_text s]"

definition with_parts :: "entry_content \<Rightarrow> part list \<Rightarrow> entry_content" where
  "with_parts c ps =
     (let all_parts = parts c @ ps in \<lparr>parts = all_parts, content_text = render_parts all_parts\<rparr>)"

definition is_text_only :: "entry_content \<Rightarrow> bool" where
  "is_text_only c = list_all (\<lambda>p. \<not> is_stored p) (parts c)"

definition stored_parts :: "entry_content \<Rightarrow> part list" where
  "stored_parts c = filter is_stored (parts c)"

definition content_stored_count :: "entry_content \<Rightarrow> nat" where
  "content_stored_count c = length (stored_parts c)"

definition inline_text :: "entry_content \<Rightarrow> string" where
  "inline_text c =
     foldl (\<lambda>out p. case part_body p of Inline s \<Rightarrow> push_line out s | Stored _ \<Rightarrow> out)
       [] (parts c)"

text \<open>
  \<open>tokens\<close> without a registry at hand; with one, the registry's own rule prices inline
  text (\<open>price\<close>), and a stored part still pays its stand-in.
\<close>

definition content_tokens :: "(mime_type \<Rightarrow> string \<Rightarrow> nat) option \<Rightarrow> entry_content \<Rightarrow> nat" where
  "content_tokens registry c =
     sum_list (map (\<lambda>p. case part_body p of
         Inline s \<Rightarrow> (case registry of None \<Rightarrow> estimate_tokens s
                      | Some price \<Rightarrow> price (part_mime p) s)
       | Stored b \<Rightarrow> estimate_tokens (blob_stand_in b)) (parts c))"

definition is_plain_string :: "entry_content \<Rightarrow> bool" where
  "is_plain_string c =
     (case parts c of
        [p] \<Rightarrow> part_name p = None \<and> part_deliver p = None \<and>
               mime_str (part_mime p) = ''text/plain'' \<and> \<not> is_stored p
      | _ \<Rightarrow> False)"

text \<open>The wire shape: a bare string for plain text, the list of parts otherwise.\<close>

datatype wire = WText string | WParts "part list"

definition serialize_content :: "entry_content \<Rightarrow> wire" where
  "serialize_content c = (if is_plain_string c then WText (content_text c) else WParts (parts c))"

definition deserialize_content :: "wire \<Rightarrow> entry_content" where
  "deserialize_content w = (case w of WText s \<Rightarrow> text_content s | WParts ps \<Rightarrow> from_parts ps)"

text \<open>Every constructor of the type renders the text from the parts.\<close>

definition content_ok :: "entry_content \<Rightarrow> bool" where
  "content_ok c = (content_text c = render_parts (parts c))"

lemma content_ok_intros [wf_intros]:
  "content_ok (from_parts ps)" "content_ok (text_content s)" "content_ok (with_parts c ps)"
  by (simp_all add: content_ok_def from_parts_def text_content_def with_parts_def Let_def)

lemma render_single [simp]: "render_parts [p] = stand_in p"
  by (simp add: render_parts_def push_line_def)

lemma text_content_text [simp]: "content_text (text_content s) = s"
  by (simp add: text_content_def from_parts_def part_text_def part_inline_def stand_in_def)

lemma wire_roundtrip:
  assumes "content_ok c"
  shows "deserialize_content (serialize_content c) = c"
proof (cases "is_plain_string c")
  case True
  then obtain p where p: "parts c = [p]" and plain: "part_name p = None" "part_deliver p = None"
    "mime_str (part_mime p) = ''text/plain''" "\<not> is_stored p"
    by (auto simp: is_plain_string_def split: list.splits)
  then obtain s where s: "part_body p = Inline s"
    by (cases "part_body p") (auto simp: is_stored_def)
  have "p = part_text s"
    using plain s by (cases p; cases "part_mime p")
      (simp add: part_text_def part_inline_def text_plain_def)
  moreover have "content_text c = s"
    using assms p s by (simp add: content_ok_def stand_in_def)
  ultimately show ?thesis using True p
    by (cases c) (simp add: serialize_content_def deserialize_content_def text_content_def
        from_parts_def stand_in_def part_text_def part_inline_def)
next
  case False
  with assms show ?thesis
    by (cases c) (simp add: serialize_content_def deserialize_content_def from_parts_def
        content_ok_def)
qed

end
