(* ===== verification/Region.thy ===== *)
theory Region
  imports Complex_Main Taint Mime
begin

text \<open>
  The data of a context region: \<open>crates/leviath-core/src/region/mod.rs\<close> (entry kinds,
  region kinds, regions, entries), \<open>region/policy.rs\<close>, \<open>cache.rs\<close> and \<open>error.rs\<close>.
  JSON metadata is the tree \<open>json\<close>; an object keeps its fields as a list of pairs.
  The low-water fraction, an \<open>f64\<close> in the code, is a rational.
\<close>

subsection \<open>JSON values\<close>

datatype json =
    JNull
  | JBool bool
  | JNum int
  | JStr string
  | JArr "json list"
  | JObj "(string \<times> json) list"

definition json_get :: "json \<Rightarrow> string \<Rightarrow> json option" where
  "json_get j k = (case j of JObj fs \<Rightarrow> map_of fs k | _ \<Rightarrow> None)"

definition as_u64 :: "json \<Rightarrow> nat option" where
  "as_u64 j = (case j of JNum n \<Rightarrow> if 0 \<le> n \<and> n < 2 ^ 64 then Some (nat n) else None
     | _ \<Rightarrow> None)"

definition as_bool :: "json \<Rightarrow> bool option" where
  "as_bool j = (case j of JBool b \<Rightarrow> Some b | _ \<Rightarrow> None)"

definition as_str :: "json \<Rightarrow> string option" where
  "as_str j = (case j of JStr s \<Rightarrow> Some s | _ \<Rightarrow> None)"

text \<open>\<open>Map::insert\<close> replaces the value of a key it has, and adds the key otherwise.\<close>

fun obj_insert :: "string \<Rightarrow> json \<Rightarrow> (string \<times> json) list \<Rightarrow> (string \<times> json) list" where
  "obj_insert k v [] = [(k, v)]"
| "obj_insert k v ((k', v') # fs) =
     (if k' = k then (k, v) # fs else (k', v') # obj_insert k v fs)"

lemma map_of_obj_insert [simp]: "map_of (obj_insert k v fs) = (map_of fs)(k \<mapsto> v)"
  by (induction k v fs rule: obj_insert.induct) auto

subsection \<open>Entries\<close>

record tool_call =
  call_id :: string
  call_name :: string
  call_arguments :: json
  thought_signature :: "string option"

datatype entry_kind =
    Text
  | UserMessage
  | AssistantTurn "tool_call list"
  | ToolResult string string bool

record region_entry =
  e_content :: entry_content
  e_tokens :: nat
  e_timestamp :: int
  e_metadata :: "json option"
  e_kind :: entry_kind
  e_key :: "string option"
  e_reasoning :: "string option"
  e_seq :: nat
  e_sticky :: bool

definition is_tool_result :: "region_entry \<Rightarrow> bool" where
  "is_tool_result e = (case e_kind e of ToolResult _ _ _ \<Rightarrow> True | _ \<Rightarrow> False)"

definition is_assistant_turn :: "region_entry \<Rightarrow> bool" where
  "is_assistant_turn e = (case e_kind e of AssistantTurn _ \<Rightarrow> True | _ \<Rightarrow> False)"

subsection \<open>Policies and kinds\<close>

datatype eviction_strategy = PerItem | Bulk nat | Compact nat

datatype admission = Evict | Reject

datatype volatility = Stable | Grows | Rewritten

datatype cache_hint = Always | UntilChanged | RecentlyChanged | SlidingPrefix | Never

datatype region_kind =
    Pinned
  | SlidingWindow nat eviction_strategy
  | Temporary
  | Compacting nat
  | Clearable
  | CompactHistory string
  | HashMap "nat option"
  | Checklist
  | Custom string bool

text \<open>\<open>impl PartialEq for RegionKind\<close>, arm by arm.\<close>

fun region_kind_eq :: "region_kind \<Rightarrow> region_kind \<Rightarrow> bool" where
  "region_kind_eq Pinned k = (case k of Pinned \<Rightarrow> True | _ \<Rightarrow> False)"
| "region_kind_eq Temporary k = (case k of Temporary \<Rightarrow> True | _ \<Rightarrow> False)"
| "region_kind_eq Clearable k = (case k of Clearable \<Rightarrow> True | _ \<Rightarrow> False)"
| "region_kind_eq (SlidingWindow a sa) k = (case k of SlidingWindow b sb \<Rightarrow> a = b \<and> sa = sb | _ \<Rightarrow> False)"
| "region_kind_eq (Compacting a) k = (case k of Compacting b \<Rightarrow> a = b | _ \<Rightarrow> False)"
| "region_kind_eq (CompactHistory a) k = (case k of CompactHistory b \<Rightarrow> a = b | _ \<Rightarrow> False)"
| "region_kind_eq (HashMap a) k = (case k of HashMap b \<Rightarrow> a = b | _ \<Rightarrow> False)"
| "region_kind_eq Checklist k = (case k of Checklist \<Rightarrow> True | _ \<Rightarrow> False)"
| "region_kind_eq (Custom a pa) k = (case k of Custom b pb \<Rightarrow> a = b \<and> pa = pb | _ \<Rightarrow> False)"

lemma region_kind_eq_iff: "region_kind_eq a b = (a = b)"
  by (cases a; cases b) auto

fun rolls_off_oldest :: "region_kind \<Rightarrow> bool" where
  "rolls_off_oldest Temporary = True"
| "rolls_off_oldest Clearable = True"
| "rolls_off_oldest (SlidingWindow _ _) = True"
| "rolls_off_oldest (Compacting _) = True"
| "rolls_off_oldest _ = False"

fun kind_word :: "region_kind \<Rightarrow> string" where
  "kind_word Pinned = ''pinned''"
| "kind_word Temporary = ''temporary''"
| "kind_word Clearable = ''clearable''"
| "kind_word (SlidingWindow _ _) = ''sliding_window''"
| "kind_word (Compacting _) = ''compacting''"
| "kind_word (CompactHistory _) = ''compact_history''"
| "kind_word (HashMap _) = ''keyed''"
| "kind_word Checklist = ''checklist''"
| "kind_word (Custom _ _) = ''custom''"

fun kind_cache_hint :: "region_kind \<Rightarrow> cache_hint" where
  "kind_cache_hint Pinned = Always"
| "kind_cache_hint (CompactHistory _) = Always"
| "kind_cache_hint (Compacting _) = UntilChanged"
| "kind_cache_hint (SlidingWindow _ _) = SlidingPrefix"
| "kind_cache_hint (HashMap _) = UntilChanged"
| "kind_cache_hint Checklist = UntilChanged"
| "kind_cache_hint Temporary = Never"
| "kind_cache_hint Clearable = Never"
| "kind_cache_hint (Custom _ pinned) = (if pinned then Always else UntilChanged)"

subsection \<open>Errors\<close>

datatype core_error =
    RegionNotFound string
  | ValidationFailed string
  | TokenBudgetExceeded nat nat
  | RegionFull string nat nat
  | RegionRefusedWrite string string
  | PinnedRegionsOverBudget nat nat
  | SerializationError string
  | OtherError string

subsection \<open>Regions\<close>

record region =
  r_name :: string
  r_kind :: region_kind
  r_content :: "region_entry list"
  r_max_tokens :: nat
  r_current_tokens :: nat
  r_taint :: "region_taint option"
  r_needs_message_compaction :: bool
  r_summarizable :: bool
  r_admission :: admission
  r_evict_to :: rat
  r_volatility :: volatility
  r_accepts :: "string list"
  r_description :: "string option"
  r_describe_in_prompt :: bool

definition default_evict_to :: rat where
  "default_evict_to = 3 / 4"

definition region_new :: "string \<Rightarrow> region_kind \<Rightarrow> nat \<Rightarrow> region" where
  "region_new name kind mx =
     \<lparr>r_name = name, r_kind = kind, r_content = [], r_max_tokens = mx,
      r_current_tokens = 0, r_taint = None, r_needs_message_compaction = False,
      r_summarizable = True, r_admission = Evict, r_evict_to = default_evict_to,
      r_volatility = Rewritten, r_accepts = [], r_description = None,
      r_describe_in_prompt = False\<rparr>"

text \<open>The first part of a write that is not plain text and not in the region's list.\<close>

definition accepts_content :: "region \<Rightarrow> entry_content \<Rightarrow> mime_type + unit" where
  "accepts_content r c =
     (if r_accepts r = [] then Inr ()
      else case find (\<lambda>p. \<not> mime_matches_any (part_mime p) (r_accepts r))
                  (filter (\<lambda>p. \<not> mime_matches (part_mime p) ''text/plain'') (parts c)) of
             Some p \<Rightarrow> Inl (part_mime p)
           | None \<Rightarrow> Inr ())"

definition refuse_unaccepted :: "region \<Rightarrow> entry_content \<Rightarrow> core_error + unit" where
  "refuse_unaccepted r c =
     (case accepts_content r c of Inr _ \<Rightarrow> Inr ()
      | Inl m \<Rightarrow> Inl (RegionRefusedWrite (r_name r)
          (''it takes '' @ join '', '' (r_accepts r) @ '' and this write carries '' @ mime_str m)))"

definition stored_count :: "region \<Rightarrow> nat" where
  "stored_count r = sum_list (map (\<lambda>e. content_stored_count (e_content e)) (r_content r))"

definition enable_taint_tracking :: "region \<Rightarrow> region" where
  "enable_taint_tracking r =
     (case r_taint r of None \<Rightarrow> r\<lparr>r_taint := Some taint_new\<rparr> | Some _ \<Rightarrow> r)"

definition region_taint_level :: "region \<Rightarrow> taint_level option" where
  "region_taint_level r = map_option current_level (r_taint r)"

definition entry_count :: "region \<Rightarrow> nat" where
  "entry_count r = length (r_content r)"

definition needs_compaction :: "region \<Rightarrow> bool" where
  "needs_compaction r =
     (case r_kind r of Compacting threshold \<Rightarrow> threshold < r_current_tokens r | _ \<Rightarrow> False)"

text \<open>A region keeps its count in step with its entries.\<close>

definition entry_tokens :: "region_entry list \<Rightarrow> nat" where
  "entry_tokens es = sum_list (map e_tokens es)"

definition counted :: "region \<Rightarrow> bool" where
  "counted r = (r_current_tokens r = entry_tokens (r_content r))"

definition within_budget :: "region \<Rightarrow> bool" where
  "within_budget r = (r_current_tokens r \<le> r_max_tokens r)"

text \<open>The taint record runs parallel to the entries.\<close>

definition taint_aligned :: "region \<Rightarrow> bool" where
  "taint_aligned r = (case r_taint r of None \<Rightarrow> True
     | Some t \<Rightarrow> length (entry_taints t) = length (r_content r) \<and> taint_ok t)"

text \<open>Each entry with the level recorded for it.\<close>

definition tagged :: "region \<Rightarrow> (region_entry \<times> taint_level) list" where
  "tagged r = (case r_taint r of None \<Rightarrow> []
     | Some t \<Rightarrow> zip (r_content r) (entry_taints t))"

lemma entry_tokens_simps [simp]:
  "entry_tokens [] = 0"
  "entry_tokens (e # es) = e_tokens e + entry_tokens es"
  "entry_tokens (es @ fs) = entry_tokens es + entry_tokens fs"
  by (simp_all add: entry_tokens_def)

lemma entry_tokens_drain:
  "entry_tokens (drain_rest i n es) + entry_tokens (drained i n es) = entry_tokens es"
  unfolding entry_tokens_def by (rule sum_list_drain_rest)

lemma entry_tokens_remove_nth:
  "i < length es \<Longrightarrow> entry_tokens (remove_nth i es) + e_tokens (es ! i) = entry_tokens es"
  unfolding entry_tokens_def by (rule sum_list_remove_nth_add)

lemma e_tokens_le: "i < length es \<Longrightarrow> e_tokens (es ! i) \<le> entry_tokens es"
  unfolding entry_tokens_def by (rule nth_le_sum_list)

lemma region_new_ok [wf_intros]:
  "counted (region_new n k m)" "within_budget (region_new n k m)"
  "taint_aligned (region_new n k m)"
  by (simp_all add: counted_def within_budget_def taint_aligned_def region_new_def)

lemma enable_taint_frame [simp]:
  "r_content (enable_taint_tracking r) = r_content r"
  "r_current_tokens (enable_taint_tracking r) = r_current_tokens r"
  "r_max_tokens (enable_taint_tracking r) = r_max_tokens r"
  by (simp_all add: enable_taint_tracking_def split: option.splits)

subsection \<open>Checklist items\<close>

record checklist_item =
  item_id :: nat
  item_text :: string
  item_done :: bool
  item_note :: "string option"

definition ITEM_ID :: string where "ITEM_ID = ''checklist_id''"
definition ITEM_DONE :: string where "ITEM_DONE = ''checklist_done''"
definition ITEM_NOTE :: string where "ITEM_NOTE = ''checklist_note''"

definition as_checklist_item :: "region_entry \<Rightarrow> checklist_item option" where
  "as_checklist_item e =
     (case e_metadata e of None \<Rightarrow> None
      | Some meta \<Rightarrow>
          (case Option.bind (json_get meta ITEM_ID) as_u64 of None \<Rightarrow> None
           | Some i \<Rightarrow> Some
               \<lparr>item_id = i,
                item_text = content_text (e_content e),
                item_done = (case Option.bind (json_get meta ITEM_DONE) as_bool of
                    Some b \<Rightarrow> b | None \<Rightarrow> False),
                item_note = Option.bind (json_get meta ITEM_NOTE) as_str\<rparr>))"

definition checklist_items :: "region \<Rightarrow> checklist_item list" where
  "checklist_items r = List.map_filter as_checklist_item (r_content r)"

definition open_checklist_items :: "region \<Rightarrow> checklist_item list" where
  "open_checklist_items r = filter (\<lambda>i. \<not> item_done i) (checklist_items r)"

end
