(* ===== verification/Region_Evict.thy ===== *)
theory Region_Evict
  imports Region "HOL-Library.Product_Lexorder"
begin

text \<open>
  What leaves a region when room is needed, \<open>crates/leviath-core/src/region/evict.rs\<close>:
  roll-off of whole turn groups, least-recently-written eviction, the wholesale wipe and
  the sliding-window cap. \<open>evicts\<close> is the contract every one of them meets, and the
  locale \<open>evictor\<close> carries it from one step to the loops.
\<close>

subsection \<open>Removing one entry\<close>

text \<open>
  The sequence every index-based removal repeats: take the entry out, give its tokens
  back, and drop its recorded taint.
\<close>

definition drop_entry :: "nat \<Rightarrow> region \<Rightarrow> region" where
  "drop_entry i r =
     r\<lparr>r_content := remove_nth i (r_content r),
       r_current_tokens := r_current_tokens r - e_tokens (r_content r ! i),
       r_taint := map_option (\<lambda>t. taint_remove_at t i) (r_taint r)\<rparr>"

subsection \<open>Turn groups\<close>

definition turn_group_size_at :: "region_entry list \<Rightarrow> nat \<Rightarrow> nat" where
  "turn_group_size_at es idx =
     (if length es \<le> idx then 0
      else if is_assistant_turn (es ! idx)
      then 1 + length (takeWhile is_tool_result (drop (Suc idx) es))
      else 1)"

lemma turn_group_size_bound: "idx + turn_group_size_at es idx \<le> max idx (length es)"
proof (cases "length es \<le> idx")
  case False
  have "length (takeWhile is_tool_result (drop (Suc idx) es)) \<le> length es - Suc idx"
    using length_takeWhile_le [of is_tool_result "drop (Suc idx) es"] by simp
  with False show ?thesis by (auto simp: turn_group_size_at_def)
qed (simp add: turn_group_size_at_def)

lemma turn_group_size_pos: "(0 < turn_group_size_at es idx) = (idx < length es)"
  by (auto simp: turn_group_size_at_def)

text \<open>
  The walk over groups that hold a sticky entry. It ends because a group is never empty.
\<close>

function skip_sticky_groups :: "region_entry list \<Rightarrow> nat \<Rightarrow> nat \<times> nat" where
  "skip_sticky_groups es start =
     (let g = turn_group_size_at es start in
      if 0 < g \<and> list_ex e_sticky (take g (drop start es))
      then skip_sticky_groups es (start + g) else (start, g))"
  by pat_completeness auto
termination
proof (relation "measure (\<lambda>(es, start). length es - start)")
  fix es start and g :: nat
  assume "g = turn_group_size_at es start"
    and "0 < g \<and> list_ex e_sticky (take g (drop start es))"
  moreover from this have "start < length es" using turn_group_size_pos by blast
  ultimately show "((es, start + g), es, start) \<in> measure (\<lambda>(es, start). length es - start)"
    by auto
qed simp

declare skip_sticky_groups.simps [simp del]

definition remove_oldest :: "region \<Rightarrow> (region_entry \<times> region) option" where
  "remove_oldest r =
     (let (start, g) = skip_sticky_groups (r_content r) 0
      in case drained start g (r_content r) of
           [] \<Rightarrow> None
         | first # rest \<Rightarrow>
             let first' = first\<lparr>e_tokens := e_tokens first + entry_tokens rest\<rparr>
             in Some (first',
                  r\<lparr>r_content := drain_rest start g (r_content r),
                    r_current_tokens := r_current_tokens r - e_tokens first',
                    r_taint := map_option ((\<lambda>t. taint_remove_at t start) ^^ g) (r_taint r)\<rparr>))"

definition drop_oldest :: "region \<Rightarrow> region option" where
  "drop_oldest r = map_option snd (remove_oldest r)"

subsection \<open>Room, caps and wipes\<close>

definition evictable :: "region \<Rightarrow> bool" where
  "evictable r = (r_admission r \<noteq> Reject \<and>
     (case r_kind r of Clearable \<Rightarrow> True | Temporary \<Rightarrow> True | Custom _ pinned \<Rightarrow> \<not> pinned
      | _ \<Rightarrow> False))"

definition sticky_tokens :: "region \<Rightarrow> nat" where
  "sticky_tokens r = entry_tokens (filter e_sticky (r_content r))"

definition low_water :: "region \<Rightarrow> nat" where
  "low_water r = nat (round (of_nat (r_max_tokens r) * max 0 (min 1 (r_evict_to r))))"

definition make_room :: "nat \<Rightarrow> region \<Rightarrow> nat \<times> region" where
  "make_room tokens r =
     (if r_max_tokens r < tokens + sticky_tokens r then (0, r)
      else let over = (\<lambda>s. low_water r < r_current_tokens s + tokens); n = length (r_content r)
           in (drain_count n over drop_oldest r, drain_while n over drop_oldest r))"

definition would_roll_off :: "region \<Rightarrow> bool" where
  "would_roll_off r =
     (case r_kind r of SlidingWindow max_items _ \<Rightarrow> max_items < length (r_content r) + 1
      | _ \<Rightarrow> False)"

fun release_times :: "nat \<Rightarrow> region \<Rightarrow> region" where
  "release_times 0 r = r"
| "release_times (Suc n) r =
     release_times n (case drop_oldest r of None \<Rightarrow> r | Some r' \<Rightarrow> r')"

definition release_oldest :: "nat \<Rightarrow> region \<Rightarrow> nat \<times> region" where
  "release_oldest n r =
     (let count = min n (length (r_content r)) in (count, release_times count r))"

definition lru_candidates :: "region \<Rightarrow> string option \<Rightarrow> nat list" where
  "lru_candidates r exc =
     filter (\<lambda>i. \<not> e_sticky (r_content r ! i) \<and>
                 (exc = None \<or> e_key (r_content r ! i) \<noteq> exc)) [0..<length (r_content r)]"

definition evict_lru_entry :: "string option \<Rightarrow> region \<Rightarrow> region option" where
  "evict_lru_entry exc r =
     (case min_by_key (\<lambda>i. (e_seq (r_content r ! i), e_timestamp (r_content r ! i)))
             (lru_candidates r exc) of
        None \<Rightarrow> None
      | Some index \<Rightarrow> Some (drop_entry index r))"

text \<open>
  The loop \<open>evict_all\<close> and \<open>remove_entries_by_prefix\<close> share: walk the entries by index,
  dropping those the test picks and stepping over the rest.
\<close>

function purge_from :: "(region_entry \<Rightarrow> bool) \<Rightarrow> nat \<Rightarrow> region \<Rightarrow> region" where
  "purge_from picks i r =
     (if i < length (r_content r) then
        (if picks (r_content r ! i) then purge_from picks i (drop_entry i r)
         else purge_from picks (Suc i) r)
      else r)"
  by pat_completeness auto
termination
  by (relation "measure (\<lambda>(picks, i, r). length (r_content r) - i)")
    (auto simp: drop_entry_def remove_nth_def)

declare purge_from.simps [simp del]

definition evict_all :: "region \<Rightarrow> nat \<times> region" where
  "evict_all r = (let r' = purge_from (\<lambda>e. \<not> e_sticky e) 0 r
     in (r_current_tokens r - r_current_tokens r', r'))"

definition remove_entries_by_prefix :: "string \<Rightarrow> region \<Rightarrow> region" where
  "remove_entries_by_prefix pre r =
     purge_from (\<lambda>e. prefix pre (content_text (e_content e))) 0 r"

definition evict_down_to :: "nat \<Rightarrow> region \<Rightarrow> region" where
  "evict_down_to mx r =
     drain_while (length (r_content r)) (\<lambda>s. mx < length (r_content s)) drop_oldest r"

definition enforce_sliding_window :: "region \<Rightarrow> region" where
  "enforce_sliding_window r =
     (case r_kind r of
        SlidingWindow mx strategy \<Rightarrow>
          (case strategy of
             PerItem \<Rightarrow> evict_down_to mx r
           | Bulk overflow \<Rightarrow>
               if saturating_add mx overflow < length (r_content r) then evict_down_to mx r
               else r
           | Compact compact_count \<Rightarrow>
               if saturating_add mx (saturating_mul compact_count 2) < length (r_content r)
               then (evict_down_to mx r)\<lparr>r_needs_message_compaction := False\<rparr>
               else if saturating_add mx compact_count < length (r_content r)
               then r\<lparr>r_needs_message_compaction := True\<rparr>
               else r)
      | _ \<Rightarrow> r)"

subsection \<open>The contract of an eviction\<close>

text \<open>Everything about a region but its entries, their count and the two derived fields.\<close>

definition region_config :: "region \<Rightarrow> region" where
  "region_config r = r\<lparr>r_content := [], r_current_tokens := 0, r_taint := None,
     r_needs_message_compaction := False\<rparr>"

definition evicts :: "region \<Rightarrow> region \<Rightarrow> bool" where
  "evicts r r' \<longleftrightarrow>
     region_config r' = region_config r \<and>
     subseq (r_content r') (r_content r) \<and>
     filter e_sticky (r_content r') = filter e_sticky (r_content r) \<and>
     (counted r \<longrightarrow> counted r' \<and> r_current_tokens r' \<le> r_current_tokens r) \<and>
     (taint_aligned r \<longrightarrow> taint_aligned r' \<and> subseq (tagged r') (tagged r)) \<and>
     ((r_taint r = None) = (r_taint r' = None))"

lemma region_config_same:
  assumes "region_config r' = region_config r"
  shows "r_name r' = r_name r" "r_kind r' = r_kind r" "r_max_tokens r' = r_max_tokens r"
    "r_summarizable r' = r_summarizable r" "r_admission r' = r_admission r"
    "r_evict_to r' = r_evict_to r" "r_accepts r' = r_accepts r"
    "r_volatility r' = r_volatility r"
  using assms by (cases r; cases r'; simp add: region_config_def)+

lemma evicts_refl [simp]: "evicts r r"
  by (simp add: evicts_def)

lemma evicts_trans: "evicts r s \<Longrightarrow> evicts s t \<Longrightarrow> evicts r t"
  unfolding evicts_def by (auto intro: subseq_order.trans)

lemma evicts_config: "evicts r r' \<Longrightarrow> region_config r' = region_config r"
  by (simp add: evicts_def)

lemma evicts_frame [frame_simps]:
  assumes "evicts r r'"
  shows "r_name r' = r_name r" "r_kind r' = r_kind r" "r_max_tokens r' = r_max_tokens r"
    "r_admission r' = r_admission r" "r_accepts r' = r_accepts r"
    "r_evict_to r' = r_evict_to r"
  using region_config_same [OF evicts_config [OF assms]] by simp_all

lemma evicts_counted: "evicts r r' \<Longrightarrow> counted r \<Longrightarrow> counted r'"
  by (simp add: evicts_def)

lemma evicts_current: "evicts r r' \<Longrightarrow> counted r \<Longrightarrow> r_current_tokens r' \<le> r_current_tokens r"
  by (simp add: evicts_def)

lemma evicts_aligned: "evicts r r' \<Longrightarrow> taint_aligned r \<Longrightarrow> taint_aligned r'"
  by (simp add: evicts_def)

lemma evicts_tagged: "evicts r r' \<Longrightarrow> taint_aligned r \<Longrightarrow> subseq (tagged r') (tagged r)"
  by (simp add: evicts_def)

lemma evicts_sticky:
  "evicts r r' \<Longrightarrow> filter e_sticky (r_content r') = filter e_sticky (r_content r)"
  by (simp add: evicts_def)

lemma evicts_sticky_tokens: "evicts r r' \<Longrightarrow> sticky_tokens r' = sticky_tokens r"
  by (simp add: evicts_sticky sticky_tokens_def)

lemma evicts_subset: "evicts r r' \<Longrightarrow> set (r_content r') \<subseteq> set (r_content r)"
  unfolding evicts_def by (blast dest: subseq_set)

lemma evicts_within: "evicts r r' \<Longrightarrow> counted r \<Longrightarrow> within_budget r \<Longrightarrow> within_budget r'"
  using evicts_current evicts_frame(3) by (fastforce simp: within_budget_def)

lemma compaction_flag_frame [simp]:
  "region_config (r\<lparr>r_needs_message_compaction := b\<rparr>) = region_config r"
  "counted (r\<lparr>r_needs_message_compaction := b\<rparr>) = counted r"
  "taint_aligned (r\<lparr>r_needs_message_compaction := b\<rparr>) = taint_aligned r"
  "tagged (r\<lparr>r_needs_message_compaction := b\<rparr>) = tagged r"
  by (simp_all add: region_config_def counted_def taint_aligned_def tagged_def
      split: option.splits)

lemma evicts_compaction_flag:
  "evicts r r' \<Longrightarrow> evicts r (r'\<lparr>r_needs_message_compaction := b\<rparr>)"
  by (simp add: evicts_def)

subsubsection \<open>One-entry removal meets it\<close>

lemma taint_remove_at_ok: "taint_ok t \<Longrightarrow> taint_ok (taint_remove_at t i)"
  by (rule taint_ok_remove_at)

lemma filter_remove_nth:
  assumes "i < length es" and "\<not> P (es ! i)"
  shows "filter P (remove_nth i es) = filter P es"
proof -
  have "filter P es = filter P (take i es @ es ! i # drop (Suc i) es)"
    using id_take_nth_drop [OF assms(1)] by simp
  with assms(2) show ?thesis by (simp add: remove_nth_def)
qed

lemmas sticky_remove_nth = filter_remove_nth [where P = e_sticky]

lemma drop_entry_frame [simp]:
  "r_content (drop_entry i r) = remove_nth i (r_content r)"
  "region_config (drop_entry i r) = region_config r"
  "r_max_tokens (drop_entry i r) = r_max_tokens r"
  "r_kind (drop_entry i r) = r_kind r"
  "r_needs_message_compaction (drop_entry i r) = r_needs_message_compaction r"
  by (simp_all add: drop_entry_def region_config_def)

lemma drop_entry_counted:
  assumes "counted r" and "i < length (r_content r)"
  shows "counted (drop_entry i r)"
    and "e_tokens (r_content r ! i) \<le> r_current_tokens r"
  using assms entry_tokens_remove_nth [OF assms(2)] e_tokens_le [OF assms(2)]
  by (simp_all add: counted_def drop_entry_def)

lemma drop_entry_aligned:
  assumes "taint_aligned r" and "i < length (r_content r)"
  shows "taint_aligned (drop_entry i r) \<and> tagged (drop_entry i r) = remove_nth i (tagged r)"
proof (cases "r_taint r")
  case None
  then show ?thesis by (simp add: taint_aligned_def drop_entry_def tagged_def)
next
  case (Some t)
  with assms have len: "length (entry_taints t) = length (r_content r)" and ok: "taint_ok t"
    by (simp_all add: taint_aligned_def)
  with Some assms(2) show ?thesis
    by (simp add: taint_aligned_def drop_entry_def tagged_def taint_ok_remove_at
        length_remove_nth zip_remove_nth)
qed

lemma drop_entry_evicts:
  assumes "i < length (r_content r)" and "\<not> e_sticky (r_content r ! i)"
  shows "evicts r (drop_entry i r)"
proof -
  have "counted r \<Longrightarrow> counted (drop_entry i r) \<and>
      r_current_tokens (drop_entry i r) \<le> r_current_tokens r"
    using drop_entry_counted(1) [OF _ assms(1)] by (simp add: drop_entry_def)
  moreover have "taint_aligned r \<Longrightarrow>
      taint_aligned (drop_entry i r) \<and> subseq (tagged (drop_entry i r)) (tagged r)"
    using drop_entry_aligned [OF _ assms(1)] by simp
  moreover have "(r_taint r = None) = (r_taint (drop_entry i r) = None)"
    by (simp add: drop_entry_def)
  ultimately show ?thesis
    using sticky_remove_nth [OF assms] by (simp add: evicts_def)
qed

subsubsection \<open>Removing the oldest group meets it\<close>

lemma skip_sticky_groups_spec:
  assumes "skip_sticky_groups es start = (s, g)"
  shows "g = turn_group_size_at es s \<and> start \<le> s \<and>
         (0 < g \<longrightarrow> s + g \<le> length es \<and> \<not> list_ex e_sticky (drained s g es))"
  using assms
proof (induction es start arbitrary: s g rule: skip_sticky_groups.induct)
  case (1 es start)
  let ?g = "turn_group_size_at es start"
  show ?case
  proof (cases "0 < ?g \<and> list_ex e_sticky (take ?g (drop start es))")
    case True
    with "1.prems" have "skip_sticky_groups es (start + ?g) = (s, g)"
      by (subst (asm) skip_sticky_groups.simps) (simp add: Let_def)
    from "1.IH" [OF refl True this] show ?thesis by auto
  next
    case False
    with "1.prems" have "s = start" "g = ?g"
      by (subst (asm) skip_sticky_groups.simps, simp add: Let_def split: if_splits)+
    with False turn_group_size_bound [of start es] turn_group_size_pos [of es start]
    show ?thesis by (auto simp: drained_def max_def)
  qed
qed

lemma sticky_drain_rest:
  assumes "\<not> list_ex e_sticky (drained i n es)"
  shows "filter e_sticky (drain_rest i n es) = filter e_sticky es"
proof -
  have "filter e_sticky (drained i n es) = []"
    using assms by (auto simp: filter_empty_conv list_ex_iff)
  moreover have "filter e_sticky es =
      filter e_sticky (take i es @ drained i n es @ drop (i + n) es)"
    by (simp only: drain_split)
  ultimately show ?thesis by (simp add: drain_rest_def)
qed

lemma taint_remove_pow:
  "entry_taints (((\<lambda>t. taint_remove_at t i) ^^ n) t) = drain_rest i n (entry_taints t)"
  "taint_ok t \<Longrightarrow> taint_ok (((\<lambda>t. taint_remove_at t i) ^^ n) t)"
  by (induction n) (simp_all add: remove_nth_drain_rest taint_ok_remove_at)

text \<open>What a successful \<open>remove_oldest\<close> did, in one statement.\<close>

lemma remove_oldest_cases:
  assumes "remove_oldest r = Some (e, r')"
  obtains s g where "0 < g" "s + g \<le> length (r_content r)"
    "g = turn_group_size_at (r_content r) s"
    "\<not> list_ex e_sticky (drained s g (r_content r))"
    "e_tokens e = entry_tokens (drained s g (r_content r))"
    "r' = r\<lparr>r_content := drain_rest s g (r_content r),
       r_current_tokens := r_current_tokens r - e_tokens e,
       r_taint := map_option ((\<lambda>t. taint_remove_at t s) ^^ g) (r_taint r)\<rparr>"
proof -
  obtain s g where sg: "skip_sticky_groups (r_content r) 0 = (s, g)" by fastforce
  from assms sg obtain first rest where d: "drained s g (r_content r) = first # rest"
    and e: "e = first\<lparr>e_tokens := e_tokens first + entry_tokens rest\<rparr>"
    and r': "r' = r\<lparr>r_content := drain_rest s g (r_content r),
       r_current_tokens := r_current_tokens r - e_tokens e,
       r_taint := map_option ((\<lambda>t. taint_remove_at t s) ^^ g) (r_taint r)\<rparr>"
    by (simp add: remove_oldest_def Let_def split: list.splits)
  from d have "0 < g" by (cases g) auto
  with skip_sticky_groups_spec [OF sg] d e r' show thesis by (intro that [of g s]) simp_all
qed

lemma remove_oldest_evicts:
  assumes "remove_oldest r = Some (e, r')"
  shows "evicts r r'"
    and "length (r_content r') < length (r_content r)"
    and "counted r \<Longrightarrow> r_current_tokens r' + e_tokens e = r_current_tokens r"
    and "\<not> e_sticky e"
proof -
  from remove_oldest_cases [OF assms] obtain s g where g: "0 < g"
    and bnd: "s + g \<le> length (r_content r)"
    and ns: "\<not> list_ex e_sticky (drained s g (r_content r))"
    and et: "e_tokens e = entry_tokens (drained s g (r_content r))"
    and r': "r' = r\<lparr>r_content := drain_rest s g (r_content r),
       r_current_tokens := r_current_tokens r - e_tokens e,
       r_taint := map_option ((\<lambda>t. taint_remove_at t s) ^^ g) (r_taint r)\<rparr>"
    by metis
  note tot = entry_tokens_drain [of s g "r_content r"]
  show acc: "r_current_tokens r' + e_tokens e = r_current_tokens r" if "counted r"
    using that tot by (simp add: counted_def r' et)
  show "length (r_content r') < length (r_content r)"
    using g bnd by (simp add: r' length_drain_rest)
  have al: "taint_aligned r' \<and> subseq (tagged r') (tagged r)" if "taint_aligned r"
  proof (cases "r_taint r")
    case None
    then show ?thesis by (simp add: r' taint_aligned_def tagged_def)
  next
    case (Some t)
    with that have "length (entry_taints t) = length (r_content r)" "taint_ok t"
      by (simp_all add: taint_aligned_def)
    with Some bnd show ?thesis
      by (simp add: r' taint_aligned_def tagged_def taint_remove_pow length_drain_rest
          drain_rest_zip)
  qed
  show "evicts r r'"
    using al acc tot sticky_drain_rest [OF ns]
    by (auto simp: evicts_def r' region_config_def counted_def et)
  show "\<not> e_sticky e"
    using assms ns g bnd
    by (auto simp: remove_oldest_def Let_def list_ex_iff split: list.splits prod.splits
        dest!: skip_sticky_groups_spec)
qed

lemma drop_oldest_evicts:
  assumes "drop_oldest r = Some r'"
  shows "evicts r r'" "length (r_content r') < length (r_content r)"
  using assms remove_oldest_evicts by (auto simp: drop_oldest_def)

text \<open>The least recently written candidate is one the caller may lose.\<close>

lemma evict_lru_cases:
  assumes "evict_lru_entry exc r = Some r'"
  obtains i where "i < length (r_content r)" "\<not> e_sticky (r_content r ! i)"
    "exc = None \<or> e_key (r_content r ! i) \<noteq> exc" "r' = drop_entry i r"
    "\<forall>j \<in> set (lru_candidates r exc).
       (e_seq (r_content r ! i), e_timestamp (r_content r ! i)) \<le>
       (e_seq (r_content r ! j), e_timestamp (r_content r ! j))"
proof -
  from assms obtain i where
    i: "min_by_key (\<lambda>i. (e_seq (r_content r ! i), e_timestamp (r_content r ! i)))
          (lru_candidates r exc) = Some i" and r': "r' = drop_entry i r"
    by (auto simp: evict_lru_entry_def split: option.splits)
  from min_by_key_Some [OF i] r' show thesis
    by (intro that [of i]) (auto simp: lru_candidates_def)
qed

lemma evict_lru_evicts:
  assumes "evict_lru_entry exc r = Some r'"
  shows "evicts r r'" "length (r_content r') < length (r_content r)"
proof -
  from evict_lru_cases [OF assms] obtain i where
    "i < length (r_content r)" "\<not> e_sticky (r_content r ! i)" "r' = drop_entry i r" by metis
  then show "evicts r r'" "length (r_content r') < length (r_content r)"
    using drop_entry_evicts by (simp_all add: length_remove_nth)
qed

lemma evict_lru_None:
  "evict_lru_entry exc r = None \<longleftrightarrow>
   (\<forall>e \<in> set (r_content r). e_sticky e \<or> (exc \<noteq> None \<and> e_key e = exc))"
proof -
  have "evict_lru_entry exc r = None \<longleftrightarrow> lru_candidates r exc = []"
    by (cases "lru_candidates r exc = []")
      (auto simp: evict_lru_entry_def split: option.splits)
  also have "\<dots> \<longleftrightarrow> (\<forall>i < length (r_content r).
      e_sticky (r_content r ! i) \<or> (exc \<noteq> None \<and> e_key (r_content r ! i) = exc))"
    by (auto simp: lru_candidates_def filter_empty_conv)
  finally show ?thesis by (simp only: all_set_conv_all_nth)
qed

subsection \<open>From one step to the loops\<close>

text \<open>
  What a loop over an eviction step may rely on: the step meets the contract and takes
  at least one entry. Every loop over such a step meets the contract too, and ends with
  its condition false or nothing left to take.
\<close>

locale evictor =
  fixes evict :: "region \<Rightarrow> region option"
  assumes evict_contract: "evict r = Some r' \<Longrightarrow> evicts r r'"
    and evict_shrinks: "evict r = Some r' \<Longrightarrow> length (r_content r') < length (r_content r)"
begin

sublocale drains: draining "\<lambda>r. length (r_content r)" evict
  by unfold_locales (rule evict_shrinks)

lemma loop_evicts: "evicts r (drain_while n cond evict r)"
proof (rule drain_while_invariant [where P = "evicts r"])
  show "evicts r s'" if "evicts r s" and "evict s = Some s'" for s s'
    using evicts_trans [OF that(1) evict_contract [OF that(2)]] .
qed simp

lemma loop_done:
  assumes "length (r_content r) \<le> n" and "s = drain_while n cond evict r"
  shows "\<not> cond s \<or> evict s = None"
  using drains.loop_exit [OF assms(1)] assms(2) by simp

end

interpretation oldest: evictor drop_oldest
  by unfold_locales (simp_all add: drop_oldest_evicts)

interpretation lru: evictor "evict_lru_entry exc" for exc
  by unfold_locales (simp_all add: evict_lru_evicts)

lemma drain_count_le: "drain_count n cond step s \<le> n"
  by (induction n arbitrary: s) (auto split: option.splits)

lemma low_water_le: "low_water r \<le> r_max_tokens r"
proof -
  let ?c = "max 0 (min 1 (r_evict_to r)) :: rat"
  have "?c \<le> 1" "0 \<le> ?c" by auto
  then have "of_nat (r_max_tokens r) * ?c \<le> (of_nat (r_max_tokens r) :: rat)"
    by (metis mult.right_neutral mult_left_mono of_nat_0_le_iff)
  then have "round (of_nat (r_max_tokens r) * ?c) \<le> round (of_nat (r_max_tokens r) :: rat)"
    by (rule round_mono)
  also have "\<dots> = int (r_max_tokens r)" by (metis of_int_of_nat_eq round_of_int)
  finally show ?thesis by (simp add: low_water_def nat_le_iff)
qed

lemma make_room_evicts: "evicts r (snd (make_room tokens r))"
  by (simp add: make_room_def Let_def oldest.loop_evicts)

lemma release_times_evicts: "evicts r (release_times n r)"
proof (induction n arbitrary: r)
  case (Suc n)
  show ?case
  proof (cases "drop_oldest r")
    case (Some r')
    with drop_oldest_evicts(1) [OF Some] Suc.IH [of r'] show ?thesis
      by (auto intro: evicts_trans)
  qed (use Suc.IH in simp)
qed simp

lemma evict_down_to_evicts: "evicts r (evict_down_to mx r)"
  by (simp add: evict_down_to_def oldest.loop_evicts)

lemma enforce_evicts: "evicts r (enforce_sliding_window r)"
  by (auto simp: enforce_sliding_window_def evict_down_to_evicts evicts_compaction_flag
      split: region_kind.splits eviction_strategy.splits)

subsection \<open>The purge loop\<close>

lemma purge_from_content:
  "i \<le> length (r_content r) \<Longrightarrow>
   r_content (purge_from picks i r) =
     take i (r_content r) @ filter (\<lambda>e. \<not> picks e) (drop i (r_content r))"
proof (induction picks i r rule: purge_from.induct)
  case (1 picks i r)
  show ?case
  proof (cases "i < length (r_content r)")
    case False
    with "1.prems" show ?thesis by (subst purge_from.simps) simp
  next
    case lt: True
    note split = Cons_nth_drop_Suc [OF lt, symmetric]
    show ?thesis
    proof (cases "picks (r_content r ! i)")
      case True
      have "i \<le> length (r_content (drop_entry i r))" using lt by (simp add: length_remove_nth)
      from "1.IH"(1) [OF lt True this] True lt show ?thesis
        by (subst purge_from.simps) (simp add: remove_nth_def split)
    next
      case False
      from "1.IH"(2) [OF lt False] False lt show ?thesis
        by (subst purge_from.simps) (simp add: split take_Suc_conv_app_nth)
    qed
  qed
qed

lemma purge_from_keeps:
  "counted r \<Longrightarrow> counted (purge_from picks i r)"
  "taint_aligned r \<Longrightarrow> taint_aligned (purge_from picks i r) \<and>
     subseq (tagged (purge_from picks i r)) (tagged r)"
  "region_config (purge_from picks i r) = region_config r"
  "(r_taint (purge_from picks i r) = None) = (r_taint r = None)"
proof (induction picks i r rule: purge_from.induct)
  case (1 picks i r)
  {
    case 1
    with "1.IH" drop_entry_counted(1) [of r i] show ?case
      by (subst purge_from.simps) auto
  next
    case 2
    with "1.IH"(2,6) drop_entry_aligned [of r i] show ?case
      by (subst (1 2) purge_from.simps)
        (auto intro: subseq_order.trans [OF _ subseq_remove_nth])
  next
    case 3
    with "1.IH"(3,7) show ?case by (subst purge_from.simps) auto
  next
    case 4
    with "1.IH"(4,8) show ?case
      by (subst purge_from.simps) (auto simp: drop_entry_def)
  }
qed

lemma evict_all_content: "r_content (snd (evict_all r)) = filter e_sticky (r_content r)"
  using purge_from_content [of 0 r "\<lambda>e. \<not> e_sticky e"] by (simp add: evict_all_def Let_def)

lemma entry_tokens_filter_le: "entry_tokens (filter P es) \<le> entry_tokens es"
  by (induction es) auto

lemma evict_all_evicts: "evicts r (snd (evict_all r))"
proof -
  let ?r' = "snd (evict_all r)"
  have "counted r \<Longrightarrow> counted ?r' \<and> r_current_tokens ?r' \<le> r_current_tokens r"
    using purge_from_keeps(1) [where r = r and picks = "\<lambda>e. \<not> e_sticky e" and i = 0] evict_all_content [of r]
      entry_tokens_filter_le [of e_sticky "r_content r"]
    by (simp add: evict_all_def Let_def counted_def)
  then show ?thesis
    using evict_all_content [of r] purge_from_keeps(2,3,4) [where r = r and picks = "\<lambda>e. \<not> e_sticky e" and i = 0]
    by (simp add: evicts_def evict_all_def Let_def)
qed

lemma evict_all_freed:
  assumes "counted r"
  shows "fst (evict_all r) + r_current_tokens (snd (evict_all r)) = r_current_tokens r"
    and "r_current_tokens (snd (evict_all r)) = sticky_tokens r"
proof -
  have "counted (snd (evict_all r))" "r_current_tokens (snd (evict_all r)) \<le> r_current_tokens r"
    using evict_all_evicts [of r] assms by (simp_all add: evicts_def)
  then show "fst (evict_all r) + r_current_tokens (snd (evict_all r)) = r_current_tokens r"
    and "r_current_tokens (snd (evict_all r)) = sticky_tokens r"
    using evict_all_content [of r] by (simp_all add: evict_all_def Let_def counted_def
        sticky_tokens_def)
qed

end
