(* ===== verification/Turn_Groups.thy ===== *)
theory Turn_Groups
  imports Region_Evict
begin

text \<open>
  What rolling off the oldest turn means, stated without indices: the entries of a region
  are a sequence of turn groups (an assistant turn with the tool results that follow it,
  or one other entry), and \<open>remove_oldest\<close> takes the first group that holds no sticky
  entry, whole. From it: no tool result is stranded, and when a region can be brought
  under its budget.
\<close>

subsection \<open>The groups of a sequence of entries\<close>

function turn_groups :: "region_entry list \<Rightarrow> region_entry list list" where
  "turn_groups [] = []"
| "turn_groups (e # es) =
     (if is_assistant_turn e
      then (e # takeWhile is_tool_result es) # turn_groups (dropWhile is_tool_result es)
      else [e] # turn_groups es)"
  by pat_completeness auto
termination
  by (relation "measure length") (auto simp: le_imp_less_Suc length_dropWhile_le)

definition has_sticky :: "region_entry list \<Rightarrow> bool" where
  "has_sticky g = list_ex e_sticky g"

fun group_ok :: "region_entry list \<Rightarrow> bool" where
  "group_ok [] = False"
| "group_ok (e # es) = (if is_assistant_turn e then list_all is_tool_result es else es = [])"

text \<open>No group starts with a tool result: every result follows the turn it answers.\<close>

definition paired :: "region_entry list \<Rightarrow> bool" where
  "paired es = list_all (\<lambda>g. \<not> is_tool_result (hd g)) (turn_groups es)"

lemma concat_turn_groups [simp]: "concat (turn_groups es) = es"
  by (induction es rule: turn_groups.induct) auto

lemma turn_groups_ok: "list_all group_ok (turn_groups es)"
  by (induction es rule: turn_groups.induct) (auto simp: list_all_iff dest: set_takeWhileD)

lemma turn_groups_Nil [simp]: "(turn_groups es = []) = (es = [])"
  by (cases es) auto

lemma turn_groups_nonempty: "g \<in> set (turn_groups es) \<Longrightarrow> g \<noteq> []"
  using turn_groups_ok [of es] by (auto simp: list_all_iff)

lemma group_head_kinds: "is_assistant_turn e \<Longrightarrow> \<not> is_tool_result e"
  by (auto simp: is_assistant_turn_def is_tool_result_def split: entry_kind.splits)

lemma hd_concat_groups:
  "list_all group_ok gs \<Longrightarrow> list_all (\<lambda>g. \<not> is_tool_result (hd g)) gs \<Longrightarrow>
   concat gs = [] \<or> \<not> is_tool_result (hd (concat gs))"
  by (cases gs; cases "hd gs") auto

lemma while_append:
  "list_all P es \<Longrightarrow> ys = [] \<or> \<not> P (hd ys) \<Longrightarrow>
   takeWhile P (es @ ys) = es \<and> dropWhile P (es @ ys) = ys"
  by (cases ys) (auto simp: takeWhile_append dropWhile_append list_all_iff)

lemma dropWhile_all: "(dropWhile P xs = []) = list_all P xs"
  by (simp add: list_all_iff)

lemma turn_groups_concat:
  assumes "list_all group_ok gs" and "list_all (\<lambda>g. \<not> is_tool_result (hd g)) gs"
  shows "turn_groups (concat gs) = gs"
  using assms
proof (induction gs)
  case (Cons g gs)
  then obtain e es where g: "g = e # es" by (cases g) auto
  have tl: "concat gs = [] \<or> \<not> is_tool_result (hd (concat gs))"
    using hd_concat_groups Cons.prems by simp
  have tw: "takeWhile is_tool_result (es @ concat gs) = es \<and>
      dropWhile is_tool_result (es @ concat gs) = concat gs" if "list_all is_tool_result es"
    using while_append [OF that tl] .
  from Cons g tw show ?case by (auto split: if_splits)
qed simp

lemma turn_group_size_hd:
  "turn_group_size_at (pre @ post) (length pre) =
     (case turn_groups post of [] \<Rightarrow> 0 | g # _ \<Rightarrow> length g)"
  by (cases post) (auto simp: turn_group_size_at_def nth_append)

lemma turn_groups_tl:
  "turn_groups post = g # gs \<Longrightarrow> \<exists>post'. post = g @ post' \<and> turn_groups post' = gs"
  by (cases post) (auto split: if_splits, metis takeWhile_dropWhile_id)

lemma set_turn_groups: "set es = (\<Union>g \<in> set (turn_groups es). set g)"
  by (metis concat_turn_groups set_concat)

subsection \<open>The walk, on groups\<close>

lemma skip_on_groups:
  "skip_sticky_groups (pre @ post) (length pre) =
     (length pre + length (concat (takeWhile has_sticky (turn_groups post))),
      case dropWhile has_sticky (turn_groups post) of [] \<Rightarrow> 0 | g # _ \<Rightarrow> length g)"
proof (induction "turn_groups post" arbitrary: pre post)
  case Nil
  then have "post = []" by (metis turn_groups_Nil)
  then show ?case
    by (subst skip_sticky_groups.simps) (simp add: turn_group_size_at_def)
next
  case (Cons g gs)
  from turn_groups_tl [OF Cons.hyps(2) [symmetric]] obtain post' where
    post: "post = g @ post'" and gs: "turn_groups post' = gs" by blast
  have size: "turn_group_size_at (pre @ post) (length pre) = length g"
    using turn_group_size_hd [of pre post] Cons.hyps(2) [symmetric] by simp
  have gne: "g \<noteq> []" using turn_groups_nonempty [of g post] Cons.hyps(2) [symmetric] by simp
  show ?case
  proof (cases "has_sticky g")
    case True
    have "skip_sticky_groups (pre @ post) (length pre) =
        skip_sticky_groups ((pre @ g) @ post') (length (pre @ g))"
      using True size gne
      by (subst skip_sticky_groups.simps) (simp add: Let_def post has_sticky_def)
    also have "\<dots> = (length (pre @ g) + length (concat (takeWhile has_sticky gs)),
        case dropWhile has_sticky gs of [] \<Rightarrow> 0 | g # _ \<Rightarrow> length g)"
      using Cons.hyps(1) [of post' "pre @ g"] gs by simp
    finally show ?thesis using True by (simp add: Cons.hyps(2) [symmetric])
  next
    case False
    then show ?thesis using size
      by (subst skip_sticky_groups.simps)
        (simp add: Let_def post has_sticky_def Cons.hyps(2) [symmetric, unfolded post])
  qed
qed

lemma concat_groups_split:
  assumes "turn_groups es = ks @ g # gs"
  shows "es = concat ks @ g @ concat gs"
  using concat_turn_groups [of es] assms by simp

text \<open>\<open>remove_oldest\<close>, refined: the groups before, the group taken, the groups after.\<close>

lemma remove_oldest_groups:
  "remove_oldest r =
     (case dropWhile has_sticky (turn_groups (r_content r)) of
        [] \<Rightarrow> None
      | g # gs \<Rightarrow>
          let ks = takeWhile has_sticky (turn_groups (r_content r));
              e = (hd g)\<lparr>e_tokens := entry_tokens g\<rparr>
          in Some (e, r\<lparr>r_content := concat (ks @ gs),
                r_current_tokens := r_current_tokens r - entry_tokens g,
                r_taint := map_option ((\<lambda>t. taint_remove_at t (length (concat ks))) ^^ length g)
                  (r_taint r)\<rparr>))"
proof -
  let ?gs = "turn_groups (r_content r)"
  define ks where "ks = takeWhile has_sticky ?gs"
  have skip: "skip_sticky_groups (r_content r) 0 =
      (length (concat ks), case dropWhile has_sticky ?gs of [] \<Rightarrow> 0 | g # _ \<Rightarrow> length g)"
    using skip_on_groups [of "[]" "r_content r"] by (simp add: ks_def)
  show ?thesis
  proof (cases "dropWhile has_sticky ?gs")
    case Nil
    then show ?thesis using skip
      by (simp add: remove_oldest_def del: dropWhile_eq_Nil_conv)
  next
    case (Cons g gs)
    have split: "?gs = ks @ g # gs"
      using takeWhile_dropWhile_id [of has_sticky ?gs] Cons by (simp add: ks_def)
    note es = concat_groups_split [OF split]
    have gne: "g \<noteq> []" using turn_groups_nonempty [of g "r_content r"] split by simp
    have d: "drained (length (concat ks)) (length g) (r_content r) = g"
      and rest: "drain_rest (length (concat ks)) (length g) (r_content r) = concat (ks @ gs)"
      using es by (simp_all add: drained_def drain_rest_def)
    show ?thesis
      using gne d rest skip Cons
      by (cases g) (simp_all add: remove_oldest_def Let_def ks_def [symmetric])
  qed
qed

lemma remove_oldest_None:
  "remove_oldest r = None \<longleftrightarrow> list_all has_sticky (turn_groups (r_content r))"
  unfolding dropWhile_all [symmetric] remove_oldest_groups Let_def
  by (simp split: list.split del: dropWhile_eq_Nil_conv)

lemma remove_oldest_turn_groups:
  assumes "remove_oldest r = Some (e, r')" and "paired (r_content r)"
  obtains ks g gs where "turn_groups (r_content r) = ks @ g # gs"
    "turn_groups (r_content r') = ks @ gs" "list_all has_sticky ks" "\<not> has_sticky g"
proof -
  let ?gs = "turn_groups (r_content r)"
  from assms(1) obtain g gs where d: "dropWhile has_sticky ?gs = g # gs"
    and c: "r_content r' = concat (takeWhile has_sticky ?gs @ gs)"
    by (auto simp: remove_oldest_groups Let_def split: list.splits)
  define ks where "ks = takeWhile has_sticky ?gs"
  have split: "?gs = ks @ g # gs"
    using takeWhile_dropWhile_id [of has_sticky ?gs] d by (simp add: ks_def)
  have "list_all group_ok (ks @ gs)" "list_all (\<lambda>g. \<not> is_tool_result (hd g)) (ks @ gs)"
    using turn_groups_ok [of "r_content r"] assms(2) unfolding paired_def split by simp_all
  then have "turn_groups (r_content r') = ks @ gs"
    unfolding c ks_def [symmetric] by (rule turn_groups_concat)
  moreover have "list_all has_sticky ks"
    unfolding ks_def list_all_iff by (auto dest: set_takeWhileD)
  moreover have "\<not> has_sticky g"
    using d by (metis dropWhile_eq_Cons_conv)
  ultimately show thesis using split that by blast
qed

lemma remove_oldest_paired:
  assumes "remove_oldest r = Some (e, r')" and "paired (r_content r)"
  shows "paired (r_content r')"
proof -
  from remove_oldest_turn_groups [OF assms] obtain ks g gs where
    "turn_groups (r_content r) = ks @ g # gs" "turn_groups (r_content r') = ks @ gs" by metis
  with assms(2) show ?thesis by (simp add: paired_def)
qed

lemma drop_oldest_paired:
  "drop_oldest r = Some r' \<Longrightarrow> paired (r_content r) \<Longrightarrow> paired (r_content r')"
  by (auto simp: drop_oldest_def intro: remove_oldest_paired)

lemma drain_oldest_paired:
  "paired (r_content r) \<Longrightarrow> paired (r_content (drain_while n cond drop_oldest r))"
  by (rule drain_while_invariant [where P = "\<lambda>s. paired (r_content s)"])
    (auto intro: drop_oldest_paired)

lemma enforce_paired:
  "paired (r_content r) \<Longrightarrow> paired (r_content (enforce_sliding_window r))"
  by (auto simp: enforce_sliding_window_def evict_down_to_def drain_oldest_paired
      split: region_kind.splits eviction_strategy.splits)

lemma make_room_paired:
  "paired (r_content r) \<Longrightarrow> paired (r_content (snd (make_room t r)))"
  by (simp add: make_room_def Let_def drain_oldest_paired)

subsection \<open>When there is room in the end\<close>

text \<open>Every group that holds a sticky entry is sticky throughout.\<close>

definition sticky_whole :: "region_entry list \<Rightarrow> bool" where
  "sticky_whole es = list_all (\<lambda>g. has_sticky g \<longrightarrow> list_all e_sticky g) (turn_groups es)"

definition sticky_inv :: "region \<Rightarrow> bool" where
  "sticky_inv r = (paired (r_content r) \<and> sticky_whole (r_content r))"

lemma no_sticky_whole: "\<not> list_ex e_sticky es \<Longrightarrow> sticky_whole es"
proof -
  assume ns: "\<not> list_ex e_sticky es"
  have "\<not> has_sticky g" if "g \<in> set (turn_groups es)" for g
    using that ns concat_turn_groups [of es]
    by (metis (no_types, lifting) UN_iff has_sticky_def list_ex_iff set_concat)
  then show ?thesis by (simp add: sticky_whole_def list_all_iff)
qed

lemma drop_oldest_sticky_inv:
  assumes "drop_oldest r = Some r'" and "sticky_inv r"
  shows "sticky_inv r'"
proof -
  from assms(1) obtain e where r: "remove_oldest r = Some (e, r')"
    by (auto simp: drop_oldest_def)
  from assms(2) have p: "paired (r_content r)" and w: "sticky_whole (r_content r)"
    by (simp_all add: sticky_inv_def)
  from remove_oldest_turn_groups [OF r p] obtain ks g gs where
    "turn_groups (r_content r) = ks @ g # gs" "turn_groups (r_content r') = ks @ gs" by metis
  with w remove_oldest_paired [OF r p] show ?thesis
    by (simp add: sticky_inv_def sticky_whole_def)
qed

lemma stuck_all_sticky:
  assumes "drop_oldest r = None" and "sticky_whole (r_content r)"
  shows "filter e_sticky (r_content r) = r_content r"
proof -
  have "list_all has_sticky (turn_groups (r_content r))"
    using assms(1) remove_oldest_None [of r] by (auto simp: drop_oldest_def)
  with assms(2) have "\<forall>g \<in> set (turn_groups (r_content r)). \<forall>e \<in> set g. e_sticky e"
    by (simp add: sticky_whole_def list_all_iff)
  then have "\<forall>e \<in> set (r_content r). e_sticky e"
    by (subst set_turn_groups) auto
  then show ?thesis by (simp add: filter_id_conv)
qed

lemma make_room_fits:
  assumes "counted r" and "sticky_inv r" and "tokens + sticky_tokens r \<le> r_max_tokens r"
  shows "r_current_tokens (snd (make_room tokens r)) + tokens \<le> r_max_tokens r"
proof -
  let ?over = "\<lambda>s. low_water r < r_current_tokens s + tokens"
  let ?s = "drain_while (length (r_content r)) ?over drop_oldest r"
  have s: "snd (make_room tokens r) = ?s"
    using assms(3) by (simp add: make_room_def Let_def)
  have ev: "evicts r ?s" by (rule oldest.loop_evicts)
  have inv: "sticky_inv ?s"
    by (rule drain_while_invariant [where P = sticky_inv])
      (use assms(2) drop_oldest_sticky_inv in auto)
  from oldest.loop_done [OF order.refl refl, of ?over r]
  show ?thesis
  proof
    assume "\<not> ?over ?s"
    then show ?thesis using low_water_le [of r] s by simp
  next
    assume stuck: "drop_oldest ?s = None"
    have "r_current_tokens ?s = entry_tokens (r_content ?s)"
      using evicts_counted [OF ev assms(1)] by (simp add: counted_def)
    also have "\<dots> = sticky_tokens ?s"
      using stuck_all_sticky [OF stuck] inv by (simp add: sticky_tokens_def sticky_inv_def)
    also have "\<dots> = sticky_tokens r" by (rule evicts_sticky_tokens [OF ev])
    finally show ?thesis using assms(3) s by simp
  qed
qed

lemma make_room_untouched:
  "r_max_tokens r < tokens + sticky_tokens r \<Longrightarrow> make_room tokens r = (0, r)"
  by (simp add: make_room_def)

end
