(* ===== verification/Region_Write.thy ===== *)
theory Region_Write
  imports Turn_Groups
begin

text \<open>
  Putting entries into a region and taking named ones out: the write path of
  \<open>crates/leviath-core/src/region/mod.rs\<close> (\<open>push_entry\<close> and the methods over it), the
  keyed writes of \<open>region/keyed.rs\<close>, and the checklist operations. An operation that can
  fail returns the region beside its result, because some failures leave it changed.
  The clock is a parameter (\<open>now\<close>).
\<close>

type_synonym 'e outcome = "region \<times> ('e + unit)"

subsection \<open>The single write path\<close>

definition next_seq :: "region \<Rightarrow> nat" where
  "next_seq r = foldr max (map e_seq (r_content r)) 0 + 1"

definition max_entries :: "region \<Rightarrow> nat option" where
  "max_entries r = (case r_kind r of HashMap m \<Rightarrow> m | _ \<Rightarrow> None)"

fun evict_lru_times :: "nat \<Rightarrow> string option \<Rightarrow> region \<Rightarrow> region" where
  "evict_lru_times 0 exc r = r"
| "evict_lru_times (Suc n) exc r =
     evict_lru_times n exc (case evict_lru_entry exc r of None \<Rightarrow> r | Some r' \<Rightarrow> r')"

definition region_full :: "region \<Rightarrow> core_error" where
  "region_full r = RegionFull (r_name r) (r_current_tokens r) (r_max_tokens r)"

definition make_entry_room :: "region \<Rightarrow> core_error outcome" where
  "make_entry_room r =
     (case max_entries r of
        None \<Rightarrow> (r, Inr ())
      | Some mx \<Rightarrow>
          let excess = saturating_sub (length (r_content r) + 1) mx in
          if excess = 0 then (r, Inr ())
          else if r_admission r = Reject then (r, Inl (region_full r))
          else if length (filter (\<lambda>e. \<not> e_sticky e) (r_content r)) < excess
          then (r, Inl (RegionRefusedWrite (r_name r)
                 (''it holds '' @ show_nat mx @
                  '' entries at most and the ones it has are sticky'')))
          else (evict_lru_times excess None r, Inr ()))"

definition new_entry :: "int \<Rightarrow> entry_content \<Rightarrow> nat \<Rightarrow> json option \<Rightarrow> entry_kind \<Rightarrow>
    string option \<Rightarrow> region \<Rightarrow> region_entry" where
  "new_entry now content tokens metadata kind key r =
     \<lparr>e_content = content, e_tokens = tokens, e_timestamp = now, e_metadata = metadata,
      e_kind = kind, e_key = key, e_reasoning = None, e_seq = next_seq r, e_sticky = False\<rparr>"

definition append_entry :: "region_entry \<Rightarrow> taint_level \<Rightarrow> region \<Rightarrow> region" where
  "append_entry e lvl r =
     r\<lparr>r_content := r_content r @ [e],
       r_current_tokens := r_current_tokens r + e_tokens e,
       r_taint := map_option (\<lambda>t. taint_add_entry t lvl) (r_taint r)\<rparr>"

definition push_entry :: "int \<Rightarrow> entry_content \<Rightarrow> nat \<Rightarrow> json option \<Rightarrow> entry_kind \<Rightarrow>
    taint_level \<Rightarrow> string option \<Rightarrow> region \<Rightarrow> core_error outcome" where
  "push_entry now content tokens metadata kind lvl key r =
     (case refuse_unaccepted r content of
        Inl e \<Rightarrow> (r, Inl e)
      | Inr _ \<Rightarrow>
          let over = r_max_tokens r < r_current_tokens r + tokens in
          if over \<and> r_admission r = Reject \<and> r_content r \<noteq> [] then (r, Inl (region_full r))
          else
            let r1 = (if over \<and> r_admission r = Evict \<and> rolls_off_oldest (r_kind r)
                      then snd (make_room tokens r) else r) in
            if r_max_tokens r1 < r_current_tokens r1 + tokens then
              (r1, Inl (TokenBudgetExceeded (r_current_tokens r1 + tokens) (r_max_tokens r1)))
            else if r_admission r1 = Reject \<and> would_roll_off r1 then
              (r1, Inl (region_full r1))
            else
              (case make_entry_room r1 of
                 (r2, Inl e) \<Rightarrow> (r2, Inl e)
               | (r2, Inr _) \<Rightarrow>
                   (enforce_sliding_window
                      (append_entry (new_entry now content tokens metadata kind key r2) lvl r2),
                    Inr ())))"

definition add_typed_tainted_entry :: "int \<Rightarrow> entry_content \<Rightarrow> nat \<Rightarrow> entry_kind \<Rightarrow>
    taint_level \<Rightarrow> region \<Rightarrow> core_error outcome" where
  "add_typed_tainted_entry now content tokens kind lvl r =
     push_entry now content tokens None kind lvl None r"

definition add_entry :: "int \<Rightarrow> entry_content \<Rightarrow> nat \<Rightarrow> region \<Rightarrow> core_error outcome" where
  "add_entry now content tokens r = push_entry now content tokens None Text Public None r"

definition add_entry_with_metadata ::
  "int \<Rightarrow> entry_content \<Rightarrow> nat \<Rightarrow> json \<Rightarrow> region \<Rightarrow> core_error outcome" where
  "add_entry_with_metadata now content tokens meta r =
     push_entry now content tokens (Some meta) Text Public None r"

text \<open>The reasoning token is written on the last entry, after the push.\<close>

definition set_last_reasoning :: "string option \<Rightarrow> region \<Rightarrow> region" where
  "set_last_reasoning reasoning r =
     (if reasoning \<noteq> None \<and> r_content r \<noteq> []
      then r\<lparr>r_content := butlast (r_content r) @
               [(last (r_content r))\<lparr>e_reasoning := reasoning\<rparr>]\<rparr>
      else r)"

definition add_typed_entry_with_reasoning :: "int \<Rightarrow> entry_content \<Rightarrow> nat \<Rightarrow> entry_kind \<Rightarrow>
    string option \<Rightarrow> region \<Rightarrow> core_error outcome" where
  "add_typed_entry_with_reasoning now content tokens kind reasoning r =
     (case push_entry now content tokens None kind Public None r of
        (r', Inl e) \<Rightarrow> (r', Inl e)
      | (r', Inr _) \<Rightarrow> (set_last_reasoning reasoning r', Inr ()))"

definition add_typed_entry ::
  "int \<Rightarrow> entry_content \<Rightarrow> nat \<Rightarrow> entry_kind \<Rightarrow> region \<Rightarrow> core_error outcome" where
  "add_typed_entry now content tokens kind r =
     add_typed_entry_with_reasoning now content tokens kind None r"

definition add_keyed_entry ::
  "int \<Rightarrow> string \<Rightarrow> entry_content \<Rightarrow> nat \<Rightarrow> region \<Rightarrow> core_error outcome" where
  "add_keyed_entry now key content tokens r =
     push_entry now content tokens None Text Public (Some key) r"

definition carry_entry :: "region_entry \<Rightarrow> region \<Rightarrow> core_error outcome" where
  "carry_entry e r =
     (if r_max_tokens r < r_current_tokens r + e_tokens e
      then (r, Inl (TokenBudgetExceeded (r_current_tokens r + e_tokens e) (r_max_tokens r)))
      else (enforce_sliding_window
              (r\<lparr>r_current_tokens := r_current_tokens r + e_tokens e,
                 r_content := r_content r @ [e]\<rparr>), Inr ()))"

definition region_clear :: "region \<Rightarrow> region" where
  "region_clear r = r\<lparr>r_content := [], r_current_tokens := 0,
     r_taint := map_option taint_clear (r_taint r)\<rparr>"

text \<open>\<open>Region::remove_at\<close>: the entry and its tokens go, the taint record stays.\<close>

definition remove_at :: "nat \<Rightarrow> region \<Rightarrow> bool \<times> region" where
  "remove_at index r =
     (if length (r_content r) \<le> index then (False, r)
      else (True, r\<lparr>r_content := remove_nth index (r_content r),
                    r_current_tokens := saturating_sub (r_current_tokens r)
                      (e_tokens (r_content r ! index))\<rparr>))"

subsection \<open>Keyed writes\<close>

datatype keyed_write = Added | Replaced | Unchanged

definition position_of :: "region \<Rightarrow> string \<Rightarrow> nat option" where
  "position_of r key = position (\<lambda>e. e_key e = Some key) (r_content r)"

definition get_by_key :: "region \<Rightarrow> string \<Rightarrow> region_entry option" where
  "get_by_key r key = find (\<lambda>e. e_key e = Some key) (r_content r)"

definition keys :: "region \<Rightarrow> string list" where
  "keys r = List.map_filter e_key (r_content r)"

definition remove_by_key :: "string \<Rightarrow> region \<Rightarrow> bool \<times> region" where
  "remove_by_key key r =
     (case position_of r key of None \<Rightarrow> (False, r) | Some pos \<Rightarrow> (True, drop_entry pos r))"

definition set_sticky :: "string \<Rightarrow> bool \<Rightarrow> region \<Rightarrow> bool \<times> region" where
  "set_sticky key sticky r =
     (case position_of r key of
        None \<Rightarrow> (False, r)
      | Some pos \<Rightarrow>
          (True, r\<lparr>r_content := (r_content r)[pos := (r_content r ! pos)\<lparr>e_sticky := sticky\<rparr>]\<rparr>))"

definition replace_keyed_entry :: "int \<Rightarrow> string \<Rightarrow> entry_content \<Rightarrow> nat \<Rightarrow> entry_kind \<Rightarrow>
    taint_level \<Rightarrow> region \<Rightarrow> region \<times> (core_error + keyed_write)" where
  "replace_keyed_entry now key content tokens kind lvl r =
     (case refuse_unaccepted r content of
        Inl e \<Rightarrow> (r, Inl e)
      | Inr _ \<Rightarrow>
          (case position_of r key of
             Some pos \<Rightarrow>
               if e_content (r_content r ! pos) = content \<and> e_kind (r_content r ! pos) = kind
               then (r\<lparr>r_content := (r_content r)[pos :=
                       (r_content r ! pos)\<lparr>e_seq := next_seq r, e_timestamp := now\<rparr>]\<rparr>,
                     Inr Unchanged)
               else (case push_entry now content tokens None kind lvl (Some key)
                            (snd (remove_by_key key r)) of
                       (r', Inl e) \<Rightarrow> (r', Inl e)
                     | (r', Inr _) \<Rightarrow> (r', Inr Replaced))
           | None \<Rightarrow>
               (case push_entry now content tokens None kind lvl (Some key) r of
                  (r', Inl e) \<Rightarrow> (r', Inl e)
                | (r', Inr _) \<Rightarrow> (r', Inr Added))))"

text \<open>The entries other than the one an upsert would replace.\<close>

definition others :: "nat option \<Rightarrow> region \<Rightarrow> region_entry list" where
  "others existing r =
     map (\<lambda>i. r_content r ! i) (filter (\<lambda>i. Some i \<noteq> existing) [0..<length (r_content r)])"

definition check_upsert_fits :: "nat option \<Rightarrow> nat \<Rightarrow> region \<Rightarrow> string + unit" where
  "check_upsert_fits existing tokens r =
     (if r_max_tokens r < tokens then
        Inl (''Entry ('' @ show_nat tokens @ '' tokens) exceeds region budget ('' @
             show_nat (r_max_tokens r) @ '' max)'')
      else
        let held = entry_tokens (filter e_sticky (others existing r)) in
        if r_max_tokens r < held + tokens then
          Inl (''Entry ('' @ show_nat tokens @ '' tokens) does not fit region '' @ quoted (r_name r) @
               '' ('' @ show_nat (r_max_tokens r) @ '' max): sticky entries hold '' @
               show_nat held @ '' tokens and are never evicted'')
        else
          (case (existing, max_entries r) of
             (None, Some mx) \<Rightarrow>
               if length (filter (\<lambda>e. \<not> e_sticky e) (others existing r))
                    < saturating_sub (length (r_content r) + 1) mx
               then Inl (''Region '' @ quoted (r_name r) @ '' is at its '' @ show_nat mx @
                    ''-entry limit and its entries are sticky, which are never evicted'')
               else Inr ()
           | _ \<Rightarrow> Inr ()))"

text \<open>A new key in a region at its entry cap needs that many others gone.\<close>

definition upsert_cap_room :: "string \<Rightarrow> nat option \<Rightarrow> region \<Rightarrow> region" where
  "upsert_cap_room key existing r =
     (case (existing, max_entries r) of
        (None, Some mx) \<Rightarrow>
          evict_lru_times (saturating_sub (length (r_content r) + 1) mx) (Some key) r
      | _ \<Rightarrow> r)"

definition upsert_old_tokens :: "nat option \<Rightarrow> region \<Rightarrow> nat" where
  "upsert_old_tokens existing r =
     (case existing of None \<Rightarrow> 0 | Some pos \<Rightarrow> e_tokens (r_content r ! pos))"

definition upsert_make_room :: "string \<Rightarrow> nat option \<Rightarrow> nat \<Rightarrow> region \<Rightarrow> region" where
  "upsert_make_room key existing tokens r =
     (let r1 = upsert_cap_room key existing r; old_tokens = upsert_old_tokens existing r1
      in drain_while (length (r_content r1))
           (\<lambda>s. r_max_tokens s < r_current_tokens s - old_tokens + tokens)
           (evict_lru_entry (Some key)) r1)"

definition upsert_store :: "int \<Rightarrow> string \<Rightarrow> entry_content \<Rightarrow> nat \<Rightarrow> bool option \<Rightarrow> region \<Rightarrow>
    region" where
  "upsert_store now key content tokens sticky r =
     (case position_of r key of
        Some pos \<Rightarrow>
          let e = r_content r ! pos in
          r\<lparr>r_current_tokens := r_current_tokens r - e_tokens e + tokens,
            r_content := (r_content r)[pos := e\<lparr>e_content := content, e_tokens := tokens,
               e_timestamp := now, e_seq := next_seq r,
               e_sticky := (case sticky of None \<Rightarrow> e_sticky e | Some b \<Rightarrow> b)\<rparr>]\<rparr>
      | None \<Rightarrow>
          r\<lparr>r_content := r_content r @
              [\<lparr>e_content = content, e_tokens = tokens, e_timestamp = now, e_metadata = None,
                e_kind = Text, e_key = Some key, e_reasoning = None, e_seq = next_seq r,
                e_sticky = (case sticky of None \<Rightarrow> False | Some b \<Rightarrow> b)\<rparr>],
            r_current_tokens := r_current_tokens r + tokens\<rparr>)"

definition upsert_by_key_content :: "int \<Rightarrow> string \<Rightarrow> entry_content \<Rightarrow> nat \<Rightarrow> bool option \<Rightarrow>
    region \<Rightarrow> string outcome" where
  "upsert_by_key_content now key content tokens sticky r =
     (let existing = position_of r key in
      case check_upsert_fits existing tokens r of
        Inl e \<Rightarrow> (r, Inl e)
      | Inr _ \<Rightarrow>
          (upsert_store now key content tokens sticky
             (upsert_make_room key existing tokens r), Inr ()))"

definition upsert_by_key ::
  "int \<Rightarrow> string \<Rightarrow> entry_content \<Rightarrow> nat \<Rightarrow> region \<Rightarrow> string outcome" where
  "upsert_by_key now key content tokens r =
     upsert_by_key_content now key content tokens None r"

definition upsert_by_key_sticky ::
  "int \<Rightarrow> string \<Rightarrow> entry_content \<Rightarrow> nat \<Rightarrow> bool \<Rightarrow> region \<Rightarrow> string outcome" where
  "upsert_by_key_sticky now key content tokens sticky r =
     upsert_by_key_content now key content tokens (Some sticky) r"

text \<open>
  \<open>restamp_recency\<close>: number the entries from 1 in order of timestamp, ties by position
  (the sort is stable).
\<close>

definition restamp_order :: "region \<Rightarrow> nat list" where
  "restamp_order r = sort_key (\<lambda>i. e_timestamp (r_content r ! i)) [0..<length (r_content r)]"

fun restamp_loop :: "nat \<Rightarrow> nat list \<Rightarrow> region_entry list \<Rightarrow> region_entry list" where
  "restamp_loop sq [] es = es"
| "restamp_loop sq (i # order) es =
     restamp_loop (Suc sq) order (es[i := (es ! i)\<lparr>e_seq := sq\<rparr>])"

definition restamp_recency :: "region \<Rightarrow> region" where
  "restamp_recency r = r\<lparr>r_content := restamp_loop 1 (restamp_order r) (r_content r)\<rparr>"

subsection \<open>Checklist operations\<close>

definition add_checklist_item :: "int \<Rightarrow> string \<Rightarrow> nat \<Rightarrow> region \<Rightarrow> region \<times> (core_error + nat)"
  where
  "add_checklist_item now text tokens r =
     (let i = foldr max (map item_id (checklist_items r)) 0 + 1 in
      case add_entry_with_metadata now (text_content text) tokens
             (JObj [(ITEM_ID, JNum (int i)), (ITEM_DONE, JBool False)]) r of
        (r', Inl e) \<Rightarrow> (r', Inl e)
      | (r', Inr _) \<Rightarrow> (r', Inr i))"

definition entry_has_id :: "nat \<Rightarrow> region_entry \<Rightarrow> bool" where
  "entry_has_id i e =
     (case e_metadata e of None \<Rightarrow> False
      | Some m \<Rightarrow> Option.bind (json_get m ITEM_ID) as_u64 = Some i)"

fun set_item_field_in :: "nat \<Rightarrow> string \<Rightarrow> json \<Rightarrow> region_entry list \<Rightarrow>
    (region_entry list) option" where
  "set_item_field_in i key v [] = None"
| "set_item_field_in i key v (e # es) =
     (case e_metadata e of
        Some (JObj fs) \<Rightarrow>
          if entry_has_id i e then Some (e\<lparr>e_metadata := Some (JObj (obj_insert key v fs))\<rparr> # es)
          else map_option ((#) e) (set_item_field_in i key v es)
      | _ \<Rightarrow> map_option ((#) e) (set_item_field_in i key v es))"

definition set_item_field :: "nat \<Rightarrow> string \<Rightarrow> json \<Rightarrow> region \<Rightarrow> bool \<times> region" where
  "set_item_field i key v r =
     (case set_item_field_in i key v (r_content r) of
        None \<Rightarrow> (False, r) | Some es \<Rightarrow> (True, r\<lparr>r_content := es\<rparr>))"

definition complete_checklist_item :: "nat \<Rightarrow> region \<Rightarrow> bool \<times> region" where
  "complete_checklist_item i r = set_item_field i ITEM_DONE (JBool True) r"

definition note_checklist_item :: "nat \<Rightarrow> string \<Rightarrow> region \<Rightarrow> bool \<times> region" where
  "note_checklist_item i note r = set_item_field i ITEM_NOTE (JStr note) r"

definition render_item :: "checklist_item \<Rightarrow> string" where
  "render_item it =
     (if item_done it then ''[x]'' else ''[ ]'') @ '' '' @ show_nat (item_id it) @ '' '' @
     item_text it @
     (case item_note it of None \<Rightarrow> [] | Some n \<Rightarrow> [CHR ''\<newline>''] @ ''    note: '' @ n) @
     [CHR ''\<newline>'']"

definition render_checklist :: "region \<Rightarrow> string" where
  "render_checklist r =
     (let items = checklist_items r in
      if items = [] then []
      else let open_items = filter (\<lambda>i. \<not> item_done i) items;
               done_items = filter item_done items
           in ''Checklist ('' @ show_nat (length open_items) @ '' open, '' @
              show_nat (length done_items) @ '' done):'' @ [CHR ''\<newline>''] @
              trim_end (concat (map render_item (open_items @ done_items))))"

end
