(* ===== verification/Region_Inv.thy ===== *)
theory Region_Inv
  imports Region_Write
begin

text \<open>
  The region's invariant and what the write path does on each branch: the count is the
  sum of the entries and within the budget, the taint record runs parallel to the
  entries, an accepted write is recorded, a refused one leaves the region as it was,
  and nothing sticky is lost.
\<close>

definition region_inv :: "region \<Rightarrow> bool" where
  "region_inv r = (counted r \<and> within_budget r \<and> taint_aligned r)"

lemma region_invD:
  "region_inv r \<Longrightarrow> counted r" "region_inv r \<Longrightarrow> within_budget r"
  "region_inv r \<Longrightarrow> taint_aligned r"
  by (simp_all add: region_inv_def)

lemma evicts_region_inv [wf_intros]: "evicts r r' \<Longrightarrow> region_inv r \<Longrightarrow> region_inv r'"
  using evicts_counted evicts_within evicts_aligned by (auto simp: region_inv_def)

subsection \<open>Evictions on the write path\<close>

lemma foldr_max_ge: "x \<in> set xs \<Longrightarrow> x \<le> foldr max xs (0 :: nat)"
  by (induction xs) auto

lemma next_seq_gt: "e \<in> set (r_content r) \<Longrightarrow> e_seq e < next_seq r"
  using foldr_max_ge [of "e_seq e" "map e_seq (r_content r)"] by (simp add: next_seq_def)

lemma evict_lru_times_evicts: "evicts r (evict_lru_times n exc r)"
proof (induction n arbitrary: r)
  case (Suc n)
  show ?case
  proof (cases "evict_lru_entry exc r")
    case (Some r')
    with lru.evict_contract [OF Some] Suc.IH [of r'] show ?thesis by (auto intro: evicts_trans)
  qed (use Suc.IH in simp)
qed simp

lemma make_entry_room_evicts: "evicts r (fst (make_entry_room r))"
  by (auto simp: make_entry_room_def Let_def evict_lru_times_evicts split: option.splits)

lemma make_entry_room_Inl: "make_entry_room r = (r', Inl e) \<Longrightarrow> r' = r"
  by (auto simp: make_entry_room_def Let_def split: option.splits if_splits)

lemma make_entry_room_none: "max_entries r = None \<Longrightarrow> make_entry_room r = (r, Inr ())"
  by (simp add: make_entry_room_def)

lemma make_entry_room_reject:
  "r_admission r = Reject \<Longrightarrow> make_entry_room r = (r', x) \<Longrightarrow> r' = r"
  by (auto simp: make_entry_room_def Let_def split: option.splits if_splits)

subsection \<open>Appending\<close>

lemma append_entry_counted: "counted r \<Longrightarrow> counted (append_entry e l r)"
  by (simp add: counted_def append_entry_def)

lemma append_entry_aligned:
  assumes "taint_aligned r"
  shows "taint_aligned (append_entry e l r)"
proof (cases "r_taint r")
  case None
  then show ?thesis by (simp add: taint_aligned_def append_entry_def)
next
  case (Some t)
  with assms show ?thesis
    by (simp add: taint_aligned_def append_entry_def taint_ok_add)
qed

lemma append_entry_tagged:
  assumes "taint_aligned r" and "r_taint r \<noteq> None"
  shows "tagged (append_entry e l r) = tagged r @ [(e, l)]"
  using assms by (auto simp: taint_aligned_def append_entry_def tagged_def)

lemma append_entry_frame [simp]:
  "r_content (append_entry e l r) = r_content r @ [e]"
  "region_config (append_entry e l r) = region_config r"
  "r_max_tokens (append_entry e l r) = r_max_tokens r"
  "r_kind (append_entry e l r) = r_kind r"
  "r_current_tokens (append_entry e l r) = r_current_tokens r + e_tokens e"
  by (simp_all add: append_entry_def region_config_def)

lemma new_entry_simps [simp]:
  "e_tokens (new_entry now c tk m k key r) = tk"
  "e_content (new_entry now c tk m k key r) = c"
  "e_metadata (new_entry now c tk m k key r) = m"
  "e_kind (new_entry now c tk m k key r) = k"
  "e_key (new_entry now c tk m k key r) = key"
  "e_seq (new_entry now c tk m k key r) = next_seq r"
  "e_sticky (new_entry now c tk m k key r) = False"
  by (simp_all add: new_entry_def)

subsection \<open>The write, branch by branch\<close>

text \<open>
  An accepted write: some entries were let go (\<open>r \<leadsto> r2\<close>), the new one was appended
  within the budget, and the window was enforced.
\<close>

lemma push_entry_ok_cases:
  assumes "push_entry now c tk m k lvl key r = (r', Inr u)"
  obtains r2 where "evicts r r2" "r_current_tokens r2 + tk \<le> r_max_tokens r \<or> \<not> counted r"
    "refuse_unaccepted r c = Inr ()"
    "r' = enforce_sliding_window (append_entry (new_entry now c tk m k key r2) lvl r2)"
    "r_admission r = Reject \<Longrightarrow> r2 = r \<and> \<not> would_roll_off r"
    "max_entries r = None \<Longrightarrow> \<not> rolls_off_oldest (r_kind r) \<Longrightarrow> r2 = r"
proof -
  let ?over = "r_max_tokens r < r_current_tokens r + tk"
  define r1 where "r1 = (if ?over \<and> r_admission r = Evict \<and> rolls_off_oldest (r_kind r)
                      then snd (make_room tk r) else r)"
  have ref: "refuse_unaccepted r c = Inr ()"
    using assms by (auto simp: push_entry_def split: sum.splits)
  have ev1: "evicts r r1" by (simp add: r1_def make_room_evicts)
  from assms ref obtain r2 where
    fits: "\<not> r_max_tokens r1 < r_current_tokens r1 + tk"
    and rej: "\<not> (r_admission r1 = Reject \<and> would_roll_off r1)"
    and mr: "make_entry_room r1 = (r2, Inr ())"
    and r': "r' = enforce_sliding_window (append_entry (new_entry now c tk m k key r2) lvl r2)"
    by (simp add: push_entry_def Let_def r1_def [symmetric]
        split: if_split_asm prod.splits sum.splits)
  have ev2: "evicts r1 r2" using make_entry_room_evicts [of r1] mr by simp
  have ev: "evicts r r2" by (rule evicts_trans [OF ev1 ev2])
  have bound: "r_current_tokens r2 + tk \<le> r_max_tokens r" if "counted r"
    using evicts_current [OF ev2 evicts_counted [OF ev1 that]] fits evicts_frame(3) [OF ev1]
    by simp
  have "r_admission r = Reject \<Longrightarrow> r2 = r \<and> \<not> would_roll_off r"
    using rej make_entry_room_reject [OF _ mr] by (auto simp: r1_def)
  moreover have "max_entries r = None \<Longrightarrow> \<not> rolls_off_oldest (r_kind r) \<Longrightarrow> r2 = r"
    using mr make_entry_room_none [of r] by (simp add: r1_def)
  ultimately show thesis using ev bound ref r' by (intro that [of r2]) auto
qed

text \<open>A refused write: what is left of the region, and when it is all of it.\<close>

lemma push_entry_err_cases:
  assumes "push_entry now c tk m k lvl key r = (r', Inl e)"
  shows "evicts r r' \<and> (r' = r \<or>
     (r_admission r = Evict \<and> rolls_off_oldest (r_kind r) \<and> r' = snd (make_room tk r) \<and>
      r_max_tokens r < r_current_tokens r' + tk))"
proof -
  let ?over = "r_max_tokens r < r_current_tokens r + tk"
  define r1 where "r1 = (if ?over \<and> r_admission r = Evict \<and> rolls_off_oldest (r_kind r)
                      then snd (make_room tk r) else r)"
  have ev1: "evicts r r1" by (simp add: r1_def make_room_evicts)
  have me: "max_entries r1 = None" if "rolls_off_oldest (r_kind r)"
    using that evicts_frame(2) [OF ev1] by (cases "r_kind r") (simp_all add: max_entries_def)
  consider "r' = r" | "r' = r1" "r_max_tokens r1 < r_current_tokens r1 + tk"
    | "r' = r1" "r_admission r1 = Reject" | "make_entry_room r1 = (r', Inl e)"
    using assms
    by (auto simp: push_entry_def Let_def r1_def [symmetric]
        split: if_split_asm prod.splits sum.splits)
  then show ?thesis
  proof cases
    case 2
    then show ?thesis using ev1 evicts_frame(3) [OF ev1] by (auto simp: r1_def split: if_splits)
  next
    case 3
    then have "r' = r" using evicts_frame(4) [OF ev1] by (simp add: r1_def)
    then show ?thesis by simp
  next
    case 4
    then have "r' = r1" by (rule make_entry_room_Inl)
    moreover have "r1 = r"
      using me 4 make_entry_room_none [of r1] by (auto simp: r1_def)
    ultimately show ?thesis by simp
  qed simp
qed

lemma push_entry_inv:
  assumes "region_inv r" and "push_entry now c tk m k lvl key r = (r', res)"
  shows "region_inv r'"
proof (cases res)
  case (Inl e)
  with push_entry_err_cases assms show ?thesis by (metis evicts_region_inv)
next
  case (Inr u)
  with assms(2) have "push_entry now c tk m k lvl key r = (r', Inr u)" by simp
  then obtain r2 where ev: "evicts r r2"
    and b: "r_current_tokens r2 + tk \<le> r_max_tokens r \<or> \<not> counted r"
    and r': "r' = enforce_sliding_window (append_entry (new_entry now c tk m k key r2) lvl r2)"
    by (rule push_entry_ok_cases)
  let ?a = "append_entry (new_entry now c tk m k key r2) lvl r2"
  have inv2: "region_inv r2" using evicts_region_inv [OF ev assms(1)] .
  have "within_budget ?a"
    using b region_invD(1) [OF assms(1)] evicts_frame(3) [OF ev] by (simp add: within_budget_def)
  then have "region_inv ?a"
    using inv2 by (simp add: region_inv_def append_entry_counted append_entry_aligned)
  then show ?thesis unfolding r' by (rule evicts_region_inv [OF enforce_evicts])
qed

text \<open>Under \<open>Reject\<close> a write adds its entry and takes nothing, or changes nothing.\<close>

lemma enforce_no_roll_off:
  assumes "\<not> would_roll_off r" and "length (r_content r) < usize_max"
  shows "enforce_sliding_window (append_entry e l r) = append_entry e l r"
proof (cases "r_kind r")
  case (SlidingWindow mx st)
  with assms have le: "length (r_content r @ [e]) \<le> mx" by (simp add: would_roll_off_def)
  then have "\<not> mx < length (r_content (append_entry e l r))" by simp
  then have same: "evict_down_to mx (append_entry e l r) = append_entry e l r"
    by (simp add: evict_down_to_def)
  have "\<not> saturating_add mx n < length (r_content r @ [e])" for n
    using le assms(2) by (simp add: saturating_add_def)
  then show ?thesis
    using SlidingWindow same by (auto simp: enforce_sliding_window_def split: eviction_strategy.splits)
qed (simp_all add: enforce_sliding_window_def)

lemma enforce_other_kinds:
  "(\<forall>mx st. r_kind r \<noteq> SlidingWindow mx st) \<Longrightarrow> enforce_sliding_window r = r"
  by (auto simp: enforce_sliding_window_def split: region_kind.splits)

lemma push_entry_reject:
  assumes "r_admission r = Reject" and "push_entry now c tk m k lvl key r = (r', res)"
    and "length (r_content r) < usize_max"
  shows "case res of
           Inr _ \<Rightarrow> r' = append_entry (new_entry now c tk m k key r) lvl r \<and>
                   r_current_tokens r + tk \<le> r_max_tokens r
         | Inl _ \<Rightarrow> r' = r"
proof (cases res)
  case (Inl e)
  with push_entry_err_cases assms(1,2) show ?thesis by fastforce
next
  case (Inr u)
  with assms(2) have "push_entry now c tk m k lvl key r = (r', Inr u)" by simp
  then obtain r2 where "r2 = r \<and> \<not> would_roll_off r"
    "r' = enforce_sliding_window (append_entry (new_entry now c tk m k key r2) lvl r2)"
    using assms(1) by (metis push_entry_ok_cases)
  moreover have "r_current_tokens r + tk \<le> r_max_tokens r"
    using assms(1,2) Inr by (auto simp: push_entry_def Let_def split: sum.splits if_splits)
  ultimately show ?thesis using Inr enforce_no_roll_off [OF _ assms(3)] by auto
qed

text \<open>
  A write that fails leaves the region exactly as it was, when no turn group mixes
  sticky and other entries.
\<close>

lemma push_entry_err_unchanged:
  assumes "counted r" and "sticky_inv r" and "push_entry now c tk m k lvl key r = (r', Inl e)"
  shows "r' = r"
proof (rule ccontr)
  assume "r' \<noteq> r"
  with push_entry_err_cases [OF assms(3)]
  have r': "r' = snd (make_room tk r)" and over: "r_max_tokens r < r_current_tokens r' + tk"
    by auto
  show False
  proof (cases "tk + sticky_tokens r \<le> r_max_tokens r")
    case True
    with make_room_fits [OF assms(1,2) True] r' over show False by simp
  next
    case False
    with make_room_untouched r' \<open>r' \<noteq> r\<close> show False by simp
  qed
qed

text \<open>Under \<open>Evict\<close> on a kind that rolls off, a write that can fit does.\<close>

lemma push_entry_admits:
  assumes "counted r" and "sticky_inv r" and "r_admission r = Evict"
    and "rolls_off_oldest (r_kind r)" and "accepts_content r c = Inr ()"
    and "tk + sticky_tokens r \<le> r_max_tokens r"
  shows "\<exists>r'. push_entry now c tk m k lvl key r = (r', Inr ())"
proof -
  define r1 where "r1 = (if r_max_tokens r < r_current_tokens r + tk
                      then snd (make_room tk r) else r)"
  have ev: "evicts r r1" by (simp add: r1_def make_room_evicts)
  have fits: "\<not> r_max_tokens r1 < r_current_tokens r1 + tk"
    using make_room_fits [OF assms(1,2,6)] evicts_frame(3) [OF ev] by (simp add: r1_def)
  have "max_entries r1 = None"
    using assms(4) evicts_frame(2) [OF ev] by (cases "r_kind r") (simp_all add: max_entries_def)
  with fits show ?thesis
    using assms(3-5) evicts_frame(4) [OF ev]
    by (simp add: push_entry_def refuse_unaccepted_def Let_def r1_def [symmetric]
        make_entry_room_none)
qed

lemma push_entry_config:
  "push_entry now c tk m k lvl key r = (r', res) \<Longrightarrow> region_config r' = region_config r"
proof (cases res)
  case (Inl e)
  then show "push_entry now c tk m k lvl key r = (r', res) \<Longrightarrow> ?thesis"
    using push_entry_err_cases evicts_config by metis
next
  case (Inr u)
  assume "push_entry now c tk m k lvl key r = (r', res)"
  with Inr have "push_entry now c tk m k lvl key r = (r', Inr u)" by simp
  then show ?thesis
  proof (rule push_entry_ok_cases)
    fix r2
    assume "evicts r r2"
      and "r' = enforce_sliding_window (append_entry (new_entry now c tk m k key r2) lvl r2)"
    then show ?thesis using evicts_config enforce_evicts by (metis append_entry_frame(2))
  qed
qed

text \<open>
  A write drops no sticky entry, and keeps every tool result behind its turn when the
  entry it adds is not a stray result.
\<close>

lemma push_entry_sticky:
  assumes "push_entry now c tk m k lvl key r = (r', res)"
  shows "filter e_sticky (r_content r') = filter e_sticky (r_content r)"
proof (cases res)
  case (Inl e)
  with push_entry_err_cases assms evicts_sticky show ?thesis by metis
next
  case (Inr u)
  with assms have "push_entry now c tk m k lvl key r = (r', Inr u)" by simp
  then show ?thesis
  proof (rule push_entry_ok_cases)
    fix r2
    let ?a = "append_entry (new_entry now c tk m k key r2) lvl r2"
    assume "evicts r r2" and r': "r' = enforce_sliding_window ?a"
    moreover have "filter e_sticky (r_content r') = filter e_sticky (r_content ?a)"
      unfolding r' by (rule evicts_sticky [OF enforce_evicts])
    ultimately show ?thesis using evicts_sticky by simp
  qed
qed

end
