(* ===== verification/Region_Keyed.thy ===== *)
theory Region_Keyed
  imports Region_Inv
begin

text \<open>
  Keyed writes, \<open>crates/leviath-core/src/region/keyed.rs\<close>: an upsert that is refused
  leaves the region untouched, one that is accepted is readable under its key, is the
  most recent write, keeps the entry cap and every sticky entry, and stays in the budget
  while its key names one entry.
\<close>

definition own :: "string \<Rightarrow> region_entry \<Rightarrow> bool" where
  "own key e = (e_key e = Some key)"

definition key_unique :: "string \<Rightarrow> region \<Rightarrow> bool" where
  "key_unique key r = (length (filter (own key) (r_content r)) \<le> 1)"

subsection \<open>Lists with a named element\<close>

lemma remove_position:
  "position P xs = Some i \<Longrightarrow> length (filter P xs) \<le> 1 \<Longrightarrow>
   remove_nth i xs = filter (\<lambda>x. \<not> P x) xs"
proof (induction xs arbitrary: i)
  case (Cons x xs)
  show ?case
  proof (cases "P x")
    case True
    with Cons.prems have "i = 0" "filter P xs = []" by auto
    with True show ?thesis by (auto simp: filter_empty_conv filter_id_conv intro!: sym)
  next
    case False
    with Cons show ?thesis by auto
  qed
qed simp

lemma find_update_position:
  "position P xs = Some i \<Longrightarrow> P y \<Longrightarrow> find P (xs[i := y]) = Some y"
  by (induction xs arbitrary: i) (auto split: if_splits nat.splits)

lemma find_append_none: "filter P xs = [] \<Longrightarrow> P y \<Longrightarrow> find P (xs @ [y]) = Some y"
  by (induction xs) (auto split: if_splits)

lemma others_Some: "i < length (r_content r) \<Longrightarrow> others (Some i) r = remove_nth i (r_content r)"
proof -
  assume i: "i < length (r_content r)"
  then have "[0..<length (r_content r)] = [0..<i] @ i # [Suc i..<length (r_content r)]"
    using upt_add_eq_append [of 0 i "length (r_content r) - i"] by (simp add: upt_conv_Cons)
  moreover have "filter (\<lambda>j. j \<noteq> i) [0..<i] = [0..<i]"
    "filter (\<lambda>j. j \<noteq> i) [Suc i..<length (r_content r)] = [Suc i..<length (r_content r)]"
    by (auto simp: filter_id_conv)
  ultimately have "others (Some i) r = map ((!) (r_content r)) [0..<i] @
      map ((!) (r_content r)) [Suc i..<length (r_content r)]"
    by (simp add: others_def)
  also have "\<dots> = take i (r_content r) @ drop (Suc i) (r_content r)"
    using i by (simp add: list_eq_iff_nth_eq nth_append)
  finally show ?thesis by (simp add: remove_nth_def)
qed

lemma others_None: "others None r = r_content r"
  by (simp add: others_def map_nth)

subsection \<open>Making room for an upsert\<close>

lemma evict_lru_own:
  assumes "evict_lru_entry (Some key) r = Some r'"
  shows "filter (own key) (r_content r') = filter (own key) (r_content r)"
proof (rule evict_lru_cases [OF assms])
  fix i
  assume i: "i < length (r_content r)" and r': "r' = drop_entry i r"
    and key: "Some key = None \<or> e_key (r_content r ! i) \<noteq> Some key"
  from key have "\<not> own key (r_content r ! i)" by (simp add: own_def)
  from filter_remove_nth [where P = "own key", OF i this] show ?thesis by (simp add: r')
qed

lemma evict_lru_times_own:
  "filter (own key) (r_content (evict_lru_times n (Some key) r)) =
   filter (own key) (r_content r)"
  by (induction n arbitrary: r) (auto simp: evict_lru_own split: option.splits)

lemma upsert_cap_room_evicts: "evicts r (upsert_cap_room key ex r)"
  by (auto simp: upsert_cap_room_def evict_lru_times_evicts split: option.splits)

lemma upsert_cap_room_own:
  "filter (own key) (r_content (upsert_cap_room key ex r)) = filter (own key) (r_content r)"
  by (auto simp: upsert_cap_room_def evict_lru_times_own split: option.splits)

lemma upsert_make_room_evicts: "evicts r (upsert_make_room key ex tk r)"
  unfolding upsert_make_room_def Let_def
  by (rule evicts_trans [OF upsert_cap_room_evicts]) (rule lru.loop_evicts)

lemma upsert_make_room_own:
  "filter (own key) (r_content (upsert_make_room key ex tk r)) = filter (own key) (r_content r)"
  unfolding upsert_make_room_def Let_def
  by (subst drain_while_frame [where f = "\<lambda>s. filter (own key) (r_content s)"])
    (simp_all add: evict_lru_own upsert_cap_room_own)

lemma position_own: "position_of r key = position (own key) (r_content r)"
  by (simp add: position_of_def own_def [abs_def])

lemma entry_tokens_split: "entry_tokens es = entry_tokens (filter P es) + entry_tokens (filter (\<lambda>e. \<not> P e) es)"
  by (induction es) auto

lemma own_tokens_unique:
  assumes "position (own key) es = Some pos" and "length (filter (own key) es) \<le> 1"
  shows "entry_tokens (filter (own key) es) = e_tokens (es ! pos)"
proof -
  have lt: "pos < length es" using position_lt [OF assms(1)] .
  have "entry_tokens (filter (\<lambda>e. \<not> own key e) es) + e_tokens (es ! pos) = entry_tokens es"
    using remove_position [OF assms] entry_tokens_remove_nth [OF lt] by simp
  then show ?thesis using entry_tokens_split [of es "own key"] by simp
qed

lemma stuck_others_sticky:
  assumes "evict_lru_entry (Some key) s = None"
  shows "filter (\<lambda>e. \<not> own key e) (r_content s) =
         filter (\<lambda>e. \<not> own key e) (filter e_sticky (r_content s))"
  using assms evict_lru_None [of "Some key" s]
  by (auto simp: own_def intro: filter_cong)

text \<open>
  After making room, what is held beside the entry to be replaced leaves space for the
  write: either the loop ended, or only the sticky others are left.
\<close>

lemma upsert_make_room_fits:
  assumes cnt: "counted r" and uniq: "key_unique key r"
    and chk: "check_upsert_fits (position_of r key) tk r = Inr ()"
    and s: "s = upsert_make_room key (position_of r key) tk r"
  shows "r_current_tokens s - entry_tokens (filter (own key) (r_content r)) + tk \<le> r_max_tokens r"
proof -
  let ?ex = "position_of r key"
  define r1 where "r1 = upsert_cap_room key ?ex r"
  have ev: "evicts r s" unfolding s by (rule upsert_make_room_evicts)
  define old where "old = upsert_old_tokens ?ex r1"
  have old: "old = entry_tokens (filter (own key) (r_content r))"
  proof (cases ?ex)
    case None
    then have "filter (own key) (r_content r) = []"
      by (auto simp: position_own filter_empty_conv)
    with None show ?thesis by (simp add: old_def upsert_old_tokens_def)
  next
    case (Some pos)
    with own_tokens_unique [of key "r_content r" pos] uniq show ?thesis
      by (simp add: old_def r1_def position_own key_unique_def upsert_old_tokens_def
          upsert_cap_room_def)
  qed
  let ?over = "\<lambda>s. r_max_tokens s < r_current_tokens s - old + tk"
  have sl: "s = drain_while (length (r_content r1)) ?over (evict_lru_entry (Some key)) r1"
    by (simp add: s upsert_make_room_def Let_def r1_def [symmetric] old_def [symmetric])
  from lru.loop_done [OF order.refl sl]
  show ?thesis
  proof (elim disjE)
    assume "\<not> ?over s"
    then show ?thesis using evicts_frame(3) [OF ev] old by simp
  next
    assume 2: "evict_lru_entry (Some key) s = None"
    let ?held = "filter (\<lambda>e. \<not> own key e) (filter e_sticky (r_content r))"
    have own: "filter (own key) (r_content s) = filter (own key) (r_content r)"
      unfolding s by (rule upsert_make_room_own)
    have "r_current_tokens s = entry_tokens (r_content s)"
      using evicts_counted [OF ev cnt] by (simp add: counted_def)
    also have "\<dots> = old + entry_tokens ?held"
      using entry_tokens_split [of "r_content s" "own key"] stuck_others_sticky [OF 2]
        evicts_sticky [OF ev] own old by simp
    finally have cur: "r_current_tokens s - old = entry_tokens ?held" by simp
    have "filter e_sticky (others ?ex r) = ?held"
    proof (cases ?ex)
      case None
      then have "\<forall>e \<in> set (r_content r). \<not> own key e" by (simp add: position_own)
      then have "others ?ex r = filter (\<lambda>e. \<not> own key e) (r_content r)"
        using None by (simp add: others_None filter_id_conv)
      then show ?thesis by (simp add: conj_commute)
    next
      case (Some pos)
      have "others ?ex r = filter (\<lambda>e. \<not> own key e) (r_content r)"
        using Some others_Some [of pos r] position_lt [of "own key" "r_content r" pos]
          remove_position [of "own key" "r_content r" pos] uniq
        by (simp add: position_own key_unique_def)
      then show ?thesis by (simp add: conj_commute)
    qed
    with chk have "entry_tokens ?held + tk \<le> r_max_tokens r"
      by (auto simp: check_upsert_fits_def Let_def split: if_split_asm)
    with cur old show ?thesis by simp
  qed
qed

subsection \<open>The upsert\<close>

lemma upsert_refused:
  "upsert_by_key_content now key c tk st r = (r', Inl e) \<Longrightarrow> r' = r"
  by (auto simp: upsert_by_key_content_def Let_def split: sum.splits)

lemma upsert_accepted:
  assumes "upsert_by_key_content now key c tk st r = (r', Inr u)"
  shows "check_upsert_fits (position_of r key) tk r = Inr ()"
    and "r' = upsert_store now key c tk st (upsert_make_room key (position_of r key) tk r)"
  using assms by (auto simp: upsert_by_key_content_def Let_def split: sum.splits)

lemma upsert_store_frame [simp]:
  "r_max_tokens (upsert_store now key c tk st r) = r_max_tokens r"
  "r_kind (upsert_store now key c tk st r) = r_kind r"
  "r_taint (upsert_store now key c tk st r) = r_taint r"
  "region_config (upsert_store now key c tk st r) = region_config r"
  by (simp_all add: upsert_store_def Let_def region_config_def split: option.splits)

lemma upsert_store_lookup:
  "\<exists>e. get_by_key (upsert_store now key c tk st r) key = Some e \<and> e_content e = c \<and>
       e_tokens e = tk \<and> e_seq e = next_seq r \<and> e_timestamp e = now"
proof (cases "position_of r key")
  case None
  then have "filter (\<lambda>e. e_key e = Some key) (r_content r) = []"
    by (simp add: position_of_def filter_empty_conv)
  with None show ?thesis
    by (simp add: upsert_store_def get_by_key_def find_append_none)
next
  case (Some pos)
  have "e_key (r_content r ! pos) = Some key"
    using position_sat [of "\<lambda>e. e_key e = Some key" "r_content r" pos] Some
    by (simp add: position_of_def)
  with Some show ?thesis
    by (simp add: upsert_store_def get_by_key_def Let_def find_update_position
        position_of_def)
qed

lemma upsert_store_current:
  assumes "counted r"
  shows "counted (upsert_store now key c tk st r)"
    and "key_unique key r \<Longrightarrow> r_current_tokens (upsert_store now key c tk st r) =
      r_current_tokens r - entry_tokens (filter (own key) (r_content r)) + tk"
proof -
  show "counted (upsert_store now key c tk st r)"
  proof (cases "position_of r key")
    case None
    then show ?thesis using assms by (simp add: upsert_store_def counted_def)
  next
    case (Some pos)
    then have lt: "pos < length (r_content r)" by (simp add: position_of_def position_lt)
    have "sum_list (map e_tokens ((r_content r)[pos := y])) + e_tokens (r_content r ! pos) =
        sum_list (map e_tokens (r_content r)) + e_tokens y" for y
      by (rule sum_list_update_nat [OF lt])
    then have "entry_tokens ((r_content r)[pos := y]) =
        entry_tokens (r_content r) - e_tokens (r_content r ! pos) + e_tokens y" for y
      using e_tokens_le [OF lt] unfolding entry_tokens_def
      by (metis add.commute add_diff_cancel_right' diff_add_assoc2)
    then show ?thesis using Some assms by (simp add: upsert_store_def counted_def Let_def)
  qed
  show "r_current_tokens (upsert_store now key c tk st r) =
      r_current_tokens r - entry_tokens (filter (own key) (r_content r)) + tk"
    if "key_unique key r"
  proof (cases "position_of r key")
    case None
    then have "filter (own key) (r_content r) = []"
      by (simp add: position_own filter_empty_conv)
    with None show ?thesis by (simp add: upsert_store_def)
  next
    case (Some pos)
    with own_tokens_unique [of key "r_content r" pos] that show ?thesis
      by (simp add: upsert_store_def Let_def position_own key_unique_def)
  qed
qed

lemma upsert_within:
  assumes "counted r" and "key_unique key r"
    and "upsert_by_key_content now key c tk st r = (r', Inr u)"
  shows "counted r' \<and> within_budget r'"
proof -
  let ?s = "upsert_make_room key (position_of r key) tk r"
  note acc = upsert_accepted [OF assms(3)]
  have ev: "evicts r ?s" by (rule upsert_make_room_evicts)
  have own: "filter (own key) (r_content ?s) = filter (own key) (r_content r)"
    by (rule upsert_make_room_own)
  then have "key_unique key ?s" using assms(2) by (simp add: key_unique_def)
  then show ?thesis
    using upsert_store_current [OF evicts_counted [OF ev assms(1)]] acc(2)
      upsert_make_room_fits [OF assms(1,2) acc(1) refl] own evicts_frame(3) [OF ev]
    by (simp add: within_budget_def)
qed

text \<open>What an upsert leaves of the other keys is a subsequence of what was there.\<close>

lemma upsert_store_others:
  "filter (\<lambda>e. \<not> own key e) (r_content (upsert_store now key c tk st r)) =
   filter (\<lambda>e. \<not> own key e) (r_content r)"
proof (cases "position_of r key")
  case None
  then show ?thesis by (simp add: upsert_store_def own_def)
next
  case (Some pos)
  then have lt: "pos < length (r_content r)" and own: "own key (r_content r ! pos)"
    by (simp_all add: position_own position_lt position_sat)
  have upd: "filter (\<lambda>e. \<not> own key e) ((r_content r)[pos := y]) =
      filter (\<lambda>e. \<not> own key e) (r_content r)" if "own key y" for y
  proof -
    have "filter (\<lambda>e. \<not> own key e) (r_content r) = filter (\<lambda>e. \<not> own key e)
        (take pos (r_content r) @ r_content r ! pos # drop (Suc pos) (r_content r))"
      using id_take_nth_drop [OF lt] by simp
    then show ?thesis using lt own that by (simp add: upd_conv_take_nth_drop)
  qed
  show ?thesis using Some own
    by (simp add: upsert_store_def Let_def upd [unfolded own_def] own_def)
qed

lemma upsert_others:
  assumes "upsert_by_key_content now key c tk st r = (r', Inr u)"
  shows "subseq (filter (\<lambda>e. \<not> own key e) (r_content r'))
                (filter (\<lambda>e. \<not> own key e) (r_content r)) \<and>
         filter (\<lambda>e. e_sticky e \<and> \<not> own key e) (r_content r') =
         filter (\<lambda>e. e_sticky e \<and> \<not> own key e) (r_content r)"
proof -
  let ?s = "upsert_make_room key (position_of r key) tk r"
  have ev: "evicts r ?s" by (rule upsert_make_room_evicts)
  have r': "filter (\<lambda>e. \<not> own key e) (r_content r') = filter (\<lambda>e. \<not> own key e) (r_content ?s)"
    unfolding upsert_accepted(2) [OF assms] by (rule upsert_store_others)
  have comm: "filter (\<lambda>e. e_sticky e \<and> \<not> own key e) es =
      filter e_sticky (filter (\<lambda>e. \<not> own key e) es)" for es
    by (simp add: conj_commute)
  have comm': "filter e_sticky (filter (\<lambda>e. \<not> own key e) es) =
      filter (\<lambda>e. \<not> own key e) (filter e_sticky es)" for es
    by (simp add: conj_commute)
  from ev have "subseq (r_content ?s) (r_content r)" by (simp add: evicts_def)
  then show ?thesis
    unfolding comm r' by (simp add: comm' evicts_sticky [OF ev] del: filter_filter)
qed

end
