(* ===== verification/Region_Step.thy ===== *)
theory Region_Step
  imports Region_Keyed
begin

text \<open>
  A region's life as a step relation: every public operation that changes a region is a
  step, and the invariant (the count is the sum of the entries and within the budget, the
  taint record runs parallel to the entries) holds of every region reached from an empty
  one. Three operations keep the invariant only while the region tracks no taint, because
  they do not touch the taint record, and an upsert only for a key at most one entry has;
  the code has no such guards, and the rules of these steps state them.
\<close>

subsection \<open>The operations that are not writes\<close>

lemma remove_by_key_inv: "region_inv r \<Longrightarrow> region_inv (snd (remove_by_key key r))"
proof (cases "position_of r key")
  case (Some pos)
  assume inv: "region_inv r"
  have lt: "pos < length (r_content r)" using Some by (simp add: position_own position_lt)
  have "r_current_tokens (drop_entry pos r) \<le> r_current_tokens r"
    by (simp add: drop_entry_def)
  with inv drop_entry_counted(1) [OF _ lt] drop_entry_aligned [OF _ lt] Some show ?thesis
    by (simp add: remove_by_key_def region_inv_def within_budget_def)
qed (simp add: remove_by_key_def)

lemma region_clear_inv: "region_inv r \<Longrightarrow> region_inv (region_clear r)"
  by (auto simp: region_inv_def region_clear_def counted_def within_budget_def
      taint_aligned_def wf_intros split: option.splits)

lemma purge_inv:
  assumes "region_inv r"
  shows "region_inv (purge_from picks 0 r)"
proof -
  have c: "counted r" "within_budget r" using assms by (simp_all add: region_inv_def)
  have "r_content (purge_from picks 0 r) = filter (\<lambda>e. \<not> picks e) (r_content r)"
    using purge_from_content [of 0 r picks] by simp
  moreover have "r_max_tokens (purge_from picks 0 r) = r_max_tokens r"
    using region_config_same(3) [OF purge_from_keeps(3)] .
  ultimately have "within_budget (purge_from picks 0 r)"
    using c purge_from_keeps(1) [OF c(1), of picks 0]
      entry_tokens_filter_le [of "\<lambda>e. \<not> picks e" "r_content r"]
    by (simp add: within_budget_def counted_def)
  then show ?thesis
    using assms purge_from_keeps(1,2) by (simp add: region_inv_def)
qed

text \<open>Rewriting entries in place, each keeping its tokens.\<close>

lemma same_tokens_inv:
  assumes "region_inv r" and "map e_tokens es = map e_tokens (r_content r)"
  shows "region_inv (r\<lparr>r_content := es\<rparr>)"
proof -
  have "length es = length (r_content r)" using assms(2) by (metis length_map)
  moreover have "entry_tokens es = entry_tokens (r_content r)"
    using assms(2) by (simp add: entry_tokens_def)
  ultimately show ?thesis
    using assms(1)
    by (simp add: region_inv_def counted_def within_budget_def taint_aligned_def
        split: option.splits)
qed

lemma map_tokens_update:
  "i < length es \<Longrightarrow> e_tokens e = e_tokens (es ! i) \<Longrightarrow>
   map e_tokens (es[i := e]) = map e_tokens es"
  by (simp add: map_update) (metis list_update_id map_update nth_map)

lemma set_sticky_inv: "region_inv r \<Longrightarrow> region_inv (snd (set_sticky key b r))"
  by (auto simp: set_sticky_def position_own intro!: same_tokens_inv map_tokens_update
      dest: position_lt split: option.splits)

lemma set_item_field_tokens:
  "set_item_field_in i key v es = Some es' \<Longrightarrow> map e_tokens es' = map e_tokens es"
  by (induction es arbitrary: es') (auto split: option.splits json.splits if_splits)

lemma set_item_field_inv: "region_inv r \<Longrightarrow> region_inv (snd (set_item_field i key v r))"
  by (auto simp: set_item_field_def intro!: same_tokens_inv set_item_field_tokens
      split: option.splits)

lemma set_last_reasoning_inv: "region_inv r \<Longrightarrow> region_inv (set_last_reasoning reasoning r)"
  by (auto simp: set_last_reasoning_def intro!: same_tokens_inv)
    (metis append_butlast_last_id list.simps(8,9) map_append)

lemma restamp_loop_tokens:
  "\<forall>i \<in> set order. i < length es \<Longrightarrow> map e_tokens (restamp_loop sq order es) = map e_tokens es"
  by (induction sq order es rule: restamp_loop.induct) (auto simp: map_tokens_update)

lemma restamp_recency_inv: "region_inv r \<Longrightarrow> region_inv (restamp_recency r)"
  by (auto simp: restamp_recency_def restamp_order_def
      intro!: same_tokens_inv restamp_loop_tokens)

lemma replace_keyed_inv:
  assumes "region_inv r" and "replace_keyed_entry now key c tk k lvl r = (r', res)"
  shows "region_inv r'"
proof -
  have push: "region_inv s'" if "push_entry now c tk None k lvl (Some key) s = (s', x)"
    and "s = r \<or> s = snd (remove_by_key key r)" for s s' x
    using that push_entry_inv remove_by_key_inv assms(1) by metis
  have stamp: "region_inv (r\<lparr>r_content := (r_content r)[pos :=
      (r_content r ! pos)\<lparr>e_seq := sq, e_timestamp := now\<rparr>]\<rparr>)"
    if "position_of r key = Some pos" for pos sq
    using that assms(1) by (intro same_tokens_inv map_tokens_update)
      (auto simp: position_own dest: position_lt)
  show ?thesis
    using assms(2) push stamp assms(1)
    by (auto simp: replace_keyed_entry_def split: sum.splits option.splits if_split_asm
        prod.splits)
qed

subsection \<open>Operations that leave the taint record alone\<close>

lemma untracked_aligned [simp]: "r_taint r = None \<Longrightarrow> taint_aligned r"
  by (simp add: taint_aligned_def)

lemma remove_at_untracked:
  assumes "region_inv r" and "r_taint r = None"
  shows "region_inv (snd (remove_at i r))"
proof (cases "i < length (r_content r)")
  case True
  then show ?thesis
    using assms entry_tokens_remove_nth [OF True]
    by (auto simp: remove_at_def region_inv_def counted_def within_budget_def)
qed (use assms in \<open>simp add: remove_at_def\<close>)

lemma carry_entry_untracked:
  assumes "region_inv r" and "r_taint r = None"
  shows "region_inv (fst (carry_entry e r))"
proof -
  let ?a = "r\<lparr>r_current_tokens := r_current_tokens r + e_tokens e,
      r_content := r_content r @ [e]\<rparr>"
  have "region_inv ?a" if "\<not> r_max_tokens r < r_current_tokens r + e_tokens e"
    using assms that by (simp add: region_inv_def counted_def within_budget_def)
  then show ?thesis
    using assms(1) evicts_region_inv [OF enforce_evicts] by (simp add: carry_entry_def)
qed

lemma upsert_taint_none:
  assumes "upsert_by_key_content now key c tk st r = (r', res)" and "r_taint r = None"
  shows "r_taint r' = None"
proof (cases res)
  case (Inl e)
  with assms upsert_refused show ?thesis by blast
next
  case (Inr u)
  have "evicts r (upsert_make_room key (position_of r key) tk r)"
    by (rule upsert_make_room_evicts)
  then have "r_taint (upsert_make_room key (position_of r key) tk r) = None"
    using assms(2) by (simp add: evicts_def)
  with upsert_accepted(2) [of now key c tk st r r' u] Inr assms(1) show ?thesis by simp
qed

lemma upsert_untracked:
  assumes "region_inv r" and "r_taint r = None" and "key_unique key r"
    and "upsert_by_key_content now key c tk st r = (r', res)"
  shows "region_inv r'"
proof (cases res)
  case (Inl e)
  with assms upsert_refused show ?thesis by blast
next
  case (Inr u)
  with assms upsert_within [OF _ assms(3)] upsert_taint_none [OF assms(4,2)] show ?thesis
    by (simp add: region_inv_def)
qed

subsection \<open>Steps\<close>

inductive region_step :: "region \<Rightarrow> region \<Rightarrow> bool" where
  step_push: "push_entry now c tk m k lvl key r = (r', res) \<Longrightarrow> region_step r r'"
| step_reasoning: "region_step r (set_last_reasoning reasoning r)"
| step_replace: "replace_keyed_entry now key c tk k lvl r = (r', res) \<Longrightarrow> region_step r r'"
| step_remove_key: "region_step r (snd (remove_by_key key r))"
| step_remove_prefix: "region_step r (remove_entries_by_prefix pre r)"
| step_clear: "region_step r (region_clear r)"
| step_oldest: "remove_oldest r = Some (e, r') \<Longrightarrow> region_step r r'"
| step_release: "region_step r (snd (release_oldest n r))"
| step_make_room: "region_step r (snd (make_room tk r))"
| step_evict_all: "region_step r (snd (evict_all r))"
| step_sticky: "region_step r (snd (set_sticky key b r))"
| step_item: "region_step r (snd (set_item_field i key v r))"
| step_restamp: "region_step r (restamp_recency r)"
| step_upsert: "r_taint r = None \<Longrightarrow> key_unique key r \<Longrightarrow>
    upsert_by_key_content now key c tk st r = (r', res) \<Longrightarrow> region_step r r'"
| step_carry: "r_taint r = None \<Longrightarrow> region_step r (fst (carry_entry e r))"
| step_remove_at: "r_taint r = None \<Longrightarrow> region_step r (snd (remove_at i r))"

text \<open>A region starts empty, with or without tracking, under any configuration.\<close>

inductive region_reachable :: "region \<Rightarrow> bool" where
  reach_empty: "r_content r = [] \<Longrightarrow> r_current_tokens r = 0 \<Longrightarrow>
    r_taint r \<in> {None, Some taint_new} \<Longrightarrow> region_reachable r"
| reach_step: "region_reachable r \<Longrightarrow> region_step r r' \<Longrightarrow> region_reachable r'"

lemma release_oldest_inv: "region_inv r \<Longrightarrow> region_inv (snd (release_oldest n r))"
  using evicts_region_inv [OF release_times_evicts] by (simp add: release_oldest_def Let_def)

lemma region_step_inv: "region_step r r' \<Longrightarrow> region_inv r \<Longrightarrow> region_inv r'"
proof (induction rule: region_step.induct)
  case step_push
  then show ?case using push_entry_inv by blast
next
  case step_replace
  then show ?case using replace_keyed_inv by blast
next
  case step_oldest
  then show ?case using remove_oldest_evicts(1) evicts_region_inv by blast
next
  case step_make_room
  then show ?case using evicts_region_inv [OF make_room_evicts] by simp
next
  case step_evict_all
  then show ?case using evicts_region_inv [OF evict_all_evicts] by simp
next
  case step_upsert
  then show ?case using upsert_untracked by blast
qed (simp_all add: set_last_reasoning_inv remove_by_key_inv purge_inv
    remove_entries_by_prefix_def region_clear_inv release_oldest_inv set_sticky_inv
    set_item_field_inv restamp_recency_inv carry_entry_untracked remove_at_untracked)

lemma region_reachable_inv: "region_reachable r \<Longrightarrow> region_inv r"
proof (induction rule: region_reachable.induct)
  case (reach_empty r)
  then show ?case
    by (auto simp: region_inv_def counted_def within_budget_def taint_aligned_def wf_intros)
qed (rule region_step_inv)

end
