(* ===== verification/Window.thy ===== *)
theory Window
  imports Region_Step
begin

text \<open>
  The context window, \<open>crates/leviath-runtime/src/components/context_window.rs\<close> with its
  \<open>eviction.rs\<close>, \<open>writes.rs\<close> and \<open>mime.rs\<close>, and the write and overflow hooks of
  \<open>custom_region.rs\<close>. A region script is a pair of functions, its hooks: what the script
  engine returns for a region and a write is the model's parameter. The journal and the
  warnings are left out: they record what happened and decide nothing.
\<close>

subsection \<open>The window\<close>

record region_script =
  on_write_hook :: "(region \<Rightarrow> string \<Rightarrow> nat \<Rightarrow> entry_kind \<Rightarrow> string option \<Rightarrow> string + json) option"
  on_overflow_hook :: "(region \<Rightarrow> nat \<Rightarrow> string + json) option"

record window =
  w_regions :: "region list"
  w_current_tokens :: nat
  w_max_tokens :: nat
  w_scripts :: "string \<Rightarrow> region_script option"
  w_hidden :: "string set"
  w_eviction_order :: "string list"

definition window_new :: "nat \<Rightarrow> window" where
  "window_new mx = \<lparr>w_regions = [], w_current_tokens = 0, w_max_tokens = mx,
     w_scripts = (\<lambda>_. None), w_hidden = {}, w_eviction_order = []\<rparr>"

definition region_index :: "window \<Rightarrow> string \<Rightarrow> nat option" where
  "region_index w name = position (\<lambda>r. r_name r = name) (w_regions w)"

definition get_region :: "window \<Rightarrow> string \<Rightarrow> region option" where
  "get_region w name = find (\<lambda>r. r_name r = name) (w_regions w)"

text \<open>Writing through \<open>get_region_mut\<close>: the first region of that name.\<close>

definition set_region :: "nat \<Rightarrow> region \<Rightarrow> window \<Rightarrow> window" where
  "set_region i r w = w\<lparr>w_regions := (w_regions w)[i := r]\<rparr>"

definition calculate_tokens :: "window \<Rightarrow> nat" where
  "calculate_tokens w = sum_list (map r_current_tokens (w_regions w))"

definition recount :: "window \<Rightarrow> window" where
  "recount w = w\<lparr>w_current_tokens := calculate_tokens w\<rparr>"

definition add_region :: "region \<Rightarrow> window \<Rightarrow> window" where
  "add_region r w = recount (w\<lparr>w_regions := w_regions w @ [r]\<rparr>)"

definition window_enable_taint :: "window \<Rightarrow> window" where
  "window_enable_taint w = w\<lparr>w_regions := map enable_taint_tracking (w_regions w)\<rparr>"

text \<open>The maximum over the regions that track taint; \<open>None\<close> when none does.\<close>

fun overall_taint_from :: "taint_level option \<Rightarrow> region list \<Rightarrow> taint_level option" where
  "overall_taint_from m [] = m"
| "overall_taint_from m (r # rs) =
     overall_taint_from
       (case region_taint_level r of
          None \<Rightarrow> m
        | Some l \<Rightarrow> Some (case m of None \<Rightarrow> l | Some c \<Rightarrow> taint_max l c)) rs"

definition overall_taint :: "window \<Rightarrow> taint_level option" where
  "overall_taint w = overall_taint_from None (w_regions w)"

definition taint_summary :: "window \<Rightarrow> (string \<times> taint_level) list" where
  "taint_summary w =
     List.map_filter (\<lambda>r. map_option (\<lambda>l. (r_name r, l)) (region_taint_level r)) (w_regions w)"

definition custom_script_for :: "window \<Rightarrow> string \<Rightarrow> region_script option" where
  "custom_script_for w name =
     (case get_region w name of
        None \<Rightarrow> None
      | Some r \<Rightarrow> (case r_kind r of Custom script _ \<Rightarrow> w_scripts w script | _ \<Rightarrow> None))"

subsection \<open>Hooks\<close>

datatype on_write_outcome =
    Accept string nat "string option"
  | HookReject "string option"

definition string_field :: "(string \<times> json) list \<Rightarrow> string \<Rightarrow> string option option" where
  "string_field m name =
     (case map_of m name of
        None \<Rightarrow> Some None | Some JNull \<Rightarrow> Some None | Some (JStr s) \<Rightarrow> Some (Some s)
      | Some _ \<Rightarrow> None)"

text \<open>A map the hook returned; \<open>None\<close> is a malformed one (the reason is only logged).\<close>

definition on_write_map_outcome ::
  "(string \<times> json) list \<Rightarrow> string \<Rightarrow> nat \<Rightarrow> on_write_outcome option" where
  "on_write_map_outcome m content tokens =
     (if \<not> list_all (\<lambda>(k, _). k \<in> set [''action'', ''reason'', ''content'', ''key'']) m then None
      else
        (case (case map_of m ''action'' of None \<Rightarrow> Some ''accept'' | Some (JStr s) \<Rightarrow> Some s
                | Some _ \<Rightarrow> None) of
           None \<Rightarrow> None
         | Some action \<Rightarrow>
             if action = ''reject'' then map_option HookReject (string_field m ''reason'')
             else if action = ''accept'' then
               (case string_field m ''key'' of
                  None \<Rightarrow> None
                | Some key \<Rightarrow>
                    (case string_field m ''content'' of
                       None \<Rightarrow> None
                     | Some (Some repl) \<Rightarrow> Some (Accept repl (estimate_tokens repl) key)
                     | Some None \<Rightarrow> Some (Accept content tokens key)))
             else None))"

definition apply_on_write :: "(region \<Rightarrow> string \<Rightarrow> nat \<Rightarrow> entry_kind \<Rightarrow> string option \<Rightarrow>
    string + json) \<Rightarrow> region \<Rightarrow> string \<Rightarrow> nat \<Rightarrow> entry_kind \<Rightarrow> string option \<Rightarrow> on_write_outcome"
  where
  "apply_on_write hook r content tokens kind key =
     (case hook r content tokens kind key of
        Inr (JStr repl) \<Rightarrow> Accept repl (estimate_tokens repl) None
      | Inr (JBool False) \<Rightarrow> HookReject None
      | Inr (JObj m) \<Rightarrow>
          (case on_write_map_outcome m content tokens of
             Some out \<Rightarrow> out | None \<Rightarrow> Accept content tokens None)
      | _ \<Rightarrow> Accept content tokens None)"

text \<open>\<open>valid_drop_indices\<close>: in range, sorted, without repetitions.\<close>

fun all_indices :: "nat \<Rightarrow> json list \<Rightarrow> nat list option" where
  "all_indices len [] = Some []"
| "all_indices len (item # items) =
     (case as_u64 item of
        None \<Rightarrow> None
      | Some i \<Rightarrow> if len \<le> i then None else map_option ((#) i) (all_indices len items))"

definition valid_drop_indices :: "json \<Rightarrow> nat \<Rightarrow> nat list option" where
  "valid_drop_indices v len =
     (case v of JArr items \<Rightarrow> map_option (\<lambda>is. remdups_adj (sort is)) (all_indices len items)
      | _ \<Rightarrow> None)"

fun drop_indices :: "nat list \<Rightarrow> region_entry list \<Rightarrow> nat \<Rightarrow> region_entry list \<times> nat" where
  "drop_indices [] es freed = (es, freed)"
| "drop_indices (i # is) es freed = drop_indices is (remove_nth i es) (freed + e_tokens (es ! i))"

definition apply_overflow :: "(region \<Rightarrow> nat \<Rightarrow> string + json) \<Rightarrow> nat \<Rightarrow> region \<Rightarrow> nat \<times> region" where
  "apply_overflow hook needed r =
     (case hook r needed of
        Inl _ \<Rightarrow> (0, r)
      | Inr v \<Rightarrow>
          (case valid_drop_indices v (length (r_content r)) of
             None \<Rightarrow> (0, r)
           | Some is \<Rightarrow>
               let (es, freed) = drop_indices (rev is) (r_content r) 0
               in (freed, r\<lparr>r_content := es,
                            r_current_tokens := saturating_sub (r_current_tokens r) freed\<rparr>)))"

subsection \<open>The write hook, by origin\<close>

datatype write_origin = Agent | System

datatype hook_decision =
    Store string nat "string option"
  | Refused string nat "string option"

definition on_write_decision ::
  "window \<Rightarrow> string \<Rightarrow> string \<Rightarrow> nat \<Rightarrow> entry_kind \<Rightarrow> string option \<Rightarrow> hook_decision" where
  "on_write_decision w name content tokens kind key =
     (case (custom_script_for w name, get_region w name) of
        (Some script, Some r) \<Rightarrow>
          (case on_write_hook script of
             None \<Rightarrow> Store content tokens None
           | Some hook \<Rightarrow>
               (case apply_on_write hook r content tokens kind key of
                  Accept c t k \<Rightarrow> Store c t k
                | HookReject reason \<Rightarrow> Refused content tokens reason))
      | _ \<Rightarrow> Store content tokens None)"

definition on_write_agent :: "window \<Rightarrow> string \<Rightarrow> string \<Rightarrow> nat \<Rightarrow> entry_kind \<Rightarrow>
    string option \<Rightarrow> core_error + string \<times> nat \<times> string option" where
  "on_write_agent w name content tokens kind key =
     (case on_write_decision w name content tokens kind key of
        Store c t k \<Rightarrow> Inr (c, t, k)
      | Refused c t reason \<Rightarrow> Inl (RegionRefusedWrite name
          (case reason of Some s \<Rightarrow> s | None \<Rightarrow> ''the region'' @ [CHR 0x27] @ ''s on_write hook declined it'')))"

definition on_write_system :: "window \<Rightarrow> string \<Rightarrow> string \<Rightarrow> nat \<Rightarrow> entry_kind \<Rightarrow>
    string option \<Rightarrow> string \<times> nat \<times> string option" where
  "on_write_system w name content tokens kind key =
     (case on_write_decision w name content tokens kind key of
        Store c t k \<Rightarrow> (c, t, k)
      | Refused c t reason \<Rightarrow> (c, t, None))"

text \<open>The seam the typed writers share.\<close>

definition on_write_as :: "write_origin \<Rightarrow> window \<Rightarrow> string \<Rightarrow> string \<Rightarrow> nat \<Rightarrow> entry_kind \<Rightarrow>
    string option \<Rightarrow> core_error + string \<times> nat \<times> string option" where
  "on_write_as origin w name content tokens kind key =
     (case origin of
        Agent \<Rightarrow> on_write_agent w name content tokens kind key
      | System \<Rightarrow> Inr (on_write_system w name content tokens kind key))"

subsection \<open>Writing\<close>

type_synonym 'a insertion = "region \<Rightarrow> region \<times> (core_error + 'a)"

definition try_custom_overflow :: "string \<Rightarrow> nat \<Rightarrow> window \<Rightarrow> bool \<times> window" where
  "try_custom_overflow name incoming w =
     (case (custom_script_for w name, region_index w name) of
        (Some script, Some i) \<Rightarrow>
          (case on_overflow_hook script of
             None \<Rightarrow> (False, w)
           | Some hook \<Rightarrow>
               let r = w_regions w ! i;
                   needed = saturating_sub (r_current_tokens r + incoming) (r_max_tokens r);
                   (freed, r') = apply_overflow hook needed r
               in (needed \<le> freed \<and> 0 < needed, recount (set_region i r' w)))
      | _ \<Rightarrow> (False, w))"

definition write_to_region :: "string \<Rightarrow> nat \<Rightarrow> 'a insertion \<Rightarrow> window \<Rightarrow>
    window \<times> (core_error + 'a)" where
  "write_to_region name tokens ins w =
     (case region_index w name of
        None \<Rightarrow> (w, Inl (RegionNotFound name))
      | Some i \<Rightarrow>
          (case ins (w_regions w ! i) of
             (r1, Inr x) \<Rightarrow> (recount (set_region i r1 w), Inr x)
           | (r1, Inl e) \<Rightarrow>
               let w1 = set_region i r1 w in
               (case e of
                  TokenBudgetExceeded _ _ \<Rightarrow>
                    (case try_custom_overflow name tokens w1 of
                       (False, w2) \<Rightarrow> (w2, Inl e)
                     | (True, w2) \<Rightarrow>
                         (case ins (w_regions w2 ! i) of
                            (r2, res) \<Rightarrow> (recount (set_region i r2 w2), res)))
                | _ \<Rightarrow> (w1, Inl e))))"

definition add_maybe_keyed :: "int \<Rightarrow> string option \<Rightarrow> string \<Rightarrow> nat \<Rightarrow> unit insertion" where
  "add_maybe_keyed now key content tokens r =
     (case key of
        Some k \<Rightarrow> add_keyed_entry now k (text_content content) tokens r
      | None \<Rightarrow> add_entry now (text_content content) tokens r)"

definition or_key :: "'a option \<Rightarrow> 'a option \<Rightarrow> 'a option" where
  "or_key a b = (case a of Some x \<Rightarrow> Some x | None \<Rightarrow> b)"

definition add_to_region_keyed :: "int \<Rightarrow> write_origin \<Rightarrow> string \<Rightarrow> string option \<Rightarrow> string \<Rightarrow>
    nat \<Rightarrow> window \<Rightarrow> window \<times> (core_error + unit)" where
  "add_to_region_keyed now origin name key content tokens w =
     (case on_write_as origin w name content tokens Text key of
        Inl e \<Rightarrow> (w, Inl e)
      | Inr (c, t, ovr) \<Rightarrow>
          write_to_region name t (add_maybe_keyed now (or_key ovr key) c t) w)"

definition add_to_region :: "int \<Rightarrow> string \<Rightarrow> string \<Rightarrow> nat \<Rightarrow> window \<Rightarrow>
    window \<times> (core_error + unit)" where
  "add_to_region now name content tokens w =
     add_to_region_keyed now System name None content tokens w"

definition agent_replace_region :: "int \<Rightarrow> string \<Rightarrow> string option \<Rightarrow> string \<Rightarrow> nat \<Rightarrow> window \<Rightarrow>
    window \<times> (core_error + unit)" where
  "agent_replace_region now name key content tokens w =
     (case on_write_agent w name content tokens Text key of
        Inl e \<Rightarrow> (w, Inl e)
      | Inr (c, t, ovr) \<Rightarrow>
          (case region_index w name of
             None \<Rightarrow> (w, Inl (RegionNotFound name))
           | Some i \<Rightarrow>
               write_to_region name t (add_maybe_keyed now (or_key ovr key) c t)
                 (recount (set_region i (region_clear (w_regions w ! i)) w))))"

definition replace_region :: "int \<Rightarrow> string \<Rightarrow> string \<Rightarrow> nat \<Rightarrow> window \<Rightarrow> bool \<times> window" where
  "replace_region now name content tokens w =
     (let (c, t, ovr) = on_write_system w name content tokens Text None in
      case region_index w name of
        None \<Rightarrow> (False, w)
      | Some i \<Rightarrow>
          (True, recount (set_region i
             (fst (add_maybe_keyed now ovr c t (region_clear (w_regions w ! i)))) w)))"

text \<open>\<open>rewritten\<close>: new text in front of the stored parts.\<close>

definition rewritten :: "entry_content \<Rightarrow> string \<Rightarrow> entry_content" where
  "rewritten c text = from_parts (part_text text # filter is_stored (parts c))"

definition set_last_key :: "string option \<Rightarrow> region \<Rightarrow> region" where
  "set_last_key key r =
     (if key \<noteq> None \<and> r_content r \<noteq> []
      then r\<lparr>r_content := butlast (r_content r) @ [(last (r_content r))\<lparr>e_key := key\<rparr>]\<rparr>
      else r)"

definition typed_insert :: "int \<Rightarrow> string option \<Rightarrow> taint_level option \<Rightarrow> entry_content \<Rightarrow> nat \<Rightarrow>
    entry_kind \<Rightarrow> string option \<Rightarrow> keyed_write insertion" where
  "typed_insert now key taint content tokens kind ovr r =
     (case (case (key, taint) of
              (Some k, _) \<Rightarrow> replace_keyed_entry now k content tokens kind
                 (case taint of Some l \<Rightarrow> l | None \<Rightarrow> Public) r
            | (None, Some l) \<Rightarrow>
                (case add_typed_tainted_entry now content tokens kind l r of
                   (r', Inl e) \<Rightarrow> (r', Inl e) | (r', Inr _) \<Rightarrow> (r', Inr Added))
            | (None, None) \<Rightarrow>
                (case add_typed_entry now content tokens kind r of
                   (r', Inl e) \<Rightarrow> (r', Inl e) | (r', Inr _) \<Rightarrow> (r', Inr Added))) of
        (r', Inl e) \<Rightarrow> (r', Inl e)
      | (r', Inr kw) \<Rightarrow> (set_last_key ovr r', Inr kw))"

definition typed_write_keyed :: "int \<Rightarrow> write_origin \<Rightarrow> string \<Rightarrow> entry_kind \<Rightarrow>
    taint_level option \<Rightarrow> string option \<Rightarrow> entry_content \<Rightarrow> nat \<Rightarrow> window \<Rightarrow>
    window \<times> (core_error + keyed_write)" where
  "typed_write_keyed now origin name kind taint key content tokens w =
     (let rendered = content_text content in
      case on_write_as origin w name rendered tokens kind None of
        Inl e \<Rightarrow> (w, Inl e)
      | Inr (text, t, ovr) \<Rightarrow>
          let c = (if text = rendered then content else rewritten content text)
          in write_to_region name t (typed_insert now key taint c t kind ovr) w)"

definition add_turn :: "int \<Rightarrow> string \<Rightarrow> entry_kind \<Rightarrow> entry_content \<Rightarrow> nat \<Rightarrow> string option \<Rightarrow>
    window \<Rightarrow> window \<times> (core_error + unit)" where
  "add_turn now name kind content tokens reasoning w =
     (case typed_write_keyed now System name kind None None content tokens w of
        (w', Inl e) \<Rightarrow> (w', Inl e)
      | (w', Inr _) \<Rightarrow>
          (case region_index w' name of
             None \<Rightarrow> (w', Inr ())
           | Some i \<Rightarrow> (set_region i (set_last_reasoning reasoning (w_regions w' ! i)) w', Inr ())))"

definition add_tainted_to_region :: "int \<Rightarrow> string \<Rightarrow> string \<Rightarrow> nat \<Rightarrow> taint_level \<Rightarrow> window \<Rightarrow>
    window \<times> (core_error + keyed_write)" where
  "add_tainted_to_region now name content tokens lvl w =
     typed_write_keyed now System name Text (Some lvl) None (text_content content) tokens w"

definition key_last_entry :: "string \<Rightarrow> string option \<Rightarrow> window \<Rightarrow> window" where
  "key_last_entry name key w =
     (case (key, region_index w name) of
        (Some k, Some i) \<Rightarrow>
          let r = w_regions w ! i in
          if r_content r \<noteq> [] \<and> e_key (last (r_content r)) = None
          then set_region i (set_last_key (Some k) r) w else w
      | _ \<Rightarrow> w)"

definition window_stored_parts :: "window \<Rightarrow> part list" where
  "window_stored_parts w =
     concat (map (\<lambda>e. stored_parts (e_content e)) (concat (map r_content (w_regions w))))"

text \<open>
  \<open>find_stored_part\<close> reverses the entries, not the parts inside one: the newest entry,
  its first matching part.
\<close>

definition find_stored_part :: "string \<Rightarrow> window \<Rightarrow> part option" where
  "find_stored_part needle w =
     find (\<lambda>p. is_named p needle)
       (concat (map (\<lambda>e. stored_parts (e_content e))
          (rev (concat (map r_content (w_regions w))))))"

end
