(* ===== verification/Window_Evict.thy ===== *)
theory Window_Evict
  imports Window
begin

text \<open>
  The eviction cascade, \<open>components/context_window/eviction.rs\<close>: clear the clearable
  regions, let custom regions choose, roll off the temporary ones, and say what is left to
  compact. Each phase walks the regions the eviction order names, then the rest. A phase
  returns the window and whether it ended the cascade. \<open>sheds\<close> is what one region may
  lose; the locale \<open>region_evictor\<close> lifts it from a step on a region to the window.
\<close>

record eviction_result =
  er_tokens_freed :: nat
  er_needs_compaction :: "string list"

fun named_turns :: "window \<Rightarrow> string list \<Rightarrow> nat list \<Rightarrow> nat list" where
  "named_turns w [] named = named"
| "named_turns w (name # names) named =
     named_turns w names
       (case region_index w name of
          Some i \<Rightarrow> if i \<in> set named then named else named @ [i]
        | None \<Rightarrow> named)"

definition eviction_turns :: "window \<Rightarrow> nat list \<times> nat list" where
  "eviction_turns w =
     (let named = named_turns w (w_eviction_order w) []
      in (named, filter (\<lambda>i. i \<notin> set named) [0..<length (w_regions w)]))"

definition free_tokens :: "window \<Rightarrow> nat" where
  "free_tokens w = saturating_sub (w_max_tokens w) (w_current_tokens w)"

definition target_met :: "nat \<Rightarrow> window \<Rightarrow> bool" where
  "target_met t w = (t \<le> free_tokens w)"

text \<open>Storing a region back and giving its tokens back to the window.\<close>

definition give_back :: "nat \<Rightarrow> region \<Rightarrow> nat \<Rightarrow> window \<Rightarrow> window" where
  "give_back i r freed w =
     (set_region i r w)\<lparr>w_current_tokens := w_current_tokens w - freed\<rparr>"

subsection \<open>The phases\<close>

definition clears :: "region \<Rightarrow> bool" where
  "clears r = (r_kind r = Clearable \<and> r_admission r \<noteq> Reject \<and> r_content r \<noteq> [])"

fun clear_phase :: "nat \<Rightarrow> nat list \<Rightarrow> window \<Rightarrow> window \<times> bool" where
  "clear_phase t [] w = (w, False)"
| "clear_phase t (i # is) w =
     (if clears (w_regions w ! i) then
        let (freed, r') = evict_all (w_regions w ! i); w' = give_back i r' freed w
        in if target_met t w' then (w', True) else clear_phase t is w'
      else clear_phase t is w)"

definition unpinned_custom :: "region \<Rightarrow> bool" where
  "unpinned_custom r = (case r_kind r of Custom _ pinned \<Rightarrow> \<not> pinned | _ \<Rightarrow> False)"

definition overflow_asked :: "window \<Rightarrow> nat \<Rightarrow> (region \<Rightarrow> nat \<Rightarrow> string + json) option" where
  "overflow_asked w i =
     (let r = w_regions w ! i in
      if \<not> unpinned_custom r \<or> r_admission r = Reject \<or> r_content r = [] then None
      else Option.bind (custom_script_for w (r_name r)) on_overflow_hook)"

fun overflow_phase :: "nat \<Rightarrow> nat list \<Rightarrow> nat \<Rightarrow> window \<Rightarrow> window \<times> nat" where
  "overflow_phase t [] custom_freed w = (w, custom_freed)"
| "overflow_phase t (i # is) custom_freed w =
     (let needed = saturating_sub t (free_tokens w) in
      if needed = 0 then (w, custom_freed)
      else
        (case overflow_asked w i of
           None \<Rightarrow> overflow_phase t is custom_freed w
         | Some hook \<Rightarrow>
             let (freed, r') = apply_overflow hook needed (w_regions w ! i)
             in overflow_phase t is (custom_freed + freed) (give_back i r' freed w)))"

definition gives_oldest :: "region \<Rightarrow> bool" where
  "gives_oldest r = ((r_kind r = Temporary \<or> unpinned_custom r) \<and> r_admission r \<noteq> Reject)"

text \<open>One named region, emptied entry by entry until the target is met.\<close>

function roll_region :: "nat \<Rightarrow> nat \<Rightarrow> window \<Rightarrow> window \<times> bool" where
  "roll_region t i w =
     (case remove_oldest (w_regions w ! i) of
        None \<Rightarrow> (w, False)
      | Some (e, r') \<Rightarrow>
          if length (w_regions w) \<le> i then (w, False)
          else let w' = give_back i r' (e_tokens e) w in
               if target_met t w' then (w', True) else roll_region t i w')"
  by pat_completeness auto
termination
  by (relation "measure (\<lambda>(t, i, w). length (r_content (w_regions w ! i)))")
    (auto simp: give_back_def set_region_def dest: remove_oldest_evicts(2))

declare roll_region.simps [simp del]

fun named_phase :: "nat \<Rightarrow> nat list \<Rightarrow> window \<Rightarrow> window \<times> bool" where
  "named_phase t [] w = (w, False)"
| "named_phase t (i # is) w =
     (if \<not> gives_oldest (w_regions w ! i) then named_phase t is w
      else (case roll_region t i w of
              (w', True) \<Rightarrow> (w', True)
            | (w', False) \<Rightarrow> named_phase t is w'))"

text \<open>One round over the rest: at most one entry each. Also whether anything went.\<close>

fun rest_round :: "nat \<Rightarrow> nat list \<Rightarrow> bool \<Rightarrow> window \<Rightarrow> window \<times> bool \<times> bool" where
  "rest_round t [] evicted w = (w, evicted, False)"
| "rest_round t (i # is) evicted w =
     (case (if gives_oldest (w_regions w ! i) then remove_oldest (w_regions w ! i) else None) of
        None \<Rightarrow> rest_round t is evicted w
      | Some (e, r') \<Rightarrow>
          let w' = give_back i r' (e_tokens e) w in
          if target_met t w' then (w', True, True) else rest_round t is True w')"

definition total_entries :: "window \<Rightarrow> nat" where
  "total_entries w = sum_list (map (\<lambda>r. length (r_content r)) (w_regions w))"

lemma total_entries_give_back:
  assumes "i < length (w_regions w)"
    and "length (r_content r') < length (r_content (w_regions w ! i))"
  shows "total_entries (give_back i r' freed w) < total_entries w"
proof -
  let ?n = "\<lambda>r. length (r_content r)"
  have "sum_list (map ?n ((w_regions w)[i := r'])) + ?n (w_regions w ! i) =
      sum_list (map ?n (w_regions w)) + ?n r'"
    by (rule sum_list_update_nat [OF assms(1)])
  with assms(2) show ?thesis by (simp add: total_entries_def give_back_def set_region_def)
qed

lemma rest_round_entries:
  "rest_round t is ev w = (w', ev', met) \<Longrightarrow> \<forall>i \<in> set is. i < length (w_regions w) \<Longrightarrow>
   total_entries w' \<le> total_entries w \<and> length (w_regions w') = length (w_regions w) \<and>
   (ev' \<and> \<not> ev \<longrightarrow> total_entries w' < total_entries w)"
proof (induction t "is" ev w rule: rest_round.induct)
  case (2 t i "is" ev w)
  let ?o = "if gives_oldest (w_regions w ! i) then remove_oldest (w_regions w ! i) else None"
  show ?case
  proof (cases ?o)
    case None
    then show ?thesis using "2.prems" "2.IH"(1) [OF None] by simp
  next
    case (Some p)
    obtain e r' where p: "p = (e, r')" by (cases p)
    let ?w = "give_back i r' (e_tokens e) w"
    have ro: "remove_oldest (w_regions w ! i) = Some (e, r')"
      using Some p by (simp split: if_splits)
    have lt: "total_entries ?w < total_entries w"
      using total_entries_give_back [of i w r'] remove_oldest_evicts(2) [OF ro] "2.prems"(2)
      by simp
    have len: "length (w_regions ?w) = length (w_regions w)"
      by (simp add: give_back_def set_region_def)
    show ?thesis
    proof (cases "target_met t ?w")
      case True
      then show ?thesis using "2.prems"(1) Some p lt len by auto
    next
      case False
      with "2.prems"(1) Some p have "rest_round t is True ?w = (w', ev', met)" by simp
      from "2.IH"(2) [OF Some p [symmetric] refl False this] "2.prems"(2) len lt
      show ?thesis by auto
    qed
  qed
qed simp

function rest_phase :: "nat \<Rightarrow> nat list \<Rightarrow> window \<Rightarrow> window \<times> bool" where
  "rest_phase t is w =
     (if \<forall>i \<in> set is. i < length (w_regions w) then
        (case rest_round t is False w of
           (w', evicted, met) \<Rightarrow>
             if met then (w', True) else if evicted then rest_phase t is w' else (w', False))
      else (w, False))"
  by pat_completeness auto
termination
  by (relation "measure (\<lambda>(t, is, w). total_entries w)") (auto dest: rest_round_entries [OF sym])

declare rest_phase.simps [simp del]

definition pinned_kind :: "region \<Rightarrow> bool" where
  "pinned_kind r = (case r_kind r of Pinned \<Rightarrow> True | CompactHistory _ \<Rightarrow> True
     | Custom _ pinned \<Rightarrow> pinned | _ \<Rightarrow> False)"

definition pinned_tokens :: "window \<Rightarrow> nat" where
  "pinned_tokens w = sum_list (map r_current_tokens (filter pinned_kind (w_regions w)))"

definition freed_result :: "nat \<Rightarrow> window \<Rightarrow> string list \<Rightarrow> eviction_result" where
  "freed_result initial w cs =
     \<lparr>er_tokens_freed = initial - w_current_tokens w, er_needs_compaction = cs\<rparr>"

text \<open>Phase 3 and the pinned check, when nothing before ended the cascade.\<close>

definition last_phase :: "nat \<Rightarrow> nat \<Rightarrow> window \<Rightarrow> core_error + eviction_result" where
  "last_phase t initial w =
     (let cs = (if free_tokens w < t
                then map r_name (filter needs_compaction (w_regions w)) else [])
      in if w_max_tokens w < pinned_tokens w
         then Inl (PinnedRegionsOverBudget (pinned_tokens w) (w_max_tokens w))
         else Inr (freed_result initial w cs))"

definition try_evict :: "nat \<Rightarrow> window \<Rightarrow> window \<times> (core_error + eviction_result)" where
  "try_evict t w =
     (let initial = w_current_tokens w; (named, rest) = eviction_turns w in
      case clear_phase t (named @ rest) w of
        (w1, True) \<Rightarrow> (w1, Inr (freed_result initial w1 []))
      | (w1, False) \<Rightarrow>
          (case overflow_phase t (named @ rest) 0 w1 of
             (w2, custom_freed) \<Rightarrow>
               if 0 < custom_freed \<and> target_met t w2
               then (w2, Inr (freed_result initial w2 []))
               else
                 (case named_phase t named w2 of
                    (w3, True) \<Rightarrow> (w3, Inr (freed_result initial w3 []))
                  | (w3, False) \<Rightarrow>
                      (case rest_phase t rest w3 of
                         (w4, True) \<Rightarrow> (w4, Inr (freed_result initial w4 []))
                       | (w4, False) \<Rightarrow> (w4, last_phase t initial w4)))))"

end
