(* ===== verification/Window_Inv.thy ===== *)
theory Window_Inv
  imports Window_Evict
begin

text \<open>
  What the eviction cascade may do to a window, as one relation: \<open>window_moves R I\<close> says
  that regions keep their places and settings, that each moved by \<open>R\<close>, that only evictable
  regions with a position in \<open>I\<close> moved at all, and that the window's count stays the sum
  of its regions' counts. The locale \<open>region_shedder\<close> lifts a step on one region to it.
\<close>

subsection \<open>What a region may lose\<close>

definition sheds :: "region \<Rightarrow> region \<Rightarrow> bool" where
  "sheds r r' \<longleftrightarrow> region_config r' = region_config r \<and>
     subseq (r_content r') (r_content r) \<and> (counted r \<longrightarrow> counted r')"

lemma sheds_refl [simp]: "sheds r r"
  by (simp add: sheds_def)

lemma sheds_trans: "sheds r s \<Longrightarrow> sheds s t \<Longrightarrow> sheds r t"
  unfolding sheds_def by (auto intro: subseq_order.trans)

lemma evicts_sheds: "evicts r r' \<Longrightarrow> sheds r r'"
  by (simp add: sheds_def evicts_def)

lemma drop_indices_spec:
  "drop_indices is es freed = (es', freed') \<Longrightarrow> sorted_wrt (>) is \<Longrightarrow>
   \<forall>i \<in> set is. i < length es \<Longrightarrow>
   subseq es' es \<and> freed' + entry_tokens es' = freed + entry_tokens es"
proof (induction "is" es freed rule: drop_indices.induct)
  case (2 i "is" es freed)
  have i: "i < length es" using "2.prems"(3) by simp
  have "\<forall>j \<in> set is. j < length (remove_nth i es)"
    using "2.prems"(2) i by (auto simp: length_remove_nth)
  with 2 have "subseq es' (remove_nth i es) \<and>
      freed' + entry_tokens es' = freed + e_tokens (es ! i) + entry_tokens (remove_nth i es)"
    by simp
  with entry_tokens_remove_nth [OF i] show ?case
    by (auto intro: subseq_order.trans [OF _ subseq_remove_nth])
qed simp

lemma all_indices_lt: "all_indices len js = Some is \<Longrightarrow> \<forall>i \<in> set is. i < len"
  by (induction js arbitrary: "is") (auto split: option.splits if_splits)

lemma strict_remdups_adj:
  "sorted xs \<Longrightarrow> sorted_wrt (<) (remdups_adj (xs :: nat list))"
proof (induction xs rule: remdups_adj.induct)
  case (3 x y xs)
  show ?case
  proof (cases "x = y")
    case False
    with "3.prems" have "\<forall>z \<in> set (y # xs). x < z" by auto
    with 3 False show ?thesis by auto
  qed (use 3 in simp)
qed simp_all

lemma valid_drop_indices_spec:
  assumes "valid_drop_indices v len = Some is"
  shows "sorted_wrt (<) is \<and> (\<forall>i \<in> set is. i < len)"
proof -
  obtain js ks where ks: "all_indices len js = Some ks" "is = remdups_adj (sort ks)"
    using assms by (auto simp: valid_drop_indices_def split: json.splits)
  have "sorted_wrt (<) (remdups_adj (sort ks))" by (rule strict_remdups_adj) simp
  with ks all_indices_lt [OF ks(1)] show ?thesis by simp
qed

lemma apply_overflow_cases:
  assumes "apply_overflow hook needed r = (freed, r')"
  shows "freed = 0 \<and> r' = r \<or>
    (\<exists>v is es. valid_drop_indices v (length (r_content r)) = Some is \<and>
       drop_indices (rev is) (r_content r) 0 = (es, freed) \<and>
       r' = r\<lparr>r_content := es, r_current_tokens := r_current_tokens r - freed\<rparr>)"
proof (cases "hook r needed")
  case (Inr v)
  show ?thesis
  proof (cases "valid_drop_indices v (length (r_content r))")
    case (Some "is")
    obtain es n where "drop_indices (rev is) (r_content r) 0 = (es, n)" by fastforce
    with Inr Some assms show ?thesis by (auto simp: apply_overflow_def)
  qed (use Inr assms in \<open>simp add: apply_overflow_def\<close>)
qed (use assms in \<open>simp add: apply_overflow_def\<close>)

lemma apply_overflow_sheds:
  assumes "apply_overflow hook needed r = (freed, r')"
  shows "sheds r r' \<and> (counted r \<longrightarrow> freed + r_current_tokens r' = r_current_tokens r)"
proof -
  from apply_overflow_cases [OF assms] consider "freed = 0" "r' = r"
    | v "is" es where "valid_drop_indices v (length (r_content r)) = Some is"
      "drop_indices (rev is) (r_content r) 0 = (es, freed)"
      "r' = r\<lparr>r_content := es, r_current_tokens := r_current_tokens r - freed\<rparr>" by blast
  then show ?thesis
  proof cases
    case 2
    from valid_drop_indices_spec [OF 2(1)] have
      "sorted_wrt (>) (rev is)" "\<forall>i \<in> set (rev is). i < length (r_content r)"
      by (simp_all add: sorted_wrt_rev)
    from drop_indices_spec [OF 2(2) this] 2(3) show ?thesis
      by (auto simp: sheds_def region_config_def counted_def)
  qed simp
qed

subsection \<open>What a window may lose\<close>

definition window_ok :: "window \<Rightarrow> bool" where
  "window_ok w \<longleftrightarrow> (\<forall>r \<in> set (w_regions w). counted r) \<and> w_current_tokens w = calculate_tokens w"

definition window_moves :: "(region \<Rightarrow> region \<Rightarrow> bool) \<Rightarrow> nat set \<Rightarrow> window \<Rightarrow> window \<Rightarrow> bool" where
  "window_moves R I w w' \<longleftrightarrow>
     w' = w\<lparr>w_regions := w_regions w', w_current_tokens := w_current_tokens w'\<rparr> \<and>
     list_all2 R (w_regions w) (w_regions w') \<and>
     (\<forall>i < length (w_regions w). i \<notin> I \<or> \<not> evictable (w_regions w ! i) \<longrightarrow>
        w_regions w' ! i = w_regions w ! i) \<and>
     (window_ok w \<longrightarrow> window_ok w' \<and> w_current_tokens w' \<le> w_current_tokens w)"

lemma window_moves_refl: "(\<And>r. R r r) \<Longrightarrow> window_moves R I w w"
  by (simp add: window_moves_def list_all2_refl)

lemma window_moves_length: "window_moves R I w w' \<Longrightarrow> length (w_regions w') = length (w_regions w)"
  by (auto simp: window_moves_def dest: list_all2_lengthD)

lemma window_moves_nth:
  "window_moves R I w w' \<Longrightarrow> i < length (w_regions w) \<Longrightarrow> R (w_regions w ! i) (w_regions w' ! i)"
  by (auto simp: window_moves_def dest: list_all2_nthD)

lemma window_moves_outside:
  "window_moves R I w w' \<Longrightarrow> i < length (w_regions w) \<Longrightarrow> i \<notin> I \<Longrightarrow>
   w_regions w' ! i = w_regions w ! i"
  by (simp add: window_moves_def)

lemma window_moves_frame:
  assumes "window_moves R I w w'"
  shows "w_max_tokens w' = w_max_tokens w" "w_scripts w' = w_scripts w"
    "w_hidden w' = w_hidden w" "w_eviction_order w' = w_eviction_order w"
proof -
  have w': "w' = w\<lparr>w_regions := w_regions w', w_current_tokens := w_current_tokens w'\<rparr>"
    using assms by (simp add: window_moves_def)
  show "w_max_tokens w' = w_max_tokens w" "w_scripts w' = w_scripts w"
    "w_hidden w' = w_hidden w" "w_eviction_order w' = w_eviction_order w"
    by (subst w', simp)+
qed

lemma evictable_config:
  assumes "region_config r' = region_config r"
  shows "evictable r' = evictable r" "gives_oldest r' = gives_oldest r"
    "unpinned_custom r' = unpinned_custom r" "pinned_kind r' = pinned_kind r"
  using region_config_same(2,5) [OF assms]
  by (simp_all add: evictable_def gives_oldest_def unpinned_custom_def pinned_kind_def)

lemma window_moves_trans:
  assumes conf: "\<And>r r'. R r r' \<Longrightarrow> region_config r' = region_config r"
    and trans: "\<And>r s t. R r s \<Longrightarrow> R s t \<Longrightarrow> R r t"
    and ab: "window_moves R I a b" and bc: "window_moves R I b c"
  shows "window_moves R I a c"
proof -
  have "list_all2 R (w_regions a) (w_regions c)"
    using ab bc list_all2_trans [of R R R, OF trans] by (auto simp: window_moves_def)
  moreover have "w_regions c ! i = w_regions a ! i"
    if "i < length (w_regions a)" "i \<notin> I \<or> \<not> evictable (w_regions a ! i)" for i
  proof -
    have b: "w_regions b ! i = w_regions a ! i" using ab that by (simp add: window_moves_def)
    moreover have "i < length (w_regions b)" using window_moves_length [OF ab] that by simp
    ultimately show ?thesis using bc that by (auto simp: window_moves_def)
  qed
  moreover have "c = a\<lparr>w_regions := w_regions c, w_current_tokens := w_current_tokens c\<rparr>"
    using window_moves_frame [OF ab] window_moves_frame [OF bc]
    by (cases a; cases c) simp
  ultimately show ?thesis using ab bc by (auto simp: window_moves_def)
qed

lemma window_moves_mono:
  "window_moves R I w w' \<Longrightarrow> (\<And>r r'. R r r' \<Longrightarrow> S r r') \<Longrightarrow> I \<subseteq> J \<Longrightarrow> window_moves S J w w'"
  unfolding window_moves_def by (auto intro: list_all2_mono)

lemma calculate_set_region:
  assumes "i < length (w_regions w)"
  shows "calculate_tokens (set_region i r w) + r_current_tokens (w_regions w ! i) =
         calculate_tokens w + r_current_tokens r"
  using sum_list_update_nat [OF assms, of r_current_tokens r]
  by (simp add: calculate_tokens_def set_region_def)

subsection \<open>From a step on a region to the window\<close>

locale region_shedder =
  fixes R :: "region \<Rightarrow> region \<Rightarrow> bool"
    and step :: "region \<Rightarrow> (nat \<times> region) option"
  assumes shed_config: "R r r' \<Longrightarrow> region_config r' = region_config r"
    and shed_refl: "R r r"
    and shed_trans: "R r s \<Longrightarrow> R s t \<Longrightarrow> R r t"
    and shed_counted: "R r r' \<Longrightarrow> counted r \<Longrightarrow> counted r'"
    and step_evictable: "step r = Some (freed, r') \<Longrightarrow> evictable r"
    and step_sheds: "step r = Some (freed, r') \<Longrightarrow> R r r'"
    and step_frees: "step r = Some (freed, r') \<Longrightarrow> counted r \<Longrightarrow>
      freed + r_current_tokens r' = r_current_tokens r"
begin

lemma moves_trans: "window_moves R I a b \<Longrightarrow> window_moves R I b c \<Longrightarrow> window_moves R I a c"
  by (rule window_moves_trans [where R = R]) (auto intro: shed_config shed_trans)

lemma moves_refl: "window_moves R I w w"
  by (rule window_moves_refl) (rule shed_refl)

lemma give_back_moves:
  assumes "step (w_regions w ! i) = Some (freed, r')" and "i < length (w_regions w)" and "i \<in> I"
  shows "window_moves R I w (give_back i r' freed w)"
proof -
  let ?r = "w_regions w ! i"
  have all: "list_all2 R (w_regions w) ((w_regions w)[i := r'])"
    using step_sheds [OF assms(1)] shed_refl assms(2)
    by (auto simp: list_all2_conv_all_nth nth_list_update)
  have "window_ok (give_back i r' freed w) \<and>
      w_current_tokens (give_back i r' freed w) \<le> w_current_tokens w" if ok: "window_ok w"
  proof -
    have c: "counted ?r" using ok assms(2) by (simp add: window_ok_def)
    have "\<forall>r \<in> set ((w_regions w)[i := r']). counted r"
      using ok shed_counted [OF step_sheds [OF assms(1)] c]
      by (auto simp: window_ok_def dest!: subsetD [OF set_update_subset_insert])
    moreover have "calculate_tokens (set_region i r' w) + freed = calculate_tokens w"
      using calculate_set_region [OF assms(2), of r'] step_frees [OF assms(1) c] by simp
    ultimately show ?thesis using ok
      by (auto simp: window_ok_def give_back_def set_region_def calculate_tokens_def)
  qed
  with all step_evictable [OF assms(1)] assms(2,3) show ?thesis
    by (auto simp: window_moves_def give_back_def set_region_def nth_list_update)
qed

end

definition clear_step :: "region \<Rightarrow> (nat \<times> region) option" where
  "clear_step r = (if clears r then Some (evict_all r) else None)"

definition roll_step :: "region \<Rightarrow> (nat \<times> region) option" where
  "roll_step r = (if gives_oldest r
     then map_option (\<lambda>(e, r'). (e_tokens e, r')) (remove_oldest r) else None)"

definition overflow_step :: "(region \<Rightarrow> nat \<Rightarrow> string + json) \<Rightarrow> nat \<Rightarrow> region \<Rightarrow>
    (nat \<times> region) option" where
  "overflow_step hook needed r =
     (if unpinned_custom r \<and> r_admission r \<noteq> Reject then Some (apply_overflow hook needed r)
      else None)"

lemma evicts_laws:
  "evicts r r' \<Longrightarrow> region_config r' = region_config r"
  "evicts r r" "evicts r s \<Longrightarrow> evicts s t \<Longrightarrow> evicts r t"
  "evicts r r' \<Longrightarrow> counted r \<Longrightarrow> counted r'"
  by (auto simp: evicts_config evicts_counted intro: evicts_trans)

lemma sheds_laws:
  "sheds r r' \<Longrightarrow> region_config r' = region_config r"
  "sheds r r" "sheds r s \<Longrightarrow> sheds s t \<Longrightarrow> sheds r t"
  "sheds r r' \<Longrightarrow> counted r \<Longrightarrow> counted r'"
  by (auto simp: sheds_def intro: subseq_order.trans)

lemma gives_oldest_evictable: "gives_oldest r \<Longrightarrow> evictable r"
  by (auto simp: gives_oldest_def evictable_def unpinned_custom_def split: region_kind.splits)

lemma unpinned_evictable: "unpinned_custom r \<Longrightarrow> r_admission r \<noteq> Reject \<Longrightarrow> evictable r"
  by (auto simp: evictable_def unpinned_custom_def split: region_kind.splits)

lemma clear_step_laws:
  assumes "clear_step r = Some (freed, r')"
  shows "evictable r" "evicts r r'" "counted r \<Longrightarrow> freed + r_current_tokens r' = r_current_tokens r"
  using assms evict_all_evicts [of r] evict_all_freed(1) [of r]
  by (auto simp: clear_step_def clears_def evictable_def split: if_splits)

lemma roll_step_laws:
  assumes "roll_step r = Some (freed, r')"
  shows "evictable r" "evicts r r'" "counted r \<Longrightarrow> freed + r_current_tokens r' = r_current_tokens r"
proof -
  from assms obtain e where "gives_oldest r" "remove_oldest r = Some (e, r')" "freed = e_tokens e"
    by (auto simp: roll_step_def split: if_splits)
  with gives_oldest_evictable remove_oldest_evicts [of r e r']
  show "evictable r" "evicts r r'" "counted r \<Longrightarrow> freed + r_current_tokens r' = r_current_tokens r"
    by simp_all
qed

lemma overflow_step_laws:
  assumes "overflow_step hook needed r = Some (freed, r')"
  shows "evictable r" "sheds r r'" "counted r \<Longrightarrow> freed + r_current_tokens r' = r_current_tokens r"
  using assms unpinned_evictable [of r] apply_overflow_sheds [of hook needed r freed r']
  by (auto simp: overflow_step_def split: if_splits)

interpretation clearing: region_shedder evicts clear_step
  by unfold_locales (fact evicts_laws, fact evicts_laws, rule evicts_laws, assumption+, rule evicts_laws,
    assumption+, (erule clear_step_laws, assumption?)+)

interpretation rolling: region_shedder evicts roll_step
  by unfold_locales (fact evicts_laws, fact evicts_laws, rule evicts_laws, assumption+, rule evicts_laws,
    assumption+, (erule roll_step_laws, assumption?)+)

interpretation choosing: region_shedder sheds "overflow_step hook needed" for hook needed
  by unfold_locales (fact sheds_laws, fact sheds_laws, rule sheds_laws, assumption+, rule sheds_laws,
    assumption+, (erule overflow_step_laws, assumption?)+)

end
