(* ===== verification/Window_Cascade.thy ===== *)
theory Window_Cascade
  imports Window_Inv
begin

text \<open>
  The eviction cascade phase by phase: what each moves, what each leaves when it does not
  meet the target, and what that makes of \<open>try_evict\<close> as a whole.
\<close>

lemmas moves_evicts_trans = clearing.moves_trans
lemmas moves_evicts_refl = clearing.moves_refl

lemma evicts_moves_sheds: "window_moves evicts I w w' \<Longrightarrow> window_moves sheds I w w'"
  by (rule window_moves_mono [OF _ evicts_sheds order.refl])

subsection \<open>What each phase moves\<close>

lemma clear_phase_moves:
  "clear_phase t is w = (w', met) \<Longrightarrow> set is \<subseteq> I \<Longrightarrow> \<forall>i \<in> I. i < length (w_regions w) \<Longrightarrow>
   window_moves evicts I w w' \<and> (met \<longrightarrow> target_met t w')"
proof (induction t "is" w rule: clear_phase.induct)
  case (2 t i "is" w)
  show ?case
  proof (cases "clears (w_regions w ! i)")
    case True
    obtain freed r' where ev: "evict_all (w_regions w ! i) = (freed, r')" by fastforce
    let ?w = "give_back i r' freed w"
    have "clear_step (w_regions w ! i) = Some (freed, r')" using True ev by (simp add: clear_step_def)
    then have mv: "window_moves evicts I w ?w"
      by (rule clearing.give_back_moves) (use "2.prems" in auto)
    show ?thesis
    proof (cases "target_met t ?w")
      case True
      then show ?thesis using "2.prems"(1) \<open>clears _\<close> ev mv by (auto simp: Let_def)
    next
      case False
      with "2.prems"(1) True ev have "clear_phase t is ?w = (w', met)" by (simp add: Let_def)
      from "2.IH"(1) [OF True ev [symmetric] refl refl False this] "2.prems"(2,3)
        window_moves_length [OF mv] moves_evicts_trans [OF mv]
      show ?thesis by auto
    qed
  next
    case False
    with 2 show ?thesis by simp
  qed
qed (simp add: moves_evicts_refl)

lemma roll_region_moves:
  "roll_region t i w = (w', met) \<Longrightarrow> gives_oldest (w_regions w ! i) \<Longrightarrow> i \<in> I \<Longrightarrow>
   i < length (w_regions w) \<Longrightarrow>
   window_moves evicts I w w' \<and> (if met then target_met t w' else remove_oldest (w_regions w' ! i) = None)"
proof (induction t i w rule: roll_region.induct)
  case (1 t i w)
  show ?case
  proof (cases "remove_oldest (w_regions w ! i)")
    case None
    with "1.prems" show ?thesis
      by (subst (asm) roll_region.simps) (auto simp: moves_evicts_refl)
  next
    case (Some p)
    obtain e r' where p: "p = (e, r')" by (cases p)
    let ?w = "give_back i r' (e_tokens e) w"
    have st: "roll_step (w_regions w ! i) = Some (e_tokens e, r')"
      using Some p "1.prems"(2) by (simp add: roll_step_def)
    have mv: "window_moves evicts I w ?w"
      by (rule rolling.give_back_moves [OF st]) (use "1.prems" in auto)
    have len: "\<not> length (w_regions w) \<le> i" using "1.prems"(4) by simp
    show ?thesis
    proof (cases "target_met t ?w")
      case True
      then show ?thesis using "1.prems"(1) Some p mv len
        by (subst (asm) roll_region.simps) auto
    next
      case False
      with "1.prems"(1) Some p len have run: "roll_region t i ?w = (w', met)"
        by (subst (asm) roll_region.simps) simp
      have "gives_oldest (w_regions ?w ! i)"
        using evictable_config(2) [OF evicts_config [OF window_moves_nth [OF mv "1.prems"(4)]]]
          "1.prems"(2) by simp
      from "1.IH" [OF Some p [symmetric] len refl False run this "1.prems"(3)] "1.prems"(4)
        window_moves_length [OF mv] moves_evicts_trans [OF mv]
      show ?thesis by auto
    qed
  qed
qed

lemma named_phase_moves:
  "named_phase t is w = (w', met) \<Longrightarrow> set is \<subseteq> I \<Longrightarrow> \<forall>i \<in> I. i < length (w_regions w) \<Longrightarrow>
   window_moves evicts I w w' \<and> (met \<longrightarrow> target_met t w')"
proof (induction t "is" w rule: named_phase.induct)
  case (2 t i "is" w)
  show ?case
  proof (cases "gives_oldest (w_regions w ! i)")
    case True
    obtain w1 b where run: "roll_region t i w = (w1, b)" by fastforce
    from roll_region_moves [OF run True, of I] "2.prems"(2,3)
    have mv: "window_moves evicts I w w1" and b: "b \<Longrightarrow> target_met t w1" by auto
    show ?thesis
    proof (cases b)
      case True
      then show ?thesis using "2.prems"(1) \<open>gives_oldest _\<close> run mv b by simp
    next
      case False
      have "\<not> \<not> gives_oldest (w_regions w ! i)" using True by simp
      from "2.IH"(2) [OF this run [symmetric]] False "2.prems" True run
        window_moves_length [OF mv] moves_evicts_trans [OF mv]
      show ?thesis by auto
    qed
  next
    case False
    with 2 show ?thesis by simp
  qed
qed (simp add: moves_evicts_refl)

lemma rest_round_moves:
  "rest_round t is ev w = (w', ev', met) \<Longrightarrow> set is \<subseteq> I \<Longrightarrow> \<forall>i \<in> I. i < length (w_regions w) \<Longrightarrow>
   window_moves evicts I w w' \<and> (met \<longrightarrow> target_met t w') \<and> (ev \<longrightarrow> ev') \<and>
   (\<not> ev' \<longrightarrow> w' = w \<and> (\<forall>i \<in> set is. gives_oldest (w_regions w ! i) \<longrightarrow>
      remove_oldest (w_regions w ! i) = None))"
proof (induction t "is" ev w rule: rest_round.induct)
  case (2 t i "is" ev w)
  let ?o = "if gives_oldest (w_regions w ! i) then remove_oldest (w_regions w ! i) else None"
  show ?case
  proof (cases ?o)
    case None
    with "2.IH"(1) [OF None] "2.prems" show ?thesis by (auto split: if_splits)
  next
    case (Some p)
    obtain e r' where p: "p = (e, r')" by (cases p)
    let ?w = "give_back i r' (e_tokens e) w"
    have st: "roll_step (w_regions w ! i) = Some (e_tokens e, r')"
      using Some p by (simp add: roll_step_def split: if_splits)
    have mv: "window_moves evicts I w ?w"
      by (rule rolling.give_back_moves [OF st]) (use "2.prems" in auto)
    show ?thesis
    proof (cases "target_met t ?w")
      case True
      then show ?thesis using "2.prems"(1) Some p mv by auto
    next
      case False
      with "2.prems"(1) Some p have "rest_round t is True ?w = (w', ev', met)" by simp
      from "2.IH"(2) [OF Some p [symmetric] refl False this] "2.prems"(2,3)
        window_moves_length [OF mv] moves_evicts_trans [OF mv]
      show ?thesis by auto
    qed
  qed
qed (simp add: moves_evicts_refl)

lemma rest_phase_moves:
  "rest_phase t is w = (w', met) \<Longrightarrow> set is \<subseteq> I \<Longrightarrow> \<forall>i \<in> I. i < length (w_regions w) \<Longrightarrow>
   window_moves evicts I w w' \<and> (if met then target_met t w' else
     \<forall>i \<in> set is. gives_oldest (w_regions w' ! i) \<longrightarrow> remove_oldest (w_regions w' ! i) = None)"
proof (induction t "is" w rule: rest_phase.induct)
  case (1 t "is" w)
  have rng: "\<forall>i \<in> set is. i < length (w_regions w)" using "1.prems" by auto
  obtain w1 ev m where run: "rest_round t is False w = (w1, ev, m)" by (metis prod_cases3)
  from rest_round_moves [OF run "1.prems"(2,3)]
  have mv: "window_moves evicts I w w1" and m: "m \<Longrightarrow> target_met t w1"
    and stop: "\<not> ev \<Longrightarrow> w1 = w \<and> (\<forall>i \<in> set is. gives_oldest (w_regions w ! i) \<longrightarrow>
      remove_oldest (w_regions w ! i) = None)" by auto
  show ?case
  proof (cases "m \<or> \<not> ev")
    case True
    with "1.prems"(1) rng run have "w1 = w' \<and> met = m"
      by (subst (asm) rest_phase.simps) (auto split: if_splits)
    with True mv m stop show ?thesis by auto
  next
    case False
    with "1.prems"(1) rng run have nxt: "rest_phase t is w1 = (w', met)"
      by (subst (asm) rest_phase.simps) auto
    from False have nm: "\<not> m" and e: "ev" by auto
    from "1.IH" [OF rng run [symmetric] refl nm e nxt "1.prems"(2)] "1.prems"(3)
      window_moves_length [OF mv] moves_evicts_trans [OF mv]
    show ?thesis by auto
  qed
qed

lemma overflow_phase_moves:
  "overflow_phase t is n w = (w', n') \<Longrightarrow> set is \<subseteq> I \<Longrightarrow> \<forall>i \<in> I. i < length (w_regions w) \<Longrightarrow>
   window_moves sheds I w w'"
proof (induction t "is" n w rule: overflow_phase.induct)
  case (2 t i "is" n w)
  let ?need = "saturating_sub t (free_tokens w)"
  show ?case
  proof (cases "?need = 0")
    case True
    with "2.prems" show ?thesis by (auto simp: window_moves_refl)
  next
    case False
    show ?thesis
    proof (cases "overflow_asked w i")
      case None
      with "2.IH"(1) [OF refl False None] "2.prems" False show ?thesis by simp
    next
      case (Some hook)
      obtain freed r' where ap: "apply_overflow hook ?need (w_regions w ! i) = (freed, r')"
        by fastforce
      let ?w = "give_back i r' freed w"
      have st: "overflow_step hook ?need (w_regions w ! i) = Some (freed, r')"
        using Some ap by (auto simp: overflow_step_def overflow_asked_def Let_def split: if_splits)
      have mv: "window_moves sheds I w ?w"
        by (rule choosing.give_back_moves [OF st]) (use "2.prems" in auto)
      from "2.prems"(1) False Some ap
      have "overflow_phase t is (n + freed) ?w = (w', n')" by simp
      from "2.IH"(2) [OF refl False Some ap [symmetric] refl this] "2.prems"(2,3)
        window_moves_length [OF mv] choosing.moves_trans [OF mv]
      show ?thesis by auto
    qed
  qed
qed (simp add: window_moves_refl)

text \<open>With no overflow hook the phase does nothing.\<close>

definition no_overflow_hooks :: "window \<Rightarrow> bool" where
  "no_overflow_hooks w \<longleftrightarrow>
     (\<forall>p s. w_scripts w p = Some s \<longrightarrow> on_overflow_hook s = None)"

lemma custom_script_registered:
  "custom_script_for w name = Some s \<Longrightarrow> \<exists>p. w_scripts w p = Some s"
  by (auto simp: custom_script_for_def split: option.splits region_kind.splits)

lemma overflow_asked_None: "no_overflow_hooks w \<Longrightarrow> overflow_asked w i = None"
  using custom_script_registered [of w "r_name (w_regions w ! i)"]
  by (cases "custom_script_for w (r_name (w_regions w ! i))")
    (auto simp: overflow_asked_def no_overflow_hooks_def Let_def)

lemma overflow_phase_idle: "no_overflow_hooks w \<Longrightarrow> overflow_phase t is n w = (w, n)"
  by (induction "is") (simp_all add: overflow_asked_None)

subsection \<open>What is left when a phase falls short\<close>

definition cleared :: "region \<Rightarrow> bool" where
  "cleared r = (\<forall>e \<in> set (r_content r). e_sticky e)"

lemma sheds_cleared: "sheds r r' \<Longrightarrow> cleared r \<Longrightarrow> cleared r'"
  by (auto simp: sheds_def cleared_def dest: subseq_set)

definition clearable :: "region \<Rightarrow> bool" where
  "clearable r = (r_kind r = Clearable \<and> r_admission r \<noteq> Reject)"

lemma clearable_sheds: "sheds r r' \<Longrightarrow> clearable r' = clearable r"
  using region_config_same(2,5) [of r' r] by (simp add: sheds_def clearable_def)

lemma clear_phase_cleared:
  "clear_phase t is w = (w', False) \<Longrightarrow> \<forall>i \<in> set is. i < length (w_regions w) \<Longrightarrow>
   \<forall>i \<in> set is. clearable (w_regions w ! i) \<longrightarrow> cleared (w_regions w' ! i)"
proof (induction t "is" w rule: clear_phase.induct)
  case (2 t i "is" w)
  show ?case
  proof (cases "clears (w_regions w ! i)")
    case True
    obtain freed r' where ev: "evict_all (w_regions w ! i) = (freed, r')" by fastforce
    let ?w = "give_back i r' freed w"
    have st: "clear_step (w_regions w ! i) = Some (freed, r')"
      using True ev by (simp add: clear_step_def)
    have mv: "window_moves evicts {i} w ?w"
      by (rule clearing.give_back_moves [OF st]) (use "2.prems" in auto)
    have nt: "\<not> target_met t ?w" and run: "clear_phase t is ?w = (w', False)"
      using "2.prems"(1) True ev by (auto simp: Let_def split: if_splits)
    have len: "length (w_regions ?w) = length (w_regions w)" by (rule window_moves_length [OF mv])
    have mv': "window_moves evicts (set is) ?w w'"
      using clear_phase_moves [OF run, of "set is"] "2.prems"(2) len by auto
    have i: "i < length (w_regions ?w)" using "2.prems"(2) len by simp
    have "cleared r'" using evict_all_content [of "w_regions w ! i"] ev by (auto simp: cleared_def)
    moreover have "w_regions ?w ! i = r'" using i len by (simp add: give_back_def set_region_def)
    ultimately have "cleared (w_regions w' ! i)"
      using sheds_cleared [OF evicts_sheds [OF window_moves_nth [OF mv' i]]] by simp
    moreover have "clearable (w_regions ?w ! j) = clearable (w_regions w ! j)"
      if "j \<in> set is" for j
      using clearable_sheds [OF evicts_sheds [OF window_moves_nth [OF mv]]] that "2.prems"(2) by simp
    ultimately show ?thesis
      using "2.IH"(1) [OF True ev [symmetric] refl refl nt run] "2.prems"(2) len by auto
  next
    case False
    then have run: "clear_phase t is w = (w', False)" using "2.prems"(1) by simp
    have mv': "window_moves evicts (set is) w w'"
      using clear_phase_moves [OF run, of "set is"] "2.prems"(2) by auto
    have "cleared (w_regions w' ! i)" if "clearable (w_regions w ! i)"
    proof -
      have "cleared (w_regions w ! i)"
        using that False by (simp add: clears_def clearable_def cleared_def)
      then show ?thesis
        using sheds_cleared [OF evicts_sheds [OF window_moves_nth [OF mv']]] "2.prems"(2) by simp
    qed
    with "2.IH"(2) [OF False run] "2.prems"(2) show ?thesis by auto
  qed
qed simp

lemma named_phase_emptied:
  "named_phase t is w = (w', False) \<Longrightarrow> \<forall>i \<in> set is. i < length (w_regions w) \<Longrightarrow> distinct is \<Longrightarrow>
   \<forall>i \<in> set is. gives_oldest (w_regions w ! i) \<longrightarrow> remove_oldest (w_regions w' ! i) = None"
proof (induction t "is" w rule: named_phase.induct)
  case (2 t i "is" w)
  have i: "i < length (w_regions w)" "i \<notin> set is" using "2.prems" by auto
  show ?case
  proof (cases "gives_oldest (w_regions w ! i)")
    case True
    obtain w1 b where run: "roll_region t i w = (w1, b)" by fastforce
    have b: "\<not> b" and nxt: "named_phase t is w1 = (w', False)"
      using "2.prems"(1) True run by (auto split: bool.splits)
    from roll_region_moves [OF run True, of "{i}"] i(1) b
    have mv: "window_moves evicts {i} w w1" and none: "remove_oldest (w_regions w1 ! i) = None"
      by auto
    have len: "length (w_regions w1) = length (w_regions w)" by (rule window_moves_length [OF mv])
    have mv': "window_moves evicts (set is) w1 w'"
      using named_phase_moves [OF nxt, of "set is"] "2.prems"(2) len by auto
    have "w_regions w' ! i = w_regions w1 ! i"
      using window_moves_outside [OF mv', of i] i len by simp
    moreover have "w_regions w1 ! j = w_regions w ! j" if "j \<in> set is" for j
      using window_moves_outside [OF mv, of j] that "2.prems"(2,3) by auto
    moreover have "\<not> \<not> gives_oldest (w_regions w ! i)" using True by simp
    ultimately show ?thesis
      using "2.IH"(2) [OF _ run [symmetric]] b nxt none "2.prems"(2,3) len by auto
  next
    case False
    with 2 show ?thesis by simp
  qed
qed simp

end
