(* ===== verification/Region_Properties.thy ===== *)
theory Region_Properties
  imports Region_Step
begin

text \<open>
  What the regions of \<open>crates/leviath-core/src/region\<close> promise, over the lemmas of the
  component theories, and concrete runs where the code does something else than its
  comments say. \<open>region_step\<close> is one operation on a region; \<open>region_reachable\<close> is any
  sequence of them from an empty region.
\<close>

subsection \<open>Example regions\<close>

definition ex_turn :: "string \<Rightarrow> entry_kind" where
  "ex_turn i = AssistantTurn [\<lparr>call_id = i, call_name = ''read_file'', call_arguments = JNull,
     thought_signature = None\<rparr>]"

definition ex_entry :: "string \<Rightarrow> nat \<Rightarrow> nat \<Rightarrow> entry_kind \<Rightarrow> bool \<Rightarrow> region_entry" where
  "ex_entry s tk sq k st =
     \<lparr>e_content = text_content s, e_tokens = tk, e_timestamp = 0, e_metadata = None,
      e_kind = k, e_key = None, e_reasoning = None, e_seq = sq, e_sticky = st\<rparr>"

text \<open>A conversation: a sticky note, a turn with its result, a later message.\<close>

definition ex_conversation :: region where
  "ex_conversation = (region_new ''conversation'' Temporary 100)
     \<lparr>r_content := [ex_entry ''note'' 10 1 Text True, ex_entry ''call'' 30 2 (ex_turn ''t1'') False,
        ex_entry ''answer'' 30 3 (ToolResult ''t1'' ''read_file'' False) False,
        ex_entry ''next'' 20 4 UserMessage False],
      r_current_tokens := 90\<rparr>"

lemmas region_eval = region_new_def default_evict_to_def ex_conversation_def ex_entry_def
  ex_turn_def is_assistant_turn_def is_tool_result_def

lemma ex_conversation_ok:
  "counted ex_conversation" "within_budget ex_conversation" "taint_aligned ex_conversation"
  "paired (r_content ex_conversation)" "sticky_inv ex_conversation"
  by (simp_all add: region_eval counted_def within_budget_def taint_aligned_def paired_def
      sticky_inv_def sticky_whole_def has_sticky_def)

lemma ex_conversation_inv: "region_inv ex_conversation"
  by (simp add: region_inv_def ex_conversation_ok)

subsection \<open>Turn groups\<close>

text \<open>The specification of rolling off: the first group that may go, goes.\<close>

fun drop_first :: "('a \<Rightarrow> bool) \<Rightarrow> 'a list \<Rightarrow> 'a list option" where
  "drop_first P [] = None"
| "drop_first P (x # xs) = (if P x then Some xs else map_option ((#) x) (drop_first P xs))"

lemma drop_first_split:
  "list_all (\<lambda>x. \<not> P x) ks \<Longrightarrow> P g \<Longrightarrow> drop_first P (ks @ g # gs) = Some (ks @ gs)"
  by (induction ks) auto

lemma drop_first_None: "list_all (\<lambda>x. \<not> P x) xs \<Longrightarrow> drop_first P xs = None"
  by (induction xs) auto

text \<open>
  C22: rolling off the oldest turn. \<open>Region::remove_oldest\<close>, seen on the groups of the
  region (an assistant turn with the tool results behind it, or one other entry), takes
  exactly the first group with no sticky entry, whole, and takes nothing when every group
  holds one. No tool result is left without the turn it answers.
\<close>

theorem remove_oldest_refines_groups:
  assumes "paired (r_content r)"
  shows "map_option (\<lambda>(e, r'). turn_groups (r_content r')) (remove_oldest r) =
         drop_first (\<lambda>g. \<not> has_sticky g) (turn_groups (r_content r))"
proof (cases "remove_oldest r")
  case None
  then show ?thesis
    using remove_oldest_None [of r] drop_first_None [of "\<lambda>g. \<not> has_sticky g"]
    by (auto simp: list_all_iff)
next
  case (Some p)
  obtain e r' where p: "p = (e, r')" by (cases p)
  from remove_oldest_turn_groups [OF Some [unfolded p] assms] obtain ks g gs where
    "turn_groups (r_content r) = ks @ g # gs" "turn_groups (r_content r') = ks @ gs"
    "list_all has_sticky ks" "\<not> has_sticky g" .
  then show ?thesis using Some p by (simp add: drop_first_split)
qed

theorem remove_oldest_refines_groups_witness:
  "paired (r_content ex_conversation) \<and>
   map_option (\<lambda>(e, r'). turn_groups (r_content r')) (remove_oldest ex_conversation) =
     Some [[ex_entry ''note'' 10 1 Text True], [ex_entry ''next'' 20 4 UserMessage False]]"
  using remove_oldest_refines_groups [OF ex_conversation_ok(4)] ex_conversation_ok(4)
  by (simp add: region_eval has_sticky_def)



subsection \<open>The write path\<close>

text \<open>
  C6: the region's invariant. A region that starts empty and goes through any sequence of the
  steps of \<open>region_step\<close> has a token count that is the sum of its entries' tokens, is within
  its budget, and where it tracks taint has a record with one level per entry that reports
  their maximum. The steps are writes, keyed replacements and removals, evictions, checklist
  edits, marks and clears on any region; an upsert, a carried entry and a removal by position
  are steps on a region with no taint record, and an upsert of a key at most one entry has.
  Outside those guards it fails: \<open>upsert_of_doubled_key_overruns\<close> breaks the budget, and
  \<open>remove_at_leaves_taint_behind\<close> the record.
\<close>

theorem region_reachable_sound:
  assumes "region_reachable r"
  shows "r_current_tokens r = sum_list (map e_tokens (r_content r)) \<and>
         r_current_tokens r \<le> r_max_tokens r \<and>
         (\<forall>t. r_taint r = Some t \<longrightarrow>
              length (entry_taints t) = length (r_content r) \<and>
              (\<forall>l \<in> set (entry_taints t). l \<le> current_level t) \<and>
              (entry_taints t \<noteq> [] \<longrightarrow> current_level t \<in> set (entry_taints t)))"
  using region_reachable_inv [OF assms] rt.level_bounds rt.level_least
  by (auto simp: region_inv_def counted_def within_budget_def taint_aligned_def
      entry_tokens_def)

definition ex_tracked :: region where
  "ex_tracked = enable_taint_tracking (region_new ''notes'' Temporary 100)"

definition ex_written :: region where
  "ex_written = fst (push_entry 5 (text_content ''secret'') 10 None Text Private None
     (fst (push_entry 4 (text_content ''open'') 10 None Text Public (Some ''k'') ex_tracked)))"

lemma push_reachable:
  assumes "region_reachable r"
  shows "region_reachable (fst (push_entry now c tk m k lvl key r))"
proof (rule reach_step [OF assms])
  show "region_step r (fst (push_entry now c tk m k lvl key r))"
    by (rule step_push [where res = "snd (push_entry now c tk m k lvl key r)"]) simp
qed

lemma ex_written_reachable: "region_reachable ex_written"
proof -
  have "region_reachable ex_tracked"
    by (rule reach_empty)
      (simp_all add: ex_tracked_def enable_taint_tracking_def region_eval)
  then show ?thesis unfolding ex_written_def by (rule push_reachable [OF push_reachable])
qed

theorem region_reachable_sound_witness:
  "region_reachable ex_written \<and>
   r_current_tokens ex_written = sum_list (map e_tokens (r_content ex_written))"
  using ex_written_reachable region_reachable_sound [OF ex_written_reachable] by simp

text \<open>
  C21: a write under \<open>admission = "reject"\<close> is all or nothing. Accepted, it fits in the budget,
  its entry is appended, its tokens are charged, its level joins the taint record where there is
  one, and every other field of the region is what it was; refused, the region is exactly what
  it was. The region holds fewer entries than a machine word counts.
\<close>

theorem reject_write_atomic:
  assumes "r_admission r = Reject" and "push_entry now c tk m k lvl key r = (r', res)"
    and "length (r_content r) < usize_max"
  shows "case res of
           Inr _ \<Rightarrow> r_current_tokens r + tk \<le> r_max_tokens r \<and>
                   r' = r\<lparr>r_content := r_content r @ [new_entry now c tk m k key r],
                          r_current_tokens := r_current_tokens r + tk,
                          r_taint := map_option (\<lambda>t. t\<lparr>entry_taints := entry_taints t @ [lvl],
                            current_level := max (current_level t) lvl\<rparr>) (r_taint r)\<rparr>
         | Inl _ \<Rightarrow> r' = r"
  using push_entry_reject [OF assms]
  by (auto simp: append_entry_def taint_add_entry_def taint_max_is_max split: sum.splits)

definition ex_reject :: region where
  "ex_reject = ex_conversation\<lparr>r_admission := Reject\<rparr>"

lemma ex_reject_runs:
  "push_entry 9 (text_content ''big'') 11 None Text Public None ex_reject =
     (ex_reject, Inl (RegionFull ''conversation'' 90 100))"
  by (simp add: ex_reject_def region_eval push_entry_def refuse_unaccepted_def
      accepts_content_def region_full_def)

definition ex_reject_tracked :: region where
  "ex_reject_tracked = enable_taint_tracking (region_new ''notes'' Temporary 100)\<lparr>r_admission := Reject\<rparr>"

theorem reject_write_atomic_witness:
  "fst (push_entry 9 (text_content ''big'') 11 None Text Public None ex_reject) = ex_reject \<and>
   r_current_tokens (fst (push_entry 9 (text_content ''one'') 10 None Text Private None ex_reject_tracked)) = 10 \<and>
   map_option current_level (r_taint (fst (push_entry 9 (text_content ''one'') 10 None Text Private None
     ex_reject_tracked))) = Some Private"
proof -
  have r: "r_admission ex_reject = Reject" "length (r_content ex_reject) < usize_max"
      "r_admission ex_reject_tracked = Reject" "length (r_content ex_reject_tracked) < usize_max"
    by (simp_all add: ex_reject_def ex_reject_tracked_def enable_taint_tracking_def region_eval usize_max_def)
  have "snd (push_entry 9 (text_content ''one'') 10 None Text Private None ex_reject_tracked) = Inr ()"
    by code_simp
  then obtain r' where ok: "push_entry 9 (text_content ''one'') 10 None Text Private None ex_reject_tracked = (r', Inr ())"
    by (metis prod.collapse)
  have "r_current_tokens ex_reject_tracked = 0" "map_option current_level (r_taint ex_reject_tracked) = Some Public"
    by code_simp+
  then show ?thesis
    using reject_write_atomic [OF r(1) ex_reject_runs r(2)] reject_write_atomic [OF r(3) ok r(4)]
    by (auto simp: ex_reject_runs ok)
qed

text \<open>
  a write that fails leaves its region exactly as it was, whatever the kind and the
  admission, as long as no turn group mixes sticky entries with others.
\<close>

theorem failed_write_changes_nothing:
  assumes "counted r" and "sticky_inv r" and "push_entry now c tk m k lvl key r = (r', Inl e)"
  shows "r' = r"
  using push_entry_err_unchanged [OF assms] .

lemma ex_too_big:
  "push_entry 9 (text_content ''big'') 91 None Text Public None ex_conversation =
     (ex_conversation, Inl (TokenBudgetExceeded 181 100))"
proof -
  have "make_room 91 ex_conversation = (0, ex_conversation)"
    by (rule make_room_untouched) (simp add: region_eval sticky_tokens_def)
  moreover have "refuse_unaccepted ex_conversation (text_content ''big'') = Inr ()"
    "r_max_tokens ex_conversation = 100" "r_current_tokens ex_conversation = 90"
    "r_admission ex_conversation = Evict"
    by (simp_all add: region_eval refuse_unaccepted_def accepts_content_def)
  ultimately show ?thesis by (simp add: push_entry_def Let_def)
qed

theorem failed_write_changes_nothing_witness:
  "fst (push_entry 9 (text_content ''big'') 91 None Text Public None ex_conversation) =
     ex_conversation \<and>
   snd (push_entry 9 (text_content ''big'') 91 None Text Public None ex_conversation) \<noteq> Inr ()"
  using failed_write_changes_nothing [OF ex_conversation_ok(1,5) ex_too_big]
  by (simp add: ex_too_big)




subsection \<open>Caps and recency\<close>

definition strategy_cap :: "nat \<Rightarrow> eviction_strategy \<Rightarrow> nat" where
  "strategy_cap mx st = (case st of PerItem \<Rightarrow> mx
     | Bulk overflow \<Rightarrow> saturating_add mx overflow
     | Compact n \<Rightarrow> saturating_add mx (saturating_mul n 2))"

lemma evict_down_to_cap:
  assumes "\<not> list_ex e_sticky (r_content r)"
  shows "length (r_content (evict_down_to mx r)) \<le> mx"
proof -
  let ?s = "evict_down_to mx r"
  have ev: "evicts r ?s" by (rule evict_down_to_evicts)
  have ended: "\<not> mx < length (r_content ?s) \<or> drop_oldest ?s = None"
    using oldest.loop_done [OF order.refl, of _ r "\<lambda>s. mx < length (r_content s)"]
    by (simp add: evict_down_to_def)
  have "r_content ?s = []" if "drop_oldest ?s = None"
  proof -
    have none: "filter e_sticky (r_content ?s) = []"
      using evicts_sticky [OF ev] assms by (auto simp: filter_empty_conv list_ex_iff)
    then have "\<not> list_ex e_sticky (r_content ?s)" by (auto simp: filter_empty_conv list_ex_iff)
    from stuck_all_sticky [OF that no_sticky_whole [OF this]] none show ?thesis by simp
  qed
  with ended show ?thesis by auto
qed

lemma enforce_cap:
  assumes "r_kind r = SlidingWindow mx st" and "\<not> list_ex e_sticky (r_content r)"
    and "mx \<le> usize_max"
  shows "length (r_content (enforce_sliding_window r)) \<le> strategy_cap mx st"
proof -
  have "mx \<le> saturating_add mx n" for n using assms(3) by (simp add: saturating_add_def)
  with assms(1) evict_down_to_cap [OF assms(2), of mx] show ?thesis
    by (auto simp: enforce_sliding_window_def strategy_cap_def not_less
        intro: order_trans split: eviction_strategy.splits)
qed

text \<open>
  the cap of a sliding window. After an accepted write a window with no sticky entry
  holds at most \<open>max_items\<close> entries per item, \<open>max_items + overflow\<close> in bulk, and
  \<open>max_items + 2 * compact_count\<close> when compacting; the sums saturate.
\<close>

theorem sliding_window_cap:
  assumes "r_kind r = SlidingWindow mx st" and "\<not> list_ex e_sticky (r_content r)"
    and "mx \<le> usize_max" and "push_entry now c tk m k lvl key r = (r', Inr u)"
  shows "length (r_content r') \<le> strategy_cap mx st"
proof (rule push_entry_ok_cases [OF assms(4)])
  fix r2
  let ?a = "append_entry (new_entry now c tk m k key r2) lvl r2"
  assume ev: "evicts r r2" and r': "r' = enforce_sliding_window ?a"
  have "\<not> list_ex e_sticky (r_content r2)"
    using assms(2) evicts_subset [OF ev] by (auto simp: list_ex_iff)
  then have "\<not> list_ex e_sticky (r_content ?a)" by simp
  moreover have "r_kind ?a = SlidingWindow mx st"
    using assms(1) evicts_frame(2) [OF ev] by simp
  ultimately show ?thesis unfolding r' using enforce_cap assms(3) by blast
qed

definition ex_window :: region where
  "ex_window = (region_new ''conversation'' (SlidingWindow 2 PerItem) 100)
     \<lparr>r_content := [ex_entry ''a'' 10 1 UserMessage False, ex_entry ''b'' 10 2 Text False],
      r_current_tokens := 20\<rparr>"

lemma ex_window_push:
  "\<exists>r'. push_entry 9 (text_content ''c'') 10 None UserMessage Public None ex_window
     = (r', Inr ())"
  by (rule push_entry_admits)
    (simp_all add: ex_window_def region_eval counted_def sticky_inv_def sticky_whole_def
      paired_def has_sticky_def sticky_tokens_def accepts_content_def)

theorem sliding_window_cap_witness:
  "\<exists>r'. push_entry 9 (text_content ''c'') 10 None UserMessage Public None ex_window
     = (r', Inr ()) \<and> length (r_content r') \<le> 2"
proof -
  have "r_kind ex_window = SlidingWindow 2 PerItem" "\<not> list_ex e_sticky (r_content ex_window)"
    "(2 :: nat) \<le> usize_max"
    by (simp_all add: ex_window_def region_eval usize_max_def)
  from sliding_window_cap [OF this] ex_window_push show ?thesis
    by (fastforce simp: strategy_cap_def)
qed

text \<open>
  The entry \<open>evict_lru_entry\<close> takes is the least recently written of those it may
  take: not sticky, not the protected key, and no other such entry has a smaller write
  number (ties by timestamp). Exactly that entry goes, with its tokens and its taint; when
  nothing may be taken, every entry is sticky or has the protected key.
\<close>

theorem lru_takes_least_recent:
  "case evict_lru_entry exc r of
     None \<Rightarrow> \<forall>e \<in> set (r_content r). e_sticky e \<or> (exc \<noteq> None \<and> e_key e = exc)
   | Some r' \<Rightarrow> \<exists>i < length (r_content r). \<exists>e. e = r_content r ! i \<and>
       \<not> e_sticky e \<and> (exc = None \<or> e_key e \<noteq> exc) \<and>
       (\<forall>x \<in> set (r_content r). \<not> e_sticky x \<longrightarrow> (exc = None \<or> e_key x \<noteq> exc) \<longrightarrow>
          (e_seq e, e_timestamp e) \<le> (e_seq x, e_timestamp x)) \<and>
       r_content r' = remove_nth i (r_content r) \<and>
       r_current_tokens r' = r_current_tokens r - e_tokens e \<and>
       map_option entry_taints (r_taint r') =
         map_option (\<lambda>t. remove_nth i (entry_taints t)) (r_taint r)"
proof (cases "evict_lru_entry exc r")
  case None
  then show ?thesis using evict_lru_None [of exc r] by simp
next
  case (Some r')
  show ?thesis
  proof (rule evict_lru_cases [OF Some])
    fix i
    assume i: "i < length (r_content r)" "\<not> e_sticky (r_content r ! i)"
      "exc = None \<or> e_key (r_content r ! i) \<noteq> exc" and r': "r' = drop_entry i r"
      and least: "\<forall>j \<in> set (lru_candidates r exc).
         (e_seq (r_content r ! i), e_timestamp (r_content r ! i)) \<le>
         (e_seq (r_content r ! j), e_timestamp (r_content r ! j))"
    have "(e_seq (r_content r ! i), e_timestamp (r_content r ! i)) \<le>
        (e_seq x, e_timestamp x)"
      if "x \<in> set (r_content r)" "\<not> e_sticky x" "exc = None \<or> e_key x \<noteq> exc" for x
      using that least by (auto simp: in_set_conv_nth lru_candidates_def)
    moreover have "map_option entry_taints (r_taint r') =
         map_option (\<lambda>t. remove_nth i (entry_taints t)) (r_taint r)"
      by (simp add: r' drop_entry_def option.map_comp comp_def)
    moreover have "r_current_tokens r' = r_current_tokens r - e_tokens (r_content r ! i)"
      by (simp add: r' drop_entry_def)
    ultimately show ?thesis using i Some by (auto simp: r')
  qed
qed

theorem lru_takes_least_recent_witness:
  "\<exists>r'. evict_lru_entry (Some ''call'') ex_conversation = Some r' \<and>
     (\<exists>i < 4. \<not> e_sticky (r_content ex_conversation ! i) \<and>
        r_content r' = remove_nth i (r_content ex_conversation))"
proof -
  have "evict_lru_entry (Some ''call'') ex_conversation \<noteq> None"
    unfolding evict_lru_None by (simp add: region_eval)
  then obtain r' where r': "evict_lru_entry (Some ''call'') ex_conversation = Some r'" by blast
  have "length (r_content ex_conversation) = 4" by (simp add: region_eval)
  with lru_takes_least_recent [where exc = "Some ''call''" and r = ex_conversation] r' show ?thesis by auto
qed

text \<open>
  Emptying a region. \<open>evict_all\<close> leaves exactly the sticky entries, in order, and
  reports exactly the tokens it freed; a tracked region's taint level afterwards is a
  level recorded for an entry that is still there.
\<close>

theorem evict_all_keeps_the_sticky:
  assumes "counted r" and "taint_aligned r" and "evict_all r = (freed, r')"
  shows "r_content r' = filter e_sticky (r_content r) \<and>
         freed = r_current_tokens r - sticky_tokens r \<and>
         r_current_tokens r' = sticky_tokens r \<and>
         subseq (tagged r') (tagged r) \<and> taint_aligned r'"
proof -
  have "fst (evict_all r) = freed" "snd (evict_all r) = r'" using assms(3) by simp_all
  with evict_all_content [of r] evict_all_freed [OF assms(1)] evict_all_evicts [of r] assms(2)
    evicts_tagged evicts_aligned
  show ?thesis by fastforce
qed

lemma ex_written_inv: "counted ex_written" "taint_aligned ex_written"
  using region_reachable_inv [OF ex_written_reachable] by (simp_all add: region_inv_def)

theorem evict_all_keeps_the_sticky_witness:
  "r_content (snd (evict_all ex_conversation)) = [ex_entry ''note'' 10 1 Text True] \<and>
   fst (evict_all ex_conversation) = 80"
proof -
  have "evict_all ex_conversation =
      (fst (evict_all ex_conversation), snd (evict_all ex_conversation))" by simp
  from evict_all_keeps_the_sticky [OF ex_conversation_ok(1,3) this] show ?thesis
    by (simp add: region_eval sticky_tokens_def)
qed

subsection \<open>Keyed writes\<close>

text \<open>
  C39: an upsert of a key at most one entry has is atomic and reads back. Refused, it leaves
  the region untouched; accepted, the key reads back as exactly what was written, it is the
  most recent write of the region, no entry of another key is changed (some may be evicted,
  none that is sticky), and the region is within its budget. Two entries with the key break
  the last: \<open>upsert_of_doubled_key_overruns\<close>.
\<close>

theorem upsert_reads_back:
  assumes "counted r" and "key_unique key r"
    and "upsert_by_key_content now key c tk st r = (r', res)"
  shows "case res of
      Inl _ \<Rightarrow> r' = r
    | Inr _ \<Rightarrow>
        (\<exists>e. get_by_key r' key = Some e \<and> e_content e = c \<and> e_tokens e = tk \<and>
             (\<forall>x \<in> set (r_content r'). e_seq x \<le> e_seq e)) \<and>
        subseq (filter (\<lambda>e. \<not> own key e) (r_content r'))
               (filter (\<lambda>e. \<not> own key e) (r_content r)) \<and>
        filter (\<lambda>e. e_sticky e \<and> \<not> own key e) (r_content r') =
          filter (\<lambda>e. e_sticky e \<and> \<not> own key e) (r_content r) \<and>
        counted r' \<and> r_current_tokens r' \<le> r_max_tokens r'"
proof (cases res)
  case (Inl e)
  with assms(3) upsert_refused show ?thesis by fastforce
next
  case (Inr u)
  then have ok: "upsert_by_key_content now key c tk st r = (r', Inr u)" using assms(3) by simp
  let ?s = "upsert_make_room key (position_of r key) tk r"
  note r' = upsert_accepted(2) [OF ok]
  obtain e where e: "get_by_key r' key = Some e" "e_content e = c" "e_tokens e = tk"
    "e_seq e = next_seq ?s"
    unfolding r' using upsert_store_lookup by blast
  have "e_seq x \<le> e_seq e" if "x \<in> set (r_content r')" for x
  proof -
    have "x \<in> set (r_content ?s) \<or> e_seq x = next_seq ?s"
      using that unfolding r'
      by (auto simp: upsert_store_def Let_def split: option.splits
          dest!: subsetD [OF set_update_subset_insert])
    then show ?thesis using next_seq_gt [of x ?s] e(4) by auto
  qed
  with e upsert_others [OF ok] upsert_within [OF assms(1,2) ok] Inr show ?thesis
    by (simp add: within_budget_def)
qed

definition ex_keyed :: region where
  "ex_keyed = (region_new ''facts'' (HashMap (Some 2)) 50)
     \<lparr>r_content := [(ex_entry ''one'' 20 1 Text False)\<lparr>e_key := Some ''a''\<rparr>,
        (ex_entry ''two'' 20 2 Text False)\<lparr>e_key := Some ''b''\<rparr>],
      r_current_tokens := 40\<rparr>"

lemma ex_keyed_ok: "counted ex_keyed" "key_unique ''b'' ex_keyed"
  by (simp_all add: ex_keyed_def region_eval counted_def key_unique_def own_def)

theorem upsert_reads_back_witness:
  "\<exists>r' e. upsert_by_key 9 ''b'' (text_content ''new'') 40 ex_keyed = (r', Inr ()) \<and>
     get_by_key r' ''b'' = Some e \<and> e_content e = text_content ''new'' \<and>
     r_current_tokens r' \<le> 50"
proof -
  obtain r' res where run:
    "upsert_by_key_content 9 ''b'' (text_content ''new'') 40 None ex_keyed = (r', res)"
    by fastforce
  moreover have "check_upsert_fits (position_of ex_keyed ''b'') 40 ex_keyed = Inr ()"
    by (simp add: check_upsert_fits_def ex_keyed_def region_eval position_of_def others_def
        max_entries_def upt_rec)
  ultimately have ok: "res = Inr ()"
    by (auto simp: upsert_by_key_content_def Let_def)
  then have run': "upsert_by_key_content 9 ''b'' (text_content ''new'') 40 None ex_keyed
      = (r', Inr u)" for u
    using run by simp
  then have "region_config r' = region_config ex_keyed"
    using upsert_accepted(2) evicts_config [OF upsert_make_room_evicts]
    by (metis upsert_store_frame(4))
  from region_config_same(3) [OF this] upsert_reads_back [OF ex_keyed_ok run] ok run show ?thesis
    by (auto simp: upsert_by_key_def ex_keyed_def region_eval)
qed

subsection \<open>Where the code and its promises part\<close>

text \<open>
  \<open>Region::remove_at\<close> takes an entry and its tokens but not its taint level, so in a
  tracked region every later removal by index drops the wrong level. The run: a public and
  a private entry, the public one removed by position, a scratch entry added and removed by
  key. The private entry is still there and the region reports \<open>Public\<close>.
\<close>

theorem remove_at_leaves_taint_behind:
  "let r1 = snd (remove_at 0 ex_written);
       r2 = fst (add_keyed_entry 6 ''tmp'' (text_content ''x'') 10 r1);
       r3 = snd (remove_by_key ''tmp'' r2)
   in region_taint_level ex_written = Some Private \<and>
      map (content_text \<circ> e_content) (r_content r3) = [''secret''] \<and>
      region_taint_level r3 = Some Public"
  by code_simp

text \<open>
  when two entries carry one key, an upsert of that key can be accepted and leave the
  region over its budget: room is counted against the first entry with the key, and the
  second is protected from eviction by the same key.
\<close>

theorem upsert_of_doubled_key_overruns:
  "let r0 = region_new ''facts'' (HashMap None) 30;
       r1 = fst (add_keyed_entry 1 ''a'' (text_content ''x'') 10 r0);
       r2 = fst (add_keyed_entry 2 ''a'' (text_content ''y'') 10 r1);
       (r3, res) = upsert_by_key 3 ''a'' (text_content ''z'') 25 r2
   in res = Inr () \<and> r_max_tokens r3 = 30 \<and> r_current_tokens r3 = 35"
  by code_simp

text \<open>
  a sliding window whose cap is taken by sticky entries accepts a write and drops it
  in the same call: the result is \<open>Ok\<close> and the entry is not in the region.
\<close>

theorem capped_by_sticky_loses_the_write:
  "let r0 = region_new ''conversation'' (SlidingWindow 1 PerItem) 100;
       r1 = r0\<lparr>r_content := [ex_entry ''note'' 10 1 Text True], r_current_tokens := 10\<rparr>;
       (r2, res) = push_entry 3 (text_content ''z'') 25 None UserMessage Public None r1
   in res = Inr () \<and> map (content_text \<circ> e_content) (r_content r2) = [''note'']"
proof -
  let ?r1 = "(region_new ''conversation'' (SlidingWindow 1 PerItem) 100)
    \<lparr>r_content := [ex_entry ''note'' 10 1 Text True], r_current_tokens := 10\<rparr>"
  let ?a = "append_entry (new_entry 3 (text_content ''z'') 25 None UserMessage None ?r1) Public ?r1"
  have "push_entry 3 (text_content ''z'') 25 None UserMessage Public None ?r1 =
      (evict_down_to 1 ?a, Inr ())"
    by (simp add: region_eval push_entry_def refuse_unaccepted_def accepts_content_def
        make_entry_room_none max_entries_def enforce_sliding_window_def append_entry_def)
  moreover have "map (content_text \<circ> e_content) (r_content (evict_down_to 1 ?a)) = [''note'']"
    by code_simp
  ultimately show ?thesis by (simp add: Let_def)
qed

text \<open>
  a tool result written into a full region evicts the very turn it answers, and is
  left as a result without its call.
\<close>

theorem tool_result_can_evict_its_own_call:
  "let r = (region_new ''conversation'' Temporary 100)
       \<lparr>r_content := [ex_entry ''call'' 60 1 (ex_turn ''t1'') False], r_current_tokens := 60\<rparr>;
       (r', res) = push_entry 2 (text_content ''answer'') 50 None
         (ToolResult ''t1'' ''read_file'' False) Public None r
   in res = Inr () \<and> map e_kind (r_content r') = [ToolResult ''t1'' ''read_file'' False]"
  by code_simp

end
