(* ===== verification/Window_Properties.thy ===== *)
theory Window_Properties
  imports Window_Cascade Region_Properties
begin

text \<open>
  What the context window promises: what the eviction cascade may take, when it stops, in
  which order it takes it, and what a write does to the regions it is not for.
\<close>

subsection \<open>The order regions are taken in\<close>

lemma region_index_lt: "region_index w name = Some i \<Longrightarrow> i < length (w_regions w)"
  by (simp add: region_index_def position_lt)

lemma named_turns_spec:
  "distinct named \<Longrightarrow> \<forall>i \<in> set named. i < length (w_regions w) \<Longrightarrow>
   distinct (named_turns w names named) \<and>
   (\<forall>i \<in> set (named_turns w names named). i < length (w_regions w))"
proof (induction names arbitrary: named)
  case (Cons n names)
  let ?next = "case region_index w n of Some i \<Rightarrow> if i \<in> set named then named else named @ [i]
     | None \<Rightarrow> named"
  have "distinct ?next" "\<forall>i \<in> set ?next. i < length (w_regions w)"
    using Cons.prems by (auto split: option.splits dest: region_index_lt)
  from Cons.IH [OF this] show ?case by simp
qed simp

lemma eviction_turns_spec:
  assumes "eviction_turns w = (named, rest)"
  shows "distinct named \<and> set named \<subseteq> {..<length (w_regions w)} \<and>
    set rest = {..<length (w_regions w)} - set named"
  using named_turns_spec [of "[]" w "w_eviction_order w"] assms
  by (auto simp: eviction_turns_def Let_def)

subsection \<open>The cascade as a whole\<close>

text \<open>Either a phase met the target, or the last one was reached with every phase spent.\<close>

lemma try_evict_cases:
  assumes run: "try_evict t w = (w', res)" and turns: "eviction_turns w = (named, rest)"
  obtains (met) "res = Inr (freed_result (w_current_tokens w) w' [])" "target_met t w'"
      "window_moves sheds {..<length (w_regions w)} w w'"
      "no_overflow_hooks w \<Longrightarrow> window_moves evicts {..<length (w_regions w)} w w'"
    | (spent) w1 w2 w3 where "res = last_phase t (w_current_tokens w) w'"
      "clear_phase t (named @ rest) w = (w1, False)"
      "fst (overflow_phase t (named @ rest) 0 w1) = w2"
      "named_phase t named w2 = (w3, False)" "rest_phase t rest w3 = (w', False)"
      "window_moves sheds {..<length (w_regions w)} w w'"
      "no_overflow_hooks w \<Longrightarrow> window_moves evicts {..<length (w_regions w)} w w'"
proof -
  let ?n = "{..<length (w_regions w)}"
  note sp = eviction_turns_spec [OF turns]
  have all: "set (named @ rest) \<subseteq> ?n" "set named \<subseteq> ?n" "set rest \<subseteq> ?n" using sp by auto
  obtain w1 b1 where c: "clear_phase t (named @ rest) w = (w1, b1)" by fastforce
  from clear_phase_moves [OF c all(1)]
  have m1: "window_moves evicts ?n w w1" and t1: "b1 \<Longrightarrow> target_met t w1" by auto
  obtain w2 n2 where o: "overflow_phase t (named @ rest) 0 w1 = (w2, n2)" by fastforce
  have len1: "length (w_regions w1) = length (w_regions w)" by (rule window_moves_length [OF m1])
  have m2: "window_moves sheds ?n w1 w2"
    by (rule overflow_phase_moves [OF o all(1)]) (simp add: len1)
  have len2: "length (w_regions w2) = length (w_regions w)"
    using window_moves_length [OF m2] len1 by simp
  obtain w3 b3 where nm: "named_phase t named w2 = (w3, b3)" by fastforce
  from named_phase_moves [OF nm all(2)] len2
  have m3: "window_moves evicts ?n w2 w3" and t3: "b3 \<Longrightarrow> target_met t w3" by auto
  have len3: "length (w_regions w3) = length (w_regions w)"
    using window_moves_length [OF m3] len2 by simp
  obtain w4 b4 where rs: "rest_phase t rest w3 = (w4, b4)" by fastforce
  from rest_phase_moves [OF rs all(3)] len3
  have m4: "window_moves evicts ?n w3 w4" and t4: "b4 \<Longrightarrow> target_met t w4"
    by (auto split: if_splits)
  note st = sheds_laws(1,3)
  note tr = choosing.moves_trans
  have s2: "window_moves sheds ?n w w2" by (rule tr [OF evicts_moves_sheds [OF m1] m2])
  have s3: "window_moves sheds ?n w w3" by (rule tr [OF s2 evicts_moves_sheds [OF m3]])
  have s4: "window_moves sheds ?n w w4" by (rule tr [OF s3 evicts_moves_sheds [OF m4]])
  have same: "w2 = w1 \<and> n2 = 0" if "no_overflow_hooks w"
  proof -
    have "no_overflow_hooks w1"
      using that window_moves_frame(2) [OF m1] by (simp add: no_overflow_hooks_def)
    with o show ?thesis by (simp add: overflow_phase_idle)
  qed
  have e2: "no_overflow_hooks w \<Longrightarrow> window_moves evicts ?n w w2" using same m1 by simp
  have e3: "no_overflow_hooks w \<Longrightarrow> window_moves evicts ?n w w3"
    using moves_evicts_trans [OF e2 m3] .
  have e4: "no_overflow_hooks w \<Longrightarrow> window_moves evicts ?n w w4"
    using moves_evicts_trans [OF e3 m4] .
  show thesis
  proof (cases "b1 \<or> 0 < n2 \<and> target_met t w2 \<or> b3 \<or> b4")
    case True
    then show ?thesis
      using run turns c o nm rs m1 s2 s3 s4 e2 e3 e4 t1 t3 t4 evicts_moves_sheds
      by (auto simp: try_evict_def Let_def intro!: met split: if_splits bool.splits)
  next
    case False
    then show ?thesis
      using run turns c o nm rs s4 e4 spent [of w1 w2 w3]
      by (auto simp: try_evict_def Let_def split: if_splits)
  qed
qed

lemma try_evict_moves:
  assumes "try_evict t w = (w', res)"
  shows "window_moves sheds {..<length (w_regions w)} w w'"
    and "no_overflow_hooks w \<Longrightarrow> window_moves evicts {..<length (w_regions w)} w w'"
proof -
  obtain named rest where "eviction_turns w = (named, rest)" by fastforce
  from try_evict_cases [OF assms this]
  show "window_moves sheds {..<length (w_regions w)} w w'"
    and "no_overflow_hooks w \<Longrightarrow> window_moves evicts {..<length (w_regions w)} w w'"
    by metis+
qed

lemma pinned_not_evictable: "pinned_kind r \<Longrightarrow> \<not> evictable r"
  by (auto simp: pinned_kind_def evictable_def split: region_kind.splits)

lemma moves_pinned_tokens:
  assumes "window_moves sheds I w w'"
  shows "pinned_tokens w' = pinned_tokens w"
proof -
  have "filter pinned_kind (w_regions w') = filter pinned_kind (w_regions w)"
  proof -
    have len: "length (w_regions w') = length (w_regions w)" by (rule window_moves_length [OF assms])
    have "map (\<lambda>r. if pinned_kind r then [r] else []) (w_regions w') =
        map (\<lambda>r. if pinned_kind r then [r] else []) (w_regions w)"
    proof (rule nth_equalityI)
      fix i
      assume i: "i < length (map (\<lambda>r. if pinned_kind r then [r] else []) (w_regions w'))"
      then have i': "i < length (w_regions w)" using len by simp
      have "region_config (w_regions w' ! i) = region_config (w_regions w ! i)"
        using sheds_laws(1) [OF window_moves_nth [OF assms i']] .
      then have "pinned_kind (w_regions w' ! i) = pinned_kind (w_regions w ! i)"
        by (rule evictable_config(4))
      moreover have "pinned_kind (w_regions w ! i) \<Longrightarrow> w_regions w' ! i = w_regions w ! i"
        using assms i' pinned_not_evictable by (simp add: window_moves_def)
      ultimately show "map (\<lambda>r. if pinned_kind r then [r] else []) (w_regions w') ! i =
          map (\<lambda>r. if pinned_kind r then [r] else []) (w_regions w) ! i"
        using i' len by auto
    qed (simp add: len)
    then have "concat (map (\<lambda>r. if pinned_kind r then [r] else []) (w_regions w')) =
        concat (map (\<lambda>r. if pinned_kind r then [r] else []) (w_regions w))" by simp
    moreover have "concat (map (\<lambda>r. if pinned_kind r then [r] else []) rs) = filter pinned_kind rs"
      for rs by (induction rs) auto
    ultimately show ?thesis by simp
  qed
  then show ?thesis by (simp add: pinned_tokens_def)
qed

subsection \<open>What the cascade may take\<close>

text \<open>
  C11: the cascade takes only from regions it may take from. Whatever the scripts answer,
  a pinned, sliding, compacting, keyed or checklist region, a persistent custom region and
  any region under \<open>reject\<close> comes out exactly as it went in; the others lose entries and
  nothing else. The window's count stays the sum of its regions' counts and never grows.
  Without overflow scripts every sticky entry survives and taint records stay aligned.
\<close>

theorem eviction_spares_protected_regions:
  assumes "try_evict t w = (w', res)"
  shows "length (w_regions w') = length (w_regions w) \<and>
    (\<forall>i < length (w_regions w).
       (if evictable (w_regions w ! i)
        then region_config (w_regions w' ! i) = region_config (w_regions w ! i) \<and>
             subseq (r_content (w_regions w' ! i)) (r_content (w_regions w ! i))
        else w_regions w' ! i = w_regions w ! i) \<and>
       (no_overflow_hooks w \<longrightarrow>
          filter e_sticky (r_content (w_regions w' ! i)) =
            filter e_sticky (r_content (w_regions w ! i)) \<and>
          (taint_aligned (w_regions w ! i) \<longrightarrow> taint_aligned (w_regions w' ! i)))) \<and>
    (window_ok w \<longrightarrow> window_ok w' \<and> w_current_tokens w' \<le> w_current_tokens w)"
proof -
  note mv = try_evict_moves [OF assms]
  have "window_ok w \<longrightarrow> window_ok w' \<and> w_current_tokens w' \<le> w_current_tokens w"
    using mv(1) by (simp add: window_moves_def)
  moreover have "region_config (w_regions w' ! i) = region_config (w_regions w ! i) \<and>
      subseq (r_content (w_regions w' ! i)) (r_content (w_regions w ! i))"
    and "\<not> evictable (w_regions w ! i) \<Longrightarrow> w_regions w' ! i = w_regions w ! i"
    if "i < length (w_regions w)" for i
    using window_moves_nth [OF mv(1) that] mv(1) that by (simp_all add: sheds_def window_moves_def)
  moreover have "filter e_sticky (r_content (w_regions w' ! i)) =
        filter e_sticky (r_content (w_regions w ! i))"
    and "taint_aligned (w_regions w ! i) \<Longrightarrow> taint_aligned (w_regions w' ! i)"
    if "no_overflow_hooks w" "i < length (w_regions w)" for i
    using evicts_sticky evicts_aligned window_moves_nth [OF mv(2) [OF that(1)] that(2)] by blast+
  ultimately show ?thesis
    using window_moves_length [OF mv(1)] by auto
qed

definition ex_full :: window where
  "ex_full = \<lparr>w_regions = [(region_new ''task'' Pinned 100)
        \<lparr>r_content := [ex_entry ''brief'' 40 1 Text False], r_current_tokens := 40\<rparr>,
      (region_new ''scratch'' Temporary 100)
        \<lparr>r_content := [ex_entry ''old'' 30 1 Text False, ex_entry ''new'' 30 2 Text False],
         r_current_tokens := 60\<rparr>],
    w_current_tokens = 100, w_max_tokens = 100, w_scripts = (\<lambda>_. None), w_hidden = {},
    w_eviction_order = []\<rparr>"

lemma ex_full_ok: "window_ok ex_full" "no_overflow_hooks ex_full"
  by (simp_all add: ex_full_def region_eval window_ok_def counted_def calculate_tokens_def
      no_overflow_hooks_def)

theorem eviction_spares_protected_regions_witness:
  "\<exists>w' res. try_evict 20 ex_full = (w', res) \<and>
     w_regions w' ! 0 = w_regions ex_full ! 0 \<and> window_ok w'"
proof -
  obtain w' res where run: "try_evict 20 ex_full = (w', res)" by fastforce
  have "0 < length (w_regions ex_full)" "\<not> evictable (w_regions ex_full ! 0)"
    by (simp_all add: ex_full_def region_eval evictable_def)
  with eviction_spares_protected_regions [OF run] ex_full_ok(1) run show ?thesis by auto
qed

definition spent :: "region \<Rightarrow> bool" where
  "spent r \<longleftrightarrow> (clearable r \<longrightarrow> cleared r) \<and> (gives_oldest r \<longrightarrow> remove_oldest r = None)"

lemma clearable_not_rolled: "clearable r \<Longrightarrow> \<not> gives_oldest r"
  by (auto simp: clearable_def gives_oldest_def unpinned_custom_def)

lemma cascade_spent:
  assumes turns: "eviction_turns w = (named, rest)"
    and c: "clear_phase t (named @ rest) w = (w1, False)"
    and o: "fst (overflow_phase t (named @ rest) 0 w1) = w2"
    and nm: "named_phase t named w2 = (w3, False)" and rs: "rest_phase t rest w3 = (w', False)"
  shows "\<forall>r \<in> set (w_regions w'). spent r"
proof -
  let ?n = "{..<length (w_regions w)}"
  note sp = eviction_turns_spec [OF turns]
  have all: "set (named @ rest) = ?n" and sub: "set named \<subseteq> ?n" "set rest \<subseteq> ?n"
    and dist: "distinct named" "set named \<inter> set rest = {}" using sp by auto
  from clear_phase_moves [OF c order.refl] all
  have m1: "window_moves evicts ?n w w1" by auto
  note len1 = window_moves_length [OF m1]
  have m2: "window_moves sheds ?n w1 w2"
    using overflow_phase_moves [of t "named @ rest" 0 w1 w2 _ ?n] o all len1
    by (metis lessThan_iff order.refl prod.collapse)
  have len2: "length (w_regions w2) = length (w_regions w)"
    using window_moves_length [OF m2] len1 by simp
  have m3: "window_moves evicts (set named) w2 w3"
    using named_phase_moves [OF nm order.refl] sub(1) len2 by auto
  have len3: "length (w_regions w3) = length (w_regions w)"
    using window_moves_length [OF m3] len2 by simp
  have m4: "window_moves evicts (set rest) w3 w'" and r4: "\<forall>i \<in> set rest.
      gives_oldest (w_regions w' ! i) \<longrightarrow> remove_oldest (w_regions w' ! i) = None"
    using rest_phase_moves [OF rs order.refl] sub(2) len3 by auto
  have len4: "length (w_regions w') = length (w_regions w)"
    using window_moves_length [OF m4] len3 by simp
  have later: "sheds (w_regions w1 ! i) (w_regions w' ! i)" if "i < length (w_regions w)" for i
    using sheds_trans [OF window_moves_nth [OF m2] sheds_trans [OF
          evicts_sheds [OF window_moves_nth [OF m3]] evicts_sheds [OF window_moves_nth [OF m4]]]]
      that len1 len2 len3 by simp
  have "spent (w_regions w' ! i)" if i: "i < length (w_regions w)" for i
  proof -
    have "cleared (w_regions w' ! i)" if "clearable (w_regions w' ! i)"
    proof -
      have "sheds (w_regions w ! i) (w_regions w1 ! i)"
        by (rule evicts_sheds [OF window_moves_nth [OF m1 i]])
      then have "clearable (w_regions w ! i)"
        using clearable_sheds [OF sheds_trans [OF _ later [OF i]]] that by simp
      then have "cleared (w_regions w1 ! i)"
        using clear_phase_cleared [OF c] all i by auto
      then show ?thesis by (rule sheds_cleared [OF later [OF i]])
    qed
    moreover have "remove_oldest (w_regions w' ! i) = None" if "gives_oldest (w_regions w' ! i)"
    proof (cases "i \<in> set named")
      case True
      with dist(2) have "i \<notin> set rest" by auto
      then have same: "w_regions w' ! i = w_regions w3 ! i"
        using window_moves_outside [OF m4] i len3 by simp
      have "gives_oldest (w_regions w2 ! i)"
        using that same i len2
          evictable_config(2) [OF evicts_config [OF window_moves_nth [OF m3]]] by simp
      then show ?thesis
        using named_phase_emptied [OF nm _ dist(1)] True sub(1) len2 same by auto
    next
      case False
      with all i have "i \<in> set rest" by auto
      with r4 that show ?thesis by blast
    qed
    ultimately show ?thesis by (simp add: spent_def)
  qed
  then show ?thesis using len4 by (auto simp: in_set_conv_nth)
qed

text \<open>
  C38: the cascade reports what it did and does not stop early. The tokens it says it freed
  are exactly the difference; it names regions to compact only while the target is unmet;
  it fails only with the pinned regions over the window's budget, and says by how much. If
  the target is not met in the end, nothing was left to take: every clearable region holds
  sticky entries only and no temporary or custom region has a turn group to give.
\<close>

theorem eviction_frees_or_is_spent:
  assumes "window_ok w" and "try_evict t w = (w', res)"
  shows "(target_met t w' \<or> (\<forall>r \<in> set (w_regions w'). spent r)) \<and>
    (case res of
       Inr er \<Rightarrow> er_tokens_freed er + w_current_tokens w' = w_current_tokens w \<and>
         (er_needs_compaction er \<noteq> [] \<longrightarrow> \<not> target_met t w')
     | Inl e \<Rightarrow> e = PinnedRegionsOverBudget (pinned_tokens w) (w_max_tokens w) \<and>
         w_max_tokens w < pinned_tokens w)"
proof -
  obtain named rest where turns: "eviction_turns w = (named, rest)" by fastforce
  note mv = try_evict_moves(1) [OF assms(2)]
  have le: "w_current_tokens w' \<le> w_current_tokens w"
    using mv assms(1) by (simp add: window_moves_def)
  note frame = window_moves_frame(1) [OF mv] moves_pinned_tokens [OF mv]
  show ?thesis
  proof (rule try_evict_cases [OF assms(2) turns])
    assume "res = Inr (freed_result (w_current_tokens w) w' [])" "target_met t w'"
    with le show ?thesis by (simp add: freed_result_def)
  next
    fix w1 w2 w3
    assume last: "res = last_phase t (w_current_tokens w) w'"
      and "clear_phase t (named @ rest) w = (w1, False)"
        "fst (overflow_phase t (named @ rest) 0 w1) = w2"
        "named_phase t named w2 = (w3, False)" "rest_phase t rest w3 = (w', False)"
    from cascade_spent [OF turns this(2-5)] have "\<forall>r \<in> set (w_regions w'). spent r" .
    with last le frame show ?thesis
      by (auto simp: last_phase_def Let_def freed_result_def target_met_def split: if_splits)
  qed
qed

theorem eviction_frees_or_is_spent_witness:
  "\<exists>w' res. try_evict 20 ex_full = (w', res) \<and>
     (target_met 20 w' \<or> (\<forall>r \<in> set (w_regions w'). spent r))"
proof -
  obtain w' res where run: "try_evict 20 ex_full = (w', res)" by fastforce
  with eviction_frees_or_is_spent [OF ex_full_ok(1) run] show ?thesis by blast
qed

end
