(* ===== verification/Window_Writes.thy ===== *)
theory Window_Writes
  imports Window_Properties
begin

text \<open>
  Writes to a window. The locale \<open>region_writer\<close> is what the shared tail
  \<open>write_to_region\<close> relies on of the insertion it is given; both insertions the code uses
  interpret it.
\<close>

definition solid :: "region \<Rightarrow> bool" where
  "solid r = (counted r \<and> within_budget r)"

subsection \<open>The insertions keep a region solid\<close>

lemma evicts_solid: "evicts r r' \<Longrightarrow> solid r \<Longrightarrow> solid r'"
  using evicts_counted evicts_within by (auto simp: solid_def)

lemma push_entry_solid:
  assumes "solid r" and "push_entry now c tk m k lvl key r = (r', res)"
  shows "solid r'"
proof (cases res)
  case (Inl e)
  with push_entry_err_cases assms evicts_solid show ?thesis by metis
next
  case (Inr u)
  with assms(2) have "push_entry now c tk m k lvl key r = (r', Inr u)" by simp
  then show ?thesis
  proof (rule push_entry_ok_cases)
    fix r2
    let ?a = "append_entry (new_entry now c tk m k key r2) lvl r2"
    assume ev: "evicts r r2" and b: "r_current_tokens r2 + tk \<le> r_max_tokens r \<or> \<not> counted r"
      and r': "r' = enforce_sliding_window ?a"
    have "solid ?a"
      using evicts_solid [OF ev assms(1)] b assms(1) evicts_frame(3) [OF ev]
      by (simp add: solid_def append_entry_counted within_budget_def)
    then show ?thesis unfolding r' by (rule evicts_solid [OF enforce_evicts])
  qed
qed

lemma remove_by_key_solid: "solid r \<Longrightarrow> solid (snd (remove_by_key key r))"
proof (cases "position_of r key")
  case (Some pos)
  assume s: "solid r"
  have "pos < length (r_content r)" using Some by (simp add: position_own position_lt)
  moreover have "r_current_tokens (drop_entry pos r) \<le> r_current_tokens r"
    by (simp add: drop_entry_def)
  ultimately show ?thesis
    using s drop_entry_counted(1) Some by (simp add: remove_by_key_def solid_def within_budget_def)
qed (simp add: remove_by_key_def)

lemma same_tokens_solid:
  "solid r \<Longrightarrow> map e_tokens es = map e_tokens (r_content r) \<Longrightarrow> solid (r\<lparr>r_content := es\<rparr>)"
  by (simp add: solid_def counted_def within_budget_def entry_tokens_def)

lemma set_last_key_solid: "solid r \<Longrightarrow> solid (set_last_key key r)"
  by (auto simp: set_last_key_def intro!: same_tokens_solid)
    (metis append_butlast_last_id list.simps(8,9) map_append)

lemma set_last_key_config [simp]: "region_config (set_last_key key r) = region_config r"
  by (simp add: set_last_key_def region_config_def)

lemma set_last_reasoning_solid: "solid r \<Longrightarrow> solid (set_last_reasoning reasoning r)"
  by (auto simp: set_last_reasoning_def intro!: same_tokens_solid)
    (metis append_butlast_last_id list.simps(8,9) map_append)

lemma set_last_reasoning_config [simp]:
  "region_config (set_last_reasoning reasoning r) = region_config r"
  by (simp add: set_last_reasoning_def region_config_def)

lemma remove_by_key_config [simp]: "region_config (snd (remove_by_key key r)) = region_config r"
  by (simp add: remove_by_key_def split: option.splits)

lemma restamped_config [simp]:
  "region_config (r\<lparr>r_content := es\<rparr>) = region_config r"
  by (simp add: region_config_def)

lemma replace_keyed_solid:
  assumes "replace_keyed_entry now key c tk k lvl r = (r', res)"
  shows "(solid r \<longrightarrow> solid r') \<and> region_config r' = region_config r"
proof -
  have push: "(solid r \<longrightarrow> solid s') \<and> region_config s' = region_config r"
    if "push_entry now c tk None k lvl (Some key) s = (s', x)"
      and "s = r \<or> s = snd (remove_by_key key r)" for s s' x
    using push_entry_solid [OF _ that(1)] push_entry_config [OF that(1)]
      remove_by_key_solid [of r key] that(2) by auto
  have stamp: "solid (r\<lparr>r_content := (r_content r)[pos :=
      (r_content r ! pos)\<lparr>e_seq := sq, e_timestamp := now\<rparr>]\<rparr>)"
    if "position_of r key = Some pos" "solid r" for pos sq
    using that by (intro same_tokens_solid map_tokens_update)
      (auto simp: position_own dest: position_lt)
  show ?thesis
    using assms push stamp
    by (auto simp: replace_keyed_entry_def split: sum.splits option.splits if_split_asm
        prod.splits)
qed

lemma region_clear_solid: "solid r \<Longrightarrow> solid (region_clear r)"
  by (simp add: solid_def region_clear_def counted_def within_budget_def)

lemma region_clear_config [simp]: "region_config (region_clear r) = region_config r"
  by (simp add: region_clear_def region_config_def)

lemma add_typed_entry_solid:
  assumes "add_typed_entry now c tk k r = (r', res)"
  shows "(solid r \<longrightarrow> solid r') \<and> region_config r' = region_config r"
proof -
  obtain s x where p: "push_entry now c tk None k Public None r = (s, x)" by fastforce
  have "r' = s \<or> r' = set_last_reasoning None s"
    using assms p by (auto simp: add_typed_entry_def add_typed_entry_with_reasoning_def
        split: sum.splits)
  then show ?thesis
    using push_entry_solid p push_entry_config [OF p] set_last_reasoning_solid by auto
qed

subsection \<open>The shared tail\<close>

lemma sheds_solid: "sheds r r' \<Longrightarrow> solid r \<Longrightarrow> solid r'"
proof -
  assume sh: "sheds r r'" and s: "solid r"
  have c: "counted r" "counted r'" using sh s by (auto simp: sheds_def solid_def)
  have "subseq (r_content r') (r_content r)" using sh by (simp add: sheds_def)
  then have "sum_list (map e_tokens (r_content r')) \<le> sum_list (map e_tokens (r_content r))"
    by (induction rule: list_emb.induct) auto
  then have "r_current_tokens r' \<le> r_current_tokens r"
    using c by (simp add: counted_def entry_tokens_def)
  moreover have "r_max_tokens r' = r_max_tokens r"
    using sh region_config_same(3) [of r' r] by (simp add: sheds_def)
  ultimately show ?thesis using s c by (simp add: solid_def within_budget_def)
qed

definition all_solid :: "window \<Rightarrow> bool" where
  "all_solid w = (\<forall>r \<in> set (w_regions w). solid r)"

text \<open>Only the region at \<open>i\<close> changed, and only its entries.\<close>

definition touches_only :: "nat \<Rightarrow> window \<Rightarrow> window \<Rightarrow> bool" where
  "touches_only i w w' \<longleftrightarrow> length (w_regions w') = length (w_regions w) \<and>
     (\<forall>j < length (w_regions w). j \<noteq> i \<longrightarrow> w_regions w' ! j = w_regions w ! j) \<and>
     (i < length (w_regions w) \<longrightarrow>
        region_config (w_regions w' ! i) = region_config (w_regions w ! i)) \<and>
     w_max_tokens w' = w_max_tokens w \<and> w_scripts w' = w_scripts w \<and>
     w_hidden w' = w_hidden w \<and> w_eviction_order w' = w_eviction_order w \<and>
     (all_solid w \<longrightarrow> all_solid w')"

lemma touches_only_refl [simp]: "touches_only i w w"
  by (simp add: touches_only_def)

lemma touches_only_trans: "touches_only i a b \<Longrightarrow> touches_only i b c \<Longrightarrow> touches_only i a c"
  by (auto simp: touches_only_def)

lemma recount_simps [simp]:
  "w_regions (recount w) = w_regions w" "w_max_tokens (recount w) = w_max_tokens w"
  "w_scripts (recount w) = w_scripts w" "w_hidden (recount w) = w_hidden w"
  "w_eviction_order (recount w) = w_eviction_order w"
  "calculate_tokens (recount w) = calculate_tokens w"
  "w_current_tokens (recount w) = calculate_tokens w"
  "all_solid (recount w) = all_solid w"
  by (simp_all add: recount_def calculate_tokens_def all_solid_def)

lemma touches_recount [simp]: "touches_only i w (recount w') = touches_only i w w'"
  by (simp add: touches_only_def)

lemma touches_set_region:
  assumes "solid (w_regions w ! i) \<Longrightarrow> solid r" and "region_config r = region_config (w_regions w ! i)"
    and "i < length (w_regions w)"
  shows "touches_only i w (set_region i r w)"
  using assms
  by (auto simp: touches_only_def set_region_def all_solid_def dest!: subsetD [OF set_update_subset_insert])

lemma overflow_touches:
  assumes "try_custom_overflow name incoming w = (again, w')" and "region_index w name = Some i"
  shows "touches_only i w w'"
proof (cases "custom_script_for w name")
  case None
  with assms show ?thesis by (simp add: try_custom_overflow_def)
next
  case (Some script)
  show ?thesis
  proof (cases "on_overflow_hook script")
    case None
    with Some assms show ?thesis by (simp add: try_custom_overflow_def)
  next
    case hook: (Some hook)
    let ?r = "w_regions w ! i"
    obtain freed r' where ap: "apply_overflow hook
        (saturating_sub (r_current_tokens ?r + incoming) (r_max_tokens ?r)) ?r = (freed, r')"
      by fastforce
    have sh: "sheds ?r r'" using apply_overflow_sheds [OF ap] by simp
    have "w' = recount (set_region i r' w)"
      using assms Some hook ap by (simp add: try_custom_overflow_def Let_def)
    then show ?thesis
      using touches_set_region [OF sheds_solid [OF sh]] sh region_index_lt [OF assms(2)]
      by (simp add: sheds_def)
  qed
qed

locale region_writer =
  fixes ins :: "'a insertion"
  assumes ins_solid: "ins r = (r', res) \<Longrightarrow> solid r \<Longrightarrow> solid r'"
    and ins_config: "ins r = (r', res) \<Longrightarrow> region_config r' = region_config r"
begin

lemma ins_touches:
  "ins (w_regions w ! i) = (r', res) \<Longrightarrow> i < length (w_regions w) \<Longrightarrow>
   touches_only i w (set_region i r' w)"
  using touches_set_region ins_solid ins_config by blast

lemma write_touches:
  assumes "write_to_region name tokens ins w = (w', res)" and "region_index w name = Some i"
  shows "touches_only i w w' \<and> (\<forall>x. res = Inr x \<longrightarrow> w_current_tokens w' = calculate_tokens w')"
proof -
  note lt = region_index_lt [OF assms(2)]
  obtain r1 res1 where i1: "ins (w_regions w ! i) = (r1, res1)" by fastforce
  let ?w1 = "set_region i r1 w"
  note t1 = ins_touches [OF i1 lt]
  have idx: "region_index ?w1 name = Some i"
  proof -
    have "r_name r1 = r_name (w_regions w ! i)"
      using region_config_same(1) [OF ins_config [OF i1]] .
    then have "map r_name (w_regions ?w1) = map r_name (w_regions w)"
      using lt by (simp add: set_region_def map_update) (metis list_update_id map_update)
    moreover have "position (\<lambda>r. r_name r = name) rs = position (\<lambda>n. n = name) (map r_name rs)"
      for rs by (induction rs) auto
    ultimately show ?thesis using assms(2) unfolding region_index_def by metis
  qed
  obtain again w2 where ov: "try_custom_overflow name tokens ?w1 = (again, w2)" by fastforce
  have t2: "touches_only i w w2" by (rule touches_only_trans [OF t1 overflow_touches [OF ov idx]])
  obtain r2 res2 where i2: "ins (w_regions w2 ! i) = (r2, res2)" by fastforce
  have "i < length (w_regions w2)" using t2 lt by (simp add: touches_only_def)
  from touches_only_trans [OF t2 ins_touches [OF i2 this]]
  have t3: "touches_only i w (set_region i r2 w2)" .
  show ?thesis
    using assms i1 ov i2 t1 t2 t3
    by (auto simp: write_to_region_def Let_def split: sum.splits core_error.splits bool.splits)
qed

lemma write_missing:
  "region_index w name = None \<Longrightarrow> write_to_region name tokens ins w = (w, Inl (RegionNotFound name))"
  by (simp add: write_to_region_def)

end

interpretation plain: region_writer "add_maybe_keyed now key content tokens"
  for now key content tokens
  by unfold_locales
    (auto simp: add_maybe_keyed_def add_keyed_entry_def add_entry_def
      intro: push_entry_solid push_entry_config split: option.splits)

lemma typed_insert_keeps:
  assumes "typed_insert now key taint content tokens kind ovr r = (r', res)"
  shows "(solid r \<longrightarrow> solid r') \<and> region_config r' = region_config r"
proof -
  have keyed: "(solid r \<longrightarrow> solid s) \<and> region_config s = region_config r"
    if "replace_keyed_entry now k content tokens kind l r = (s, x)" for k l s x
    using replace_keyed_solid [OF that] .
  have tainted: "(solid r \<longrightarrow> solid s) \<and> region_config s = region_config r"
    if "add_typed_tainted_entry now content tokens kind l r = (s, x)" for l s x
    using that push_entry_solid push_entry_config unfolding add_typed_tainted_entry_def by blast
  have plain: "(solid r \<longrightarrow> solid s) \<and> region_config s = region_config r"
    if "add_typed_entry now content tokens kind r = (s, x)" for s x
    using add_typed_entry_solid [OF that] .
  from assms obtain s where s: "(solid r \<longrightarrow> solid s) \<and> region_config s = region_config r"
      "r' = s \<or> r' = set_last_key ovr s"
    by (cases key; cases taint)
      (auto simp: typed_insert_def dest!: keyed tainted plain split: prod.splits sum.splits)
  then show ?thesis using set_last_key_solid by auto
qed

interpretation typed: region_writer "typed_insert now key taint content tokens kind ovr"
  for now key taint content tokens kind ovr
  by unfold_locales (use typed_insert_keeps in blast)+

subsection \<open>What a write promises\<close>

lemma get_region_index: "get_region w name = map_option (\<lambda>i. w_regions w ! i) (region_index w name)"
proof -
  have "find P rs = map_option (\<lambda>i. rs ! i) (position P rs)" for P and rs :: "region list"
    by (induction rs) (auto simp: option.map_comp comp_def)
  then show ?thesis by (simp add: get_region_def region_index_def)
qed

lemma decision_missing:
  "region_index w name = None \<Longrightarrow> on_write_decision w name c t k key = Store c t None"
  by (simp add: on_write_decision_def custom_script_for_def get_region_index split: option.splits)

lemma decision_refused:
  assumes "on_write_decision w name content tokens kind key = Refused c t reason"
  shows "c = content \<and> t = tokens"
  using assms
  by (auto simp: on_write_decision_def split: option.splits on_write_outcome.splits)

text \<open>
  A write stays where it was sent. Whatever the hooks answer, a typed write to a
  region changes that region's entries and nothing else of the window: every other region,
  the budgets, the scripts, the hidden set are what they were, every region stays counted
  and within its budget, and after an accepted write the window's count is the sum of its
  regions' counts. A write to a region that does not exist changes nothing.
\<close>

theorem typed_write_is_local:
  assumes "typed_write_keyed now origin name kind taint key content tokens w = (w', res)"
    and "all_solid w"
  shows "(case region_index w name of
            None \<Rightarrow> w' = w \<and> res = Inl (RegionNotFound name)
          | Some i \<Rightarrow> length (w_regions w') = length (w_regions w) \<and>
              (\<forall>j < length (w_regions w). j \<noteq> i \<longrightarrow> w_regions w' ! j = w_regions w ! j) \<and>
              region_config (w_regions w' ! i) = region_config (w_regions w ! i) \<and>
              w_max_tokens w' = w_max_tokens w \<and> w_scripts w' = w_scripts w \<and>
              w_hidden w' = w_hidden w) \<and>
         all_solid w' \<and> (\<forall>kw. res = Inr kw \<longrightarrow> w_current_tokens w' = calculate_tokens w')"
proof (cases "region_index w name")
  case None
  then have "on_write_as origin w name (content_text content) tokens kind None =
      Inr (content_text content, tokens, None)"
    by (simp add: on_write_as_def on_write_agent_def on_write_system_def decision_missing
        split: write_origin.splits)
  with assms(1) typed.write_missing [OF None]
  have "w' = w \<and> res = Inl (RegionNotFound name)" by (simp add: typed_write_keyed_def Let_def)
  with None assms(2) show ?thesis by simp
next
  case (Some i)
  have lt: "i < length (w_regions w)" by (rule region_index_lt [OF Some])
  have "touches_only i w w' \<and> (\<forall>x. res = Inr x \<longrightarrow> w_current_tokens w' = calculate_tokens w')"
    using assms(1) typed.write_touches [OF _ Some]
    by (auto simp: typed_write_keyed_def Let_def split: sum.splits)
  with Some lt assms(2) show ?thesis by (simp add: touches_only_def)
qed

lemma ex_full_solid: "all_solid ex_full"
  by (simp add: all_solid_def ex_full_def region_eval solid_def counted_def within_budget_def)

theorem typed_write_is_local_witness:
  "\<exists>w' res. typed_write_keyed 7 Agent ''scratch'' Text None None (text_content ''note'') 5 ex_full
     = (w', res) \<and> w_regions w' ! 0 = w_regions ex_full ! 0 \<and> all_solid w'"
proof -
  obtain w' res where run: "typed_write_keyed 7 Agent ''scratch'' Text None None
    (text_content ''note'') 5 ex_full = (w', res)" by fastforce
  have "region_index ex_full ''scratch'' = Some 1" "0 < length (w_regions ex_full)"
    by (simp_all add: region_index_def ex_full_def region_eval)
  with typed_write_is_local [OF run ex_full_solid] run show ?thesis by auto
qed

text \<open>
  what a hook's refusal does depends on whose write it is. Refused by \<open>on_write\<close>, a
  write of the agent's changes nothing and is reported as an error that names the region; a
  write of the framework's is stored all the same, exactly as it was sent and under the key
  it named.
\<close>

theorem refused_write_by_origin:
  assumes "on_write_decision w name (content_text content) tokens kind None = Refused c t reason"
  shows "(\<exists>why. typed_write_keyed now Agent name kind taint key content tokens w =
            (w, Inl (RegionRefusedWrite name why)) \<and> (reason \<noteq> None \<longrightarrow> reason = Some why)) \<and>
         typed_write_keyed now System name kind taint key content tokens w =
            write_to_region name tokens (typed_insert now key taint content tokens kind None) w"
  using assms decision_refused [OF assms]
  by (auto simp: typed_write_keyed_def on_write_as_def on_write_agent_def on_write_system_def
      Let_def split: option.splits)

definition ex_refusing :: window where
  "ex_refusing = ex_full\<lparr>w_regions := [region_new ''brain'' (Custom ''b.rhai'' False) 100],
     w_current_tokens := 0,
     w_scripts := (\<lambda>p. if p = ''b.rhai'' then Some
        \<lparr>on_write_hook = Some (\<lambda>r c t k key. Inr (JObj [(''action'', JStr ''reject''),
            (''reason'', JStr ''no'')])), on_overflow_hook = None\<rparr> else None)\<rparr>"

theorem refused_write_by_origin_witness:
  "typed_write_keyed 7 Agent ''brain'' Text None None (text_content ''x'') 5 ex_refusing =
     (ex_refusing, Inl (RegionRefusedWrite ''brain'' ''no''))"
proof -
  have "on_write_decision ex_refusing ''brain'' (content_text (text_content ''x'')) 5 Text None =
      Refused ''x'' 5 (Some ''no'')"
    by (simp add: on_write_decision_def custom_script_for_def get_region_def ex_refusing_def
        region_eval apply_on_write_def on_write_map_outcome_def string_field_def)
  from refused_write_by_origin [OF this, of 7 None None] show ?thesis by auto
qed

subsection \<open>The order the cascade keeps\<close>

lemma clear_phase_untouched:
  "clear_phase t is w = (w', b) \<Longrightarrow> \<not> clearable (w_regions w ! j) \<Longrightarrow>
   w_regions w' ! j = w_regions w ! j"
proof (induction t "is" w rule: clear_phase.induct)
  case (2 t i "is" w)
  show ?case
  proof (cases "clears (w_regions w ! i)")
    case True
    obtain freed r' where ev: "evict_all (w_regions w ! i) = (freed, r')" by fastforce
    let ?w = "give_back i r' freed w"
    have "i \<noteq> j" using True "2.prems"(2) by (auto simp: clears_def clearable_def)
    then have same: "w_regions ?w ! j = w_regions w ! j" by (simp add: give_back_def set_region_def)
    show ?thesis
    proof (cases "target_met t ?w")
      case True
      with "2.prems"(1) \<open>clears _\<close> ev same show ?thesis by (auto simp: Let_def)
    next
      case False
      with "2.prems"(1) True ev have "clear_phase t is ?w = (w', b)" by (simp add: Let_def)
      from "2.IH"(1) [OF True ev [symmetric] refl refl False this] same "2.prems"(2)
      show ?thesis by simp
    qed
  next
    case False
    with 2 show ?thesis by simp
  qed
qed simp

lemma overflow_phase_untouched:
  "overflow_phase t is n w = (w', n') \<Longrightarrow> \<not> unpinned_custom (w_regions w ! j) \<Longrightarrow>
   w_regions w' ! j = w_regions w ! j"
proof (induction t "is" n w rule: overflow_phase.induct)
  case (2 t i "is" n w)
  let ?need = "saturating_sub t (free_tokens w)"
  show ?case
  proof (cases "?need = 0")
    case False
    show ?thesis
    proof (cases "overflow_asked w i")
      case None
      with "2.IH"(1) [OF refl False None] "2.prems" False show ?thesis by simp
    next
      case (Some hook)
      obtain freed r' where ap: "apply_overflow hook ?need (w_regions w ! i) = (freed, r')"
        by fastforce
      let ?w = "give_back i r' freed w"
      have "i \<noteq> j"
        using Some "2.prems"(2) by (auto simp: overflow_asked_def Let_def split: if_splits)
      then have same: "w_regions ?w ! j = w_regions w ! j"
        by (simp add: give_back_def set_region_def)
      from "2.prems"(1) False Some ap have "overflow_phase t is (n + freed) ?w = (w', n')" by simp
      from "2.IH"(2) [OF refl False Some ap [symmetric] refl this] same "2.prems"(2)
      show ?thesis by simp
    qed
  qed (use "2.prems" in simp)
qed simp

text \<open>
  the eviction order is kept. A temporary region the order does not name loses an
  entry only once every region it names, of those the phase may roll off, has no turn group
  left to give.
\<close>

theorem named_regions_give_first:
  assumes run: "try_evict t w = (w', res)" and turns: "eviction_turns w = (named, rest)"
    and j: "j \<in> set rest" and temp: "r_kind (w_regions w ! j) = Temporary"
    and lost: "w_regions w' ! j \<noteq> w_regions w ! j"
    and i: "i \<in> set named" and gives: "gives_oldest (w_regions w' ! i)"
  shows "remove_oldest (w_regions w' ! i) = None"
proof -
  note sp = eviction_turns_spec [OF turns]
  have jn: "j \<notin> set named" and jlt: "j < length (w_regions w)" using sp j by auto
  have iwr: "i \<notin> set rest" "i < length (w_regions w)" using sp i by auto
  obtain w1 b1 where c: "clear_phase t (named @ rest) w = (w1, b1)" by fastforce
  have j1: "w_regions w1 ! j = w_regions w ! j"
    by (rule clear_phase_untouched [OF c]) (simp add: clearable_def temp)
  have len1: "length (w_regions w1) = length (w_regions w)"
    using clear_phase_moves [OF c order.refl] sp window_moves_length by fastforce
  obtain w2 n2 where o: "overflow_phase t (named @ rest) 0 w1 = (w2, n2)" by fastforce
  have j2: "w_regions w2 ! j = w_regions w ! j"
    using overflow_phase_untouched [OF o, of j] j1 by (simp add: unpinned_custom_def temp)
  have len2: "length (w_regions w2) = length (w_regions w)"
    using window_moves_length [OF overflow_phase_moves [OF o order.refl]] sp len1 by fastforce
  obtain w3 b3 where nm: "named_phase t named w2 = (w3, b3)" by fastforce
  have m3: "window_moves evicts (set named) w2 w3"
    using named_phase_moves [OF nm order.refl] sp len2 by auto
  have j3: "w_regions w3 ! j = w_regions w ! j"
    using window_moves_outside [OF m3 _ jn] j2 jlt len2 by simp
  have len3: "length (w_regions w3) = length (w_regions w)"
    using window_moves_length [OF m3] len2 by simp
  obtain w4 b4 where rs: "rest_phase t rest w3 = (w4, b4)" by fastforce
  have m4: "window_moves evicts (set rest) w3 w4"
    using rest_phase_moves [OF rs order.refl] sp len3 by auto
  have stop: "\<not> b1" "\<not> (0 < n2 \<and> target_met t w2)" "\<not> b3" "w' = w4"
    using run turns c o nm rs lost j1 j2 j3
    by (auto simp: try_evict_def Let_def split: if_splits bool.splits)
  have same: "w_regions w' ! i = w_regions w3 ! i"
    using window_moves_outside [OF m4 _ iwr(1)] iwr(2) len3 stop(4) by simp
  have "gives_oldest (w_regions w2 ! i)"
    using gives same iwr(2) len2
      evictable_config(2) [OF evicts_config [OF window_moves_nth [OF m3]]] by simp
  then show ?thesis
    using named_phase_emptied [of t named w2 w3] nm stop(3) sp len2 i same by auto
qed

definition ex_ordered :: window where
  "ex_ordered = ex_full\<lparr>w_regions := [(region_new ''keep'' Temporary 100)
        \<lparr>r_content := [ex_entry ''a'' 30 1 Text False], r_current_tokens := 30\<rparr>,
      (region_new ''first'' Temporary 100)
        \<lparr>r_content := [ex_entry ''b'' 20 1 Text False], r_current_tokens := 20\<rparr>],
    w_current_tokens := 50, w_max_tokens := 60, w_eviction_order := [''first'']\<rparr>"

lemma ex_ordered_turns: "eviction_turns ex_ordered = ([1], [0])"
  by (simp add: eviction_turns_def ex_ordered_def region_index_def region_eval upt_rec)

theorem named_regions_give_first_witness:
  "\<exists>w' res. try_evict 50 ex_ordered = (w', res) \<and> remove_oldest (w_regions w' ! 1) = None"
proof -
  obtain w' res where run: "try_evict 50 ex_ordered = (w', res)" by fastforce
  have "map (map e_tokens \<circ> r_content) (w_regions (fst (try_evict 50 ex_ordered))) = [[], []] \<and>
      map gives_oldest (w_regions (fst (try_evict 50 ex_ordered))) = [True, True]"
    by code_simp
  moreover obtain a b where ab: "w_regions w' = [a, b]"
  proof -
    have "length (w_regions w') = 2"
      using window_moves_length [OF try_evict_moves(1) [OF run]] by (simp add: ex_ordered_def)
    then show thesis using that by (auto simp: numeral_2_eq_2 length_Suc_conv)
  qed
  ultimately have lost: "w_regions w' ! 0 \<noteq> w_regions ex_ordered ! 0"
    and gives: "gives_oldest (w_regions w' ! 1)"
    using run by (auto simp: ex_ordered_def)
  have "r_kind (w_regions ex_ordered ! 0) = Temporary"
    by (simp add: ex_ordered_def region_eval)
  from named_regions_give_first [OF run ex_ordered_turns _ this lost _ gives] run
  show ?thesis by simp
qed

end
