(* ===== verification/Policy.thy ===== *)
theory Policy
  imports Region
begin

text \<open>
  The user's policy file, \<open>crates/leviath-core/src/policy.rs\<close>, and the names MCP tools are
  dispatched under, \<open>mcp_names.rs\<close>. The TOML parser is external: its result is a \<open>json\<close>
  tree, tables as objects.
\<close>

subsection \<open>Names of MCP tools\<close>

definition MAX_TOOL_NAME_LEN :: nat where "MAX_TOOL_NAME_LEN = 64"

definition is_provider_safe :: "char \<Rightarrow> bool" where
  "is_provider_safe c = (is_ascii_alphanumeric c \<or> c = CHR ''_'' \<or> c = CHR ''-'')"

text \<open>
  The characters of a UTF-8 string, each by its leading byte; a character of more than one
  byte is never provider-safe.
\<close>

definition leading_bytes :: "string \<Rightarrow> string" where
  "leading_bytes s = filter (\<lambda>c. \<not> is_continuation c) s"

datatype server_name_error = EmptyName | UnsafeCharacters string | TooLong nat

definition validate_server_name :: "string \<Rightarrow> server_name_error + unit" where
  "validate_server_name name =
     (if name = [] then Inl EmptyName
      else let bad = filter (\<lambda>c. \<not> is_provider_safe c) (leading_bytes name) in
        if bad \<noteq> [] then Inl (UnsafeCharacters bad)
        else if MAX_TOOL_NAME_LEN \<le> length name then Inl (TooLong (length name))
        else Inr ())"

definition sanitize_tool_name :: "string \<Rightarrow> string" where
  "sanitize_tool_name name =
     (let out = take MAX_TOOL_NAME_LEN
        (map (\<lambda>c. if is_provider_safe c then c else CHR ''_'') (leading_bytes name))
      in if out = [] then ''tool'' else out)"

definition advertised_name :: "string \<Rightarrow> string \<Rightarrow> string" where
  "advertised_name server tool = sanitize_tool_name (server @ ''__'' @ tool)"

lemma continuation_unsafe: "is_continuation c \<Longrightarrow> \<not> is_provider_safe c"
  by (auto simp: is_continuation_def is_provider_safe_def is_ascii_alphanumeric_def Let_def)

lemma safe_leading: "list_all is_provider_safe s \<Longrightarrow> leading_bytes s = s"
  using continuation_unsafe by (auto simp: leading_bytes_def list_all_iff filter_id_conv)

text \<open>What is sent to a provider is within its limits, whatever the server called it.\<close>

lemma sanitized_safe:
  "list_all is_provider_safe (sanitize_tool_name s) \<and> sanitize_tool_name s \<noteq> [] \<and>
   length (sanitize_tool_name s) \<le> MAX_TOOL_NAME_LEN"
proof -
  have tool: "list_all is_provider_safe ''tool''"
    by (simp add: is_provider_safe_def is_ascii_alphanumeric_def)
  have "is_provider_safe (CHR ''_'')" by (simp add: is_provider_safe_def)
  then have "list_all is_provider_safe
      (take n (map (\<lambda>c. if is_provider_safe c then c else CHR ''_'') xs))" for n xs
    by (auto simp: list_all_iff dest!: in_set_takeD)
  with tool show ?thesis by (simp add: sanitize_tool_name_def Let_def MAX_TOOL_NAME_LEN_def)
qed

text \<open>A name that is fine already is not rewritten.\<close>

lemma sanitize_fixed:
  assumes "list_all is_provider_safe s" and "s \<noteq> []" and "length s \<le> MAX_TOOL_NAME_LEN"
  shows "sanitize_tool_name s = s"
proof -
  have "map (\<lambda>c. if is_provider_safe c then c else CHR ''_'') s = s"
    using assms(1) by (simp add: list_all_iff map_idI)
  with assms safe_leading [OF assms(1)] show ?thesis
    by (simp add: sanitize_tool_name_def Let_def)
qed

text \<open>A valid server name is a prefix of every name its tools get.\<close>

lemma validated_safe: "validate_server_name name = Inr () \<Longrightarrow> list_all is_provider_safe (leading_bytes name)"
  by (auto simp: validate_server_name_def Let_def list_all_iff filter_empty_conv split: if_splits)

subsection \<open>Allowlist rules\<close>

record allowlist_rule =
  ar_tool :: string
  ar_to :: "string list"
  ar_channel :: "string list"
  ar_max_sensitivity :: taint_level

definition STAR :: char where "STAR = CHR ''*''"

definition glob_matches :: "string \<Rightarrow> string \<Rightarrow> bool" where
  "glob_matches pattern val =
     (if pattern = [STAR] then True
      else if pattern \<noteq> [] \<and> hd pattern = STAR then suffix (tl pattern) val
      else if pattern \<noteq> [] \<and> last pattern = STAR then prefix (butlast pattern) val
      else pattern = val)"

definition rule_matches :: "allowlist_rule \<Rightarrow> string \<Rightarrow> string option \<Rightarrow> taint_level \<Rightarrow> bool" where
  "rule_matches rule tool target taint =
     (if ar_tool rule \<noteq> tool then False
      else if ar_max_sensitivity rule < taint then False
      else if ar_to rule = [] \<and> ar_channel rule = [] then True
      else (case target of
              None \<Rightarrow> False
            | Some t \<Rightarrow> list_ex (\<lambda>p. glob_matches p t) (ar_to rule) \<or>
                        list_ex (\<lambda>p. glob_matches p t) (ar_channel rule)))"

record mcp_override =
  mo_sensitivity :: "taint_level option"
  mo_direction :: "string option"
  mo_clearance :: "taint_level option"

record policy_config =
  pc_allowlist :: "allowlist_rule list"
  pc_mcp_overrides :: "(string \<times> mcp_override) list"

definition check_allowlist :: "policy_config \<Rightarrow> string \<Rightarrow> string option \<Rightarrow> taint_level \<Rightarrow> nat option"
  where
  "check_allowlist pc tool target taint =
     position (\<lambda>rule. rule_matches rule tool target taint) (pc_allowlist pc)"

text \<open>A rule that matches at one level matches at every lower one.\<close>

lemma rule_matches_antimono:
  "rule_matches rule tool target taint \<Longrightarrow> taint' \<le> taint \<Longrightarrow> rule_matches rule tool target taint'"
  by (auto simp: rule_matches_def split: if_splits option.splits)

lemma check_allowlist_Some:
  "check_allowlist pc tool target taint = Some i \<Longrightarrow>
   i < length (pc_allowlist pc) \<and> rule_matches (pc_allowlist pc ! i) tool target taint \<and>
   (\<forall>j < i. \<not> rule_matches (pc_allowlist pc ! j) tool target taint)"
  using position_Some [of "\<lambda>rule. rule_matches rule tool target taint" "pc_allowlist pc" i]
  by (simp add: check_allowlist_def)

subsection \<open>Reading the file\<close>

definition toml_get :: "json \<Rightarrow> string \<Rightarrow> json option" where
  "toml_get = json_get"

definition strings_of :: "json \<Rightarrow> string \<Rightarrow> string list" where
  "strings_of v field =
     (case toml_get v field of
        Some (JArr vs) \<Rightarrow> List.map_filter as_str vs
      | _ \<Rightarrow> [])"

definition read_rule :: "json \<Rightarrow> allowlist_rule" where
  "read_rule v =
     \<lparr>ar_tool = (case Option.bind (toml_get v ''tool'') as_str of Some s \<Rightarrow> s | None \<Rightarrow> []),
      ar_to = strings_of v ''to'', ar_channel = strings_of v ''channel'',
      ar_max_sensitivity =
        (case Option.bind (Option.bind (toml_get v ''max_sensitivity'') as_str) taint_from_str_loose
         of Some l \<Rightarrow> l | None \<Rightarrow> Public)\<rparr>"

definition read_level :: "json \<Rightarrow> string \<Rightarrow> taint_level option" where
  "read_level v field = Option.bind (Option.bind (toml_get v field) as_str) taint_from_str_loose"

definition read_override :: "json \<Rightarrow> mcp_override" where
  "read_override v =
     \<lparr>mo_sensitivity = read_level v ''sensitivity'',
      mo_direction = Option.bind (toml_get v ''direction'') as_str,
      mo_clearance = read_level v ''clearance''\<rparr>"

definition classifies_something :: "json \<Rightarrow> bool" where
  "classifies_something v =
     list_ex (\<lambda>field. Option.bind (toml_get v field) as_str \<noteq> None)
       [''sensitivity'', ''direction'', ''clearance'']"

text \<open>\<open>HashMap::insert\<close> on the pairs of the map.\<close>

fun map_insert :: "'k \<Rightarrow> 'v \<Rightarrow> ('k \<times> 'v) list \<Rightarrow> ('k \<times> 'v) list" where
  "map_insert k v [] = [(k, v)]"
| "map_insert k v ((k', v') # m) = (if k' = k then (k, v) # m else (k', v') # map_insert k v m)"

lemma map_of_map_insert [simp]: "map_of (map_insert k v m) = (map_of m)(k \<mapsto> v)"
  by (induction k v m rule: map_insert.induct) auto

lemma dom_map_insert: "set (map fst (map_insert k v m)) = insert k (set (map fst m))"
  by (induction k v m rule: map_insert.induct) auto

lemma distinct_map_insert: "distinct (map fst m) \<Longrightarrow> distinct (map fst (map_insert k v m))"
proof (induction k v m rule: map_insert.induct)
  case (2 k v k' v' m)
  then show ?case using dom_map_insert [of k v m] by auto
qed simp

definition read_entry :: "(string \<times> mcp_override) list \<Rightarrow> string \<times> json \<Rightarrow>
    (string \<times> mcp_override) list" where
  "read_entry m entry =
     (case toml_get (snd entry) ''tools'' of
        Some (JObj tools) \<Rightarrow>
          fold (\<lambda>(tool, v) acc. map_insert (advertised_name (fst entry) tool) (read_override v) acc)
            tools m
      | _ \<Rightarrow> if classifies_something (snd entry)
             then map_insert (fst entry) (read_override (snd entry)) m else m)"

definition policy_from_toml :: "string + json \<Rightarrow> string + policy_config" where
  "policy_from_toml doc =
     (case doc of
        Inl e \<Rightarrow> Inl (''Failed to parse policy.toml: '' @ e)
      | Inr v \<Rightarrow> Inr
          \<lparr>pc_allowlist = (case toml_get v ''allowlist'' of
               Some (JArr rs) \<Rightarrow> map read_rule rs | _ \<Rightarrow> []),
           pc_mcp_overrides = (case toml_get v ''mcp_overrides'' of
               Some (JObj es) \<Rightarrow> foldl read_entry [] es | _ \<Rightarrow> [])\<rparr>)"

lemma read_entry_distinct: "distinct (map fst m) \<Longrightarrow> distinct (map fst (read_entry m entry))"
proof -
  have fold: "distinct (map fst m) \<Longrightarrow> distinct (map fst (fold
      (\<lambda>(tool, v) acc. map_insert (advertised_name n tool) (read_override v) acc) tools m))"
    for n tools and m :: "(string \<times> mcp_override) list"
    by (induction tools arbitrary: m) (auto intro: distinct_map_insert)
  then show "distinct (map fst m) \<Longrightarrow> ?thesis"
    by (auto simp: read_entry_def intro: distinct_map_insert split: option.splits json.splits)
qed

lemma policy_overrides_distinct:
  "policy_from_toml doc = Inr pc \<Longrightarrow> distinct (map fst (pc_mcp_overrides pc))"
proof -
  have "distinct (map fst m) \<Longrightarrow> distinct (map fst (foldl read_entry m es))" for m es
    by (induction es arbitrary: m) (auto intro: read_entry_distinct)
  then show "policy_from_toml doc = Inr pc \<Longrightarrow> ?thesis"
    by (auto simp: policy_from_toml_def split: sum.splits option.splits json.splits)
qed

text \<open>
  A level nobody can parse is the strictest one for a rule and no override at all, never
  a more permissive one.
\<close>

lemma unreadable_rule_public:
  "read_level v ''max_sensitivity'' = None \<Longrightarrow> ar_max_sensitivity (read_rule v) = Public"
  by (auto simp: read_rule_def read_level_def split: option.splits)

end
