(* ===== verification/Gate.thy ===== *)
theory Gate
  imports Window_Writes Policy
begin

text \<open>
  The taint gate, \<open>crates/leviath-runtime/src/taint.rs\<close>: the check an outbound tool call
  passes before it runs, the rules and scripts that can let it through, what a person's
  answer does, and the audit log. The clock and a script's verdict are parameters.
\<close>

datatype gate_resolution = AllowOnce | AlwaysAllow | Deny

type_synonym script_rule_checker = "string \<Rightarrow> string option \<Rightarrow> taint_level \<Rightarrow> string option"

record taint_gate =
  g_config :: security_config
  g_overrides :: "string \<Rightarrow> tool_classification option"
  g_audit_log :: "gate_event list"
  g_audit_stages :: "nat list"
  g_stage :: nat
  g_cleared :: "string set"

definition gate_new :: "security_config \<Rightarrow> taint_gate" where
  "gate_new config = \<lparr>g_config = config, g_overrides = (\<lambda>_. None), g_audit_log = [],
     g_audit_stages = [], g_stage = 0, g_cleared = {}\<rparr>"

definition set_tool_classification :: "string \<Rightarrow> tool_classification \<Rightarrow> taint_gate \<Rightarrow> taint_gate" where
  "set_tool_classification tool cls g = g\<lparr>g_overrides := (g_overrides g)(tool \<mapsto> cls)\<rparr>"

definition classify :: "taint_gate \<Rightarrow> string \<Rightarrow> tool_classification" where
  "classify g tool =
     (case g_overrides g tool of Some c \<Rightarrow> c | None \<Rightarrow> builtin_tool_classification tool)"

definition clear_for_run :: "string \<Rightarrow> taint_gate \<Rightarrow> taint_gate" where
  "clear_for_run tool g =
     (let g' = set_tool_classification tool ((classify g tool)\<lparr>clearance := Private\<rparr>) g
      in g'\<lparr>g_cleared := g_cleared g' \<union> {tool}\<rparr>)"

definition override_classification :: "mcp_override \<Rightarrow> tool_classification \<Rightarrow> tool_classification"
  where
  "override_classification over c =
     \<lparr>sensitivity = (case mo_sensitivity over of Some l \<Rightarrow> l | None \<Rightarrow> sensitivity c),
      direction = (case Option.bind (mo_direction over) direction_from_str_loose of
         Some d \<Rightarrow> d | None \<Rightarrow> direction c),
      clearance = (case mo_clearance over of Some l \<Rightarrow> l | None \<Rightarrow> clearance c)\<rparr>"

definition apply_mcp_overrides :: "(string \<times> mcp_override) list \<Rightarrow> taint_gate \<Rightarrow> taint_gate" where
  "apply_mcp_overrides overrides g =
     fold (\<lambda>(tool, over) g.
       set_tool_classification tool (override_classification over (classify g tool)) g) overrides g"

definition log_event :: "int \<Rightarrow> string \<Rightarrow> string \<Rightarrow> taint_level \<Rightarrow> taint_level \<Rightarrow> bool \<Rightarrow>
    gate_decision_source \<Rightarrow> taint_gate \<Rightarrow> taint_gate" where
  "log_event now agent tool taint clear allowed src g =
     g\<lparr>g_audit_stages := g_audit_stages g @ [g_stage g],
       g_audit_log := g_audit_log g @
         [\<lparr>ev_timestamp = now, ev_agent_id = agent, ev_tool_name = tool, ev_taint_level = taint,
           ev_clearance = clear, ev_allowed = allowed, ev_source = src\<rparr>]\<rparr>"

subsection \<open>The check\<close>

definition source_regions :: "window \<Rightarrow> taint_level \<Rightarrow> string list" where
  "source_regions w clear = map fst (filter (\<lambda>(_, l). clear < l) (taint_summary w))"

definition check_traditional :: "int \<Rightarrow> string \<Rightarrow> string \<Rightarrow> window \<Rightarrow> taint_gate \<Rightarrow>
    taint_gate \<times> gate_decision" where
  "check_traditional now agent tool w g =
     (if \<not> taint_tracking (g_config g)
      then (log_event now agent tool Public Public True TaintDisabled g, Allowed)
      else let c = classify g tool in
        if \<not> is_outbound c
        then (log_event now agent tool Public (clearance c) True AutoAllow g, Allowed)
        else let taint = (case overall_taint w of Some l \<Rightarrow> l | None \<Rightarrow> Public) in
          if check_clearance c taint
          then (log_event now agent tool taint (clearance c) True AutoAllow g, Allowed)
          else (log_event now agent tool taint (clearance c) False AutoBlock g,
                Blocked taint (clearance c) (source_regions w (clearance c)) tool))"

definition check_with_policy :: "int \<Rightarrow> string \<Rightarrow> string \<Rightarrow> window \<Rightarrow> string option \<Rightarrow> policy_config \<Rightarrow>
    script_rule_checker option \<Rightarrow> taint_gate \<Rightarrow> taint_gate \<times> gate_decision" where
  "check_with_policy now agent tool w target pc script g =
     (case check_traditional now agent tool w g of
        (g1, Allowed) \<Rightarrow> (g1, Allowed)
      | (g1, Blocked taint clear srcs nm) \<Rightarrow>
          (case check_allowlist pc tool target taint of
             Some i \<Rightarrow> (log_event now agent tool taint clear True (AllowlistRule i) g1, Allowed)
           | None \<Rightarrow>
               (case Option.bind script (\<lambda>checker. checker tool target taint) of
                  Some name \<Rightarrow> (log_event now agent tool taint clear True (ScriptedRule name) g1, Allowed)
                | None \<Rightarrow> (g1, Blocked taint clear srcs nm))))"

text \<open>The message of a denied call; the levels are shown by their words.\<close>

definition deny_message :: "string \<Rightarrow> taint_level \<Rightarrow> taint_level \<Rightarrow> string" where
  "deny_message tool taint clear =
     ''[blocked] Tool '' @ quoted tool @ '' would send data at '' @ taint_as_str taint @
     '' sensitivity, above its '' @ taint_as_str clear @ '' clearance. Denied by user.''"

definition apply_resolution :: "int \<Rightarrow> string \<Rightarrow> string \<Rightarrow> string \<Rightarrow> taint_level \<Rightarrow> taint_level \<Rightarrow>
    gate_resolution \<Rightarrow> taint_gate \<Rightarrow> taint_gate \<times> (string \<times> string) option" where
  "apply_resolution now agent tool tool_id taint clear res g =
     (case res of
        AllowOnce \<Rightarrow> (log_event now agent tool taint clear True UserAllowOnce g, None)
      | AlwaysAllow \<Rightarrow>
          (clear_for_run tool (log_event now agent tool taint clear True UserAlwaysAllow g), None)
      | Deny \<Rightarrow> (log_event now agent tool taint clear False UserDenied g,
                 Some (tool_id, deny_message tool taint clear)))"

subsection \<open>The audit log\<close>

definition at_stage :: "nat \<Rightarrow> taint_gate \<Rightarrow> taint_gate" where
  "at_stage stage g = g\<lparr>g_stage := stage\<rparr>"

definition stage_audit :: "nat \<Rightarrow> taint_gate \<Rightarrow> gate_event list" where
  "stage_audit stage g =
     map fst (filter (\<lambda>(_, s). s = stage) (zip (g_audit_log g) (g_audit_stages g)))"

definition stages_from :: "nat \<Rightarrow> taint_gate \<Rightarrow> nat set" where
  "stages_from from g = set (drop from (g_audit_stages g))"

definition restore_audit :: "nat \<Rightarrow> gate_event list \<Rightarrow> taint_gate \<Rightarrow> taint_gate" where
  "restore_audit stage events g =
     g\<lparr>g_audit_stages := g_audit_stages g @ replicate (length events) stage,
       g_audit_log := g_audit_log g @ events\<rparr>"

definition forget_repeat :: "taint_gate \<Rightarrow> taint_gate" where
  "forget_repeat g =
     g\<lparr>g_audit_log := butlast (g_audit_log g), g_audit_stages := butlast (g_audit_stages g)\<rparr>"

subsection \<open>Lemmas\<close>

text \<open>The window's taint is the maximum over the regions that track it.\<close>

lemma overall_taint_from_spec:
  "overall_taint_from m rs =
     (case (m, List.map_filter region_taint_level rs) of
        (None, []) \<Rightarrow> None
      | (None, ls) \<Rightarrow> Some (max_level ls)
      | (Some l, ls) \<Rightarrow> Some (max l (max_level ls)))"
proof (induction rs arbitrary: m)
  case Nil
  then show ?case by (cases m) (simp_all add: map_filter_simps max_def)
next
  case (Cons r rs)
  show ?case
  proof (cases "region_taint_level r")
    case None
    with Cons show ?thesis by (simp add: map_filter_simps)
  next
    case (Some l)
    with Cons show ?thesis
      by (cases m) (simp_all add: map_filter_simps taint_max_is_max max.assoc max.left_commute)
  qed
qed

lemma overall_taint_bounds:
  assumes "r \<in> set (w_regions w)" and "region_taint_level r = Some l"
  shows "\<exists>m. overall_taint w = Some m \<and> l \<le> m"
proof -
  let ?ls = "List.map_filter region_taint_level (w_regions w)"
  have mem: "l \<in> set ?ls"
    using assms by (force simp: List.map_filter_def)
  then have "overall_taint w = Some (max_level ?ls)"
    by (cases ?ls) (simp_all add: overall_taint_def overall_taint_from_spec)
  with max_level_upper [OF mem] show ?thesis by simp
qed

lemma overall_taint_source:
  assumes "overall_taint w = Some m"
  shows "\<exists>r \<in> set (w_regions w). region_taint_level r = Some m"
proof -
  let ?ls = "List.map_filter region_taint_level (w_regions w)"
  have "?ls \<noteq> []" and m: "m = max_level ?ls"
    using assms by (cases ?ls; simp add: overall_taint_def overall_taint_from_spec)+
  then have "m \<in> set ?ls" using max_level_mem by simp
  then show ?thesis by (auto simp: List.map_filter_def)
qed

lemma source_regions_mem:
  "n \<in> set (source_regions w clear) \<longleftrightarrow>
   (\<exists>r \<in> set (w_regions w). r_name r = n \<and> (\<exists>l. region_taint_level r = Some l \<and> clear < l))"
proof -
  have mem: "(n, l) \<in> set (taint_summary w) \<longleftrightarrow>
      (\<exists>r \<in> set (w_regions w). r_name r = n \<and> region_taint_level r = Some l)" for n l
    by (auto simp: taint_summary_def List.map_filter_def image_iff)
  have "n \<in> set (source_regions w clear) \<longleftrightarrow> (\<exists>l. (n, l) \<in> set (taint_summary w) \<and> clear < l)"
    by (auto simp: source_regions_def image_iff)
  then show ?thesis unfolding mem by auto
qed

lemma log_event_simps [simp]:
  "g_config (log_event now a t l c b s g) = g_config g"
  "g_overrides (log_event now a t l c b s g) = g_overrides g"
  "g_stage (log_event now a t l c b s g) = g_stage g"
  "g_cleared (log_event now a t l c b s g) = g_cleared g"
  "g_audit_stages (log_event now a t l c b s g) = g_audit_stages g @ [g_stage g]"
  by (simp_all add: log_event_def)

lemma classify_log [simp]: "classify (log_event now a t l c b s g) = classify g"
  by (simp add: classify_def fun_eq_iff)

lemma classify_set [simp]:
  "classify (set_tool_classification tool cls g) = (classify g)(tool := cls)"
  by (auto simp: classify_def set_tool_classification_def fun_eq_iff)

lemma classify_clear [simp]:
  "classify (clear_for_run tool g) = (classify g)(tool := (classify g tool)\<lparr>clearance := Private\<rparr>)"
proof -
  have "classify (g'\<lparr>g_cleared := X\<rparr>) = classify g'" for g' X
    by (simp add: classify_def fun_eq_iff)
  then show ?thesis by (simp add: clear_for_run_def Let_def)
qed

lemma apply_overrides_other:
  "tool \<notin> set (map fst overs) \<Longrightarrow> classify (apply_mcp_overrides overs g) tool = classify g tool"
  unfolding apply_mcp_overrides_def
  by (induction overs arbitrary: g) auto

lemma apply_overrides_one:
  assumes "distinct (map fst overs)" and "(tool, over) \<in> set overs"
  shows "classify (apply_mcp_overrides overs g) tool = override_classification over (classify g tool)"
  using assms
proof (induction overs arbitrary: g)
  case (Cons p overs)
  obtain t o' where p: "p = (t, o')" by (cases p)
  let ?g = "set_tool_classification t (override_classification o' (classify g t)) g"
  have step: "apply_mcp_overrides (p # overs) g = apply_mcp_overrides overs ?g"
    by (simp add: apply_mcp_overrides_def p)
  show ?case
  proof (cases "tool = t")
    case True
    with Cons.prems p have "over = o'" and "tool \<notin> set (map fst overs)" by force+
    then show ?thesis using apply_overrides_other [of tool overs ?g] True by (simp add: step)
  next
    case False
    with Cons.prems p have "distinct (map fst overs)" "(tool, over) \<in> set overs" by auto
    with Cons.IH [of ?g] False show ?thesis by (simp add: step)
  qed
qed simp

definition audit_ok :: "taint_gate \<Rightarrow> bool" where
  "audit_ok g = (length (g_audit_stages g) = length (g_audit_log g))"

lemma audit_ok_intros [wf_intros]:
  "audit_ok (gate_new config)"
  "audit_ok g \<Longrightarrow> audit_ok (log_event now a t l c b s g)"
  "audit_ok g \<Longrightarrow> audit_ok (clear_for_run tool g)"
  "audit_ok g \<Longrightarrow> audit_ok (restore_audit stage es g)"
  "audit_ok g \<Longrightarrow> audit_ok (forget_repeat g)"
  by (simp_all add: audit_ok_def gate_new_def log_event_def clear_for_run_def restore_audit_def
      forget_repeat_def set_tool_classification_def Let_def)

end
