(* ===== verification/Gate_Properties.thy ===== *)
theory Gate_Properties
  imports Gate
begin

text \<open>
  What the taint gate promises, from the window it reads to the log it leaves.
\<close>

definition window_taint :: "window \<Rightarrow> taint_level" where
  "window_taint w = (case overall_taint w of Some l \<Rightarrow> l | None \<Rightarrow> Public)"

text \<open>What the gate is meant to let through, in one line per reason.\<close>

definition may_run :: "taint_gate \<Rightarrow> policy_config \<Rightarrow> script_rule_checker option \<Rightarrow> window \<Rightarrow> string \<Rightarrow>
    string option \<Rightarrow> bool" where
  "may_run g pc script w tool target \<longleftrightarrow>
     \<not> taint_tracking (g_config g) \<or>
     direction (classify g tool) \<noteq> Outbound \<or>
     window_taint w \<le> clearance (classify g tool) \<or>
     (\<exists>rule \<in> set (pc_allowlist pc). rule_matches rule tool target (window_taint w)) \<or>
     (\<exists>checker. script = Some checker \<and> checker tool target (window_taint w) \<noteq> None)"

lemma allowlist_None:
  "check_allowlist pc tool target taint = None \<longleftrightarrow>
   (\<forall>rule \<in> set (pc_allowlist pc). \<not> rule_matches rule tool target taint)"
  by (simp add: check_allowlist_def)

lemma traditional_cases:
  "check_traditional now agent tool w g =
     (if \<not> taint_tracking (g_config g) \<or> direction (classify g tool) \<noteq> Outbound \<or>
         window_taint w \<le> clearance (classify g tool)
      then (fst (check_traditional now agent tool w g), Allowed)
      else (log_event now agent tool (window_taint w) (clearance (classify g tool)) False AutoBlock g,
            Blocked (window_taint w) (clearance (classify g tool))
              (source_regions w (clearance (classify g tool))) tool))"
  by (auto simp: check_traditional_def Let_def is_outbound_def check_clearance_def window_taint_def)

lemma traditional_allowed:
  assumes "\<not> taint_tracking (g_config g) \<or> direction (classify g tool) \<noteq> Outbound \<or>
    window_taint w \<le> clearance (classify g tool)"
  shows "snd (check_traditional now agent tool w g) = Allowed"
  using assms traditional_cases [of now agent tool w g] by (metis snd_conv)

lemma traditional_blocked:
  assumes "\<not> (\<not> taint_tracking (g_config g) \<or> direction (classify g tool) \<noteq> Outbound \<or>
    window_taint w \<le> clearance (classify g tool))"
  shows "check_traditional now agent tool w g =
      (log_event now agent tool (window_taint w) (clearance (classify g tool)) False AutoBlock g,
       Blocked (window_taint w) (clearance (classify g tool))
         (source_regions w (clearance (classify g tool))) tool)"
  using assms traditional_cases [of now agent tool w g] by metis

lemma policy_of_allowed:
  assumes "snd (check_traditional now agent tool w g) = Allowed"
  shows "check_with_policy now agent tool w target pc script g = check_traditional now agent tool w g"
  using assms by (cases "check_traditional now agent tool w g") (simp add: check_with_policy_def)

lemma policy_cases:
  "snd (check_with_policy now agent tool w target pc script g) =
     (if may_run g pc script w tool target then Allowed
      else Blocked (window_taint w) (clearance (classify g tool))
             (source_regions w (clearance (classify g tool))) tool)"
proof (cases "\<not> taint_tracking (g_config g) \<or> direction (classify g tool) \<noteq> Outbound \<or>
    window_taint w \<le> clearance (classify g tool)")
  case True
  have "may_run g pc script w tool target" using True unfolding may_run_def by blast
  then show ?thesis
    by (simp add: policy_of_allowed traditional_allowed [OF True])
next
  case False
  note trad = traditional_blocked [OF False, of now agent]
  show ?thesis
  proof (cases "check_allowlist pc tool target (window_taint w)")
    case None
    then have none: "\<not> (\<exists>rule \<in> set (pc_allowlist pc). rule_matches rule tool target (window_taint w))"
      by (simp add: allowlist_None)
    have may: "may_run g pc script w tool target \<longleftrightarrow>
        (\<exists>checker. script = Some checker \<and> checker tool target (window_taint w) \<noteq> None)"
      using False none unfolding may_run_def by blast
    show ?thesis
    proof (cases script)
      case (Some checker)
      then show ?thesis
        by (cases "checker tool target (window_taint w)")
          (use may in \<open>simp_all add: check_with_policy_def trad None\<close>)
    qed (use may in \<open>simp add: check_with_policy_def trad None\<close>)
  next
    case (Some i)
    have "\<exists>rule \<in> set (pc_allowlist pc). rule_matches rule tool target (window_taint w)"
      using check_allowlist_Some [OF Some] by (meson nth_mem)
    then have "may_run g pc script w tool target" unfolding may_run_def by blast
    then show ?thesis by (simp add: check_with_policy_def trad Some)
  qed
qed

text \<open>
  C30: the gate decides exactly what it is meant to. A call runs if and only if tracking is
  off, the tool does not send data out, the window's taint is within the tool's clearance,
  an allowlist rule covers the tool, the target and that taint, or the script says so.
  Otherwise it is blocked with the window's taint, the tool's clearance, and exactly the
  regions above that clearance, of which there is at least one.
\<close>

theorem gate_decides_by_its_policy:
  "case snd (check_with_policy now agent tool w target pc script g) of
     Allowed \<Rightarrow> may_run g pc script w tool target
   | Blocked taint clear srcs name \<Rightarrow>
       \<not> may_run g pc script w tool target \<and> name = tool \<and>
       taint = window_taint w \<and> clear = clearance (classify g tool) \<and> clear < taint \<and>
       srcs \<noteq> [] \<and>
       (\<forall>n. n \<in> set srcs \<longleftrightarrow> (\<exists>r \<in> set (w_regions w). r_name r = n \<and>
          (\<exists>l. region_taint_level r = Some l \<and> clear < l)))"
proof (cases "may_run g pc script w tool target")
  case False
  let ?c = "clearance (classify g tool)"
  from False have lt: "?c < window_taint w" by (auto simp: may_run_def)
  then have "overall_taint w = Some (window_taint w)"
    by (cases "overall_taint w") (auto simp: window_taint_def taint_order)
  from overall_taint_source [OF this] obtain r where
    "r \<in> set (w_regions w)" "region_taint_level r = Some (window_taint w)" by blast
  with lt have "r_name r \<in> set (source_regions w ?c)" by (auto simp: source_regions_mem)
  then have "source_regions w ?c \<noteq> []" by auto
  with False lt show ?thesis by (simp add: policy_cases source_regions_mem)
qed (simp add: policy_cases)

definition ex_gate :: taint_gate where
  "ex_gate = gate_new \<lparr>taint_tracking = True\<rparr>"

definition ex_tainted :: window where
  "ex_tainted = add_region ex_written (window_new 1000)"

definition ex_policy :: policy_config where
  "ex_policy = \<lparr>pc_allowlist = [\<lparr>ar_tool = ''send_email'', ar_to = [''megan@*''], ar_channel = [],
     ar_max_sensitivity = Private\<rparr>], pc_mcp_overrides = []\<rparr>"

theorem gate_decides_by_its_policy_witness:
  "may_run ex_gate ex_policy None ex_tainted ''send_email'' (Some ''megan@work'') \<and>
   \<not> may_run ex_gate ex_policy None ex_tainted ''send_email'' (Some ''bob@work'')"
proof -
  have a: "snd (check_with_policy 0 ''a'' ''send_email'' ex_tainted (Some ''megan@work'') ex_policy
      None ex_gate) = Allowed" by code_simp
  have b: "snd (check_with_policy 0 ''a'' ''send_email'' ex_tainted (Some ''bob@work'') ex_policy
      None ex_gate) = Blocked Private Public [''notes''] ''send_email''" by code_simp
  show ?thesis
    using gate_decides_by_its_policy [where now = 0 and agent = "''a''" and tool = "''send_email''"
        and w = ex_tainted and target = "Some ''megan@work''" and pc = ex_policy
        and script = None and g = ex_gate]
      gate_decides_by_its_policy [where now = 0 and agent = "''a''" and tool = "''send_email''"
        and w = ex_tainted and target = "Some ''bob@work''" and pc = ex_policy
        and script = None and g = ex_gate]
    by (simp add: a b)
qed

text \<open>
  C10: no entry leaves above the clearance. When the plain check lets a tool run under tracking,
  and the tool is classified as outbound, every level recorded for an entry of any region, whose
  record is in step, is within the tool's clearance. A tool nobody classified, neither the
  configuration nor the built-in table, needs no such classification to be held: it runs only
  while everything so recorded is public.
\<close>

theorem outbound_call_is_cleared:
  assumes "snd (check_traditional now agent tool w g) = Allowed"
    and "taint_tracking (g_config g)"
    and "is_outbound (classify g tool) \<or> g_overrides g tool = None \<and> classified_builtin tool = None"
    and "r \<in> set (w_regions w)" and "taint_aligned r" and "(e, l) \<in> set (tagged r)"
  shows "l \<le> clearance (classify g tool) \<and>
         (g_overrides g tool = None \<and> classified_builtin tool = None \<longrightarrow> l = Public)"
proof -
  from assms(6) obtain t where t: "r_taint r = Some t" by (cases "r_taint r") (auto simp: tagged_def)
  with assms(5,6) have "taint_ok t" "l \<in> set (entry_taints t)"
    by (auto simp: taint_aligned_def tagged_def dest: set_zip_rightD)
  then have level: "l \<le> current_level t" by (rule rt.level_bounds)
  have outbound: "is_outbound (classify g tool)"
    using assms(3) by (auto simp: is_outbound_def classify_def builtin_tool_classification_def)
  obtain m where m: "overall_taint w = Some m" "current_level t \<le> m"
    using overall_taint_bounds [OF assms(4), of "current_level t"] t
    by (auto simp: region_taint_level_def)
  moreover have "m \<le> clearance (classify g tool)"
    using assms(1,2) outbound m(1) traditional_cases [of now agent tool w g]
    by (auto simp: is_outbound_def window_taint_def split: if_splits)
  ultimately have le: "l \<le> clearance (classify g tool)" using level by (meson order_trans)
  moreover have "clearance (classify g tool) = Public"
    if "g_overrides g tool = None" "classified_builtin tool = None"
    using that by (simp add: classify_def builtin_tool_classification_def classification_new_def)
  ultimately show ?thesis by fastforce
qed

definition ex_calm :: window where
  "ex_calm = add_region (fst (push_entry 4 (text_content ''open'') 10 None Text Public None ex_tracked))
     (window_new 1000)"

theorem outbound_call_is_cleared_witness:
  "\<exists>r \<in> set (w_regions ex_calm). \<exists>e. tagged r = [(e, Public)] \<and>
     Public \<le> clearance (classify ex_gate ''acme__post'') \<and> classified_builtin ''acme__post'' = None"
proof -
  let ?r = "fst (push_entry 4 (text_content ''open'') 10 None Text Public None ex_tracked)"
  have run: "snd (check_traditional 0 ''a'' ''acme__post'' ex_calm ex_gate) = Allowed" by code_simp
  have on: "taint_tracking (g_config ex_gate)" by code_simp
  have new: "classified_builtin ''acme__post'' = None" "g_overrides ex_gate ''acme__post'' = None"
    by code_simp+
  have r: "?r \<in> set (w_regions ex_calm)"
    by (simp add: ex_calm_def add_region_def recount_def window_new_def)
  have al: "taint_aligned ?r"
  proof -
    have "region_reachable ex_tracked"
      by (rule reach_empty) (simp_all add: ex_tracked_def enable_taint_tracking_def region_eval)
    from region_reachable_inv [OF push_reachable [OF this]] show ?thesis
      by (simp add: region_inv_def)
  qed
  have "map snd (tagged ?r) = [Public]" by code_simp
  then obtain e where e: "tagged ?r = [(e, Public)]" by auto
  then have "(e, Public) \<in> set (tagged ?r)" by simp
  from outbound_call_is_cleared [OF run on _ r al this] new r e show ?thesis by blast
qed

subsection \<open>The audit log\<close>

lemma stage_audit_log:
  assumes "audit_ok g"
  shows "stage_audit s (log_event now a t l c b src g) = stage_audit s g @
    (if s = g_stage g then [\<lparr>ev_timestamp = now, ev_agent_id = a, ev_tool_name = t,
       ev_taint_level = l, ev_clearance = c, ev_allowed = b, ev_source = src\<rparr>] else [])"
  using assms by (simp add: stage_audit_def log_event_def audit_ok_def)

definition extends_audit :: "taint_gate \<Rightarrow> gate_event list \<Rightarrow> taint_gate \<Rightarrow> bool" where
  "extends_audit g evs g' \<longleftrightarrow>
     g' = g\<lparr>g_audit_log := g_audit_log g @ evs,
            g_audit_stages := g_audit_stages g @ replicate (length evs) (g_stage g)\<rparr> \<and>
     (audit_ok g \<longrightarrow> audit_ok g' \<and>
        (\<forall>s. stage_audit s g' = stage_audit s g @ (if s = g_stage g then evs else [])))"

lemma extends_log:
  "extends_audit g [\<lparr>ev_timestamp = now, ev_agent_id = a, ev_tool_name = t, ev_taint_level = l,
     ev_clearance = c, ev_allowed = b, ev_source = src\<rparr>] (log_event now a t l c b src g)"
  unfolding extends_audit_def
proof (intro conjI impI allI)
  assume ok: "audit_ok g"
  then show "audit_ok (log_event now a t l c b src g)" by (rule audit_ok_intros)
  show "stage_audit s (log_event now a t l c b src g) = stage_audit s g @
      (if s = g_stage g then [\<lparr>ev_timestamp = now, ev_agent_id = a, ev_tool_name = t, ev_taint_level = l,
         ev_clearance = c, ev_allowed = b, ev_source = src\<rparr>] else [])" for s
    by (rule stage_audit_log [OF ok])
qed (simp add: log_event_def)

lemma extends_trans:
  "extends_audit g a g1 \<Longrightarrow> extends_audit g1 b g2 \<Longrightarrow> extends_audit g (a @ b) g2"
  by (auto simp: extends_audit_def replicate_add)

text \<open>
  C31: every check leaves its trace. A check appends to the log one event, or two when a
  rule or a script overrules a block; earlier events stay, the stage's file gains exactly
  the new ones, the last says what was decided, and every other field of the gate, the tools
  cleared for the run among them, is what it was. A log and its stages that are in step stay so.
\<close>

theorem every_check_is_logged:
  "\<exists>evs. extends_audit g evs (fst (check_with_policy now agent tool w target pc script g)) \<and>
     (length evs = 1 \<or> length evs = 2 \<and> ev_source (hd evs) = AutoBlock) \<and>
     ev_tool_name (last evs) = tool \<and> ev_agent_id (last evs) = agent \<and>
     ev_allowed (last evs) = is_allowed (snd (check_with_policy now agent tool w target pc script g))"
proof -
  obtain g1 d where trad: "check_traditional now agent tool w g = (g1, d)" by fastforce
  then obtain ev where one: "extends_audit g [ev] g1" and ev: "ev_tool_name ev = tool"
    "ev_agent_id ev = agent" "ev_allowed ev = is_allowed d"
    "\<not> is_allowed d \<Longrightarrow> ev_source ev = AutoBlock"
    using extends_log by (fastforce simp: check_traditional_def Let_def split: if_splits)
  show ?thesis
  proof (cases "fst (check_with_policy now agent tool w target pc script g) = g1 \<and>
      snd (check_with_policy now agent tool w target pc script g) = d")
    case True
    with one ev show ?thesis by (intro exI [of _ "[ev]"]) auto
  next
    case False
    then obtain taint clear src where
      run: "check_with_policy now agent tool w target pc script g =
        (log_event now agent tool taint clear True src g1, Allowed)" and d: "\<not> is_allowed d"
      using trad by (cases d) (auto simp: check_with_policy_def split: option.splits)
    let ?ev = "\<lparr>ev_timestamp = now, ev_agent_id = agent, ev_tool_name = tool,
      ev_taint_level = taint, ev_clearance = clear, ev_allowed = True, ev_source = src\<rparr>"
    from extends_trans [OF one extends_log] run ev d show ?thesis
      by (intro exI [of _ "[ev, ?ev]"]) auto
  qed
qed

theorem every_check_is_logged_witness:
  "\<exists>evs. extends_audit ex_gate evs (fst (check_with_policy 0 ''a'' ''send_email'' ex_tainted
     (Some ''bob@work'') ex_policy None ex_gate)) \<and> evs \<noteq> []"
  using every_check_is_logged [where g = ex_gate and now = 0 and agent = "''a''"
      and tool = "''send_email''" and w = ex_tainted and target = "Some ''bob@work''"
      and pc = ex_policy and script = None] by fastforce

text \<open>
  what a person's answer changes. \<open>Deny\<close> returns the refusal under the call's id and
  \<open>AllowOnce\<close> lets the one call run, and neither changes any tool's classification. After
  \<open>AlwaysAllow\<close> the plain check never blocks that tool again in this run, whatever the
  window holds, and every other tool is classified as before.
\<close>

theorem resolution_scope:
  assumes "apply_resolution now agent tool tid taint clear res g = (g', answer)"
  shows "(answer = (if res = Deny then Some (tid, deny_message tool taint clear) else None)) \<and>
         (res \<noteq> AlwaysAllow \<longrightarrow> classify g' = classify g) \<and>
         (res = AlwaysAllow \<longrightarrow>
            (\<forall>w now' agent'. snd (check_traditional now' agent' tool w g') = Allowed) \<and>
            (\<forall>other. other \<noteq> tool \<longrightarrow> classify g' other = classify g other)) \<and>
         g_config g' = g_config g"
proof (cases res)
  case AlwaysAllow
  then have g': "g' = clear_for_run tool (log_event now agent tool taint clear True UserAlwaysAllow g)"
    and none: "answer = None"
    using assms by (simp_all add: apply_resolution_def)
  have "clearance (classify g' tool) = Private" by (simp add: g')
  then have "snd (check_traditional now' agent' tool w g') = Allowed" for w now' agent'
    by (subst traditional_cases) simp
  with AlwaysAllow none show ?thesis
    by (simp add: g') (simp add: clear_for_run_def set_tool_classification_def Let_def)
qed (use assms in \<open>auto simp: apply_resolution_def\<close>)

theorem resolution_scope_witness:
  "snd (check_traditional 1 ''a'' ''send_email'' ex_tainted
     (fst (apply_resolution 0 ''a'' ''send_email'' ''t1'' Private Public AlwaysAllow ex_gate)))
   = Allowed"
proof -
  obtain g' ans where
    "apply_resolution 0 ''a'' ''send_email'' ''t1'' Private Public AlwaysAllow ex_gate = (g', ans)"
    by fastforce
  with resolution_scope [OF this] show ?thesis by simp
qed

subsection \<open>The policy file\<close>

text \<open>
  an override changes what it sets and nothing more. After applying the overrides of a
  parsed policy, an overridden tool has the level and clearance the file gives and keeps
  the rest of its classification (an unreadable level or direction counts as not given),
  and every other tool is classified as before.
\<close>

theorem overrides_change_what_they_set:
  assumes "policy_from_toml doc = Inr pc"
  shows "case map_of (pc_mcp_overrides pc) tool of
      None \<Rightarrow> classify (apply_mcp_overrides (pc_mcp_overrides pc) g) tool = classify g tool
    | Some over \<Rightarrow>
        (let c = classify (apply_mcp_overrides (pc_mcp_overrides pc) g) tool; c0 = classify g tool in
         sensitivity c = (case mo_sensitivity over of Some l \<Rightarrow> l | None \<Rightarrow> sensitivity c0) \<and>
         clearance c = (case mo_clearance over of Some l \<Rightarrow> l | None \<Rightarrow> clearance c0) \<and>
         (case mo_direction over of
            None \<Rightarrow> direction c = direction c0
          | Some d \<Rightarrow> (case direction_from_str_loose d of
                        None \<Rightarrow> direction c = direction c0 | Some x \<Rightarrow> direction c = x)))"
proof (cases "map_of (pc_mcp_overrides pc) tool")
  case None
  then have "tool \<notin> set (map fst (pc_mcp_overrides pc))" by (simp add: map_of_eq_None_iff)
  from apply_overrides_other [OF this] None show ?thesis by simp
next
  case (Some over)
  from apply_overrides_one [OF policy_overrides_distinct [OF assms] map_of_SomeD [OF Some]]
  have "classify (apply_mcp_overrides (pc_mcp_overrides pc) g) tool =
      override_classification over (classify g tool)" .
  with Some show ?thesis
    by (cases "mo_direction over") (auto simp: override_classification_def Let_def split: option.splits)
qed

definition ex_policy_doc :: json where
  "ex_policy_doc = JObj [(''mcp_overrides'', JObj [(''crm'', JObj [(''tools'', JObj
     [(''read.all'', JObj [(''sensitivity'', JStr ''private''), (''clearance'', JStr ''secret'')])])])])]"

theorem overrides_change_what_they_set_witness:
  "\<exists>pc. policy_from_toml (Inr ex_policy_doc) = Inr pc \<and>
     sensitivity (classify (apply_mcp_overrides (pc_mcp_overrides pc) ex_gate) ''crm__read_all'') = Private"
proof -
  obtain pc where pc: "policy_from_toml (Inr ex_policy_doc) = Inr pc"
    by (simp add: policy_from_toml_def)
  have "map_of (pc_mcp_overrides (projr (policy_from_toml (Inr ex_policy_doc)))) ''crm__read_all'' =
      Some \<lparr>mo_sensitivity = Some Private, mo_direction = None, mo_clearance = None\<rparr>"
    by code_simp
  with overrides_change_what_they_set [where tool = "''crm__read_all''" and g = ex_gate, OF pc] pc show ?thesis
    by (auto simp: Let_def)
qed

end
