(* ===== verification/Run_State.thy ===== *)
theory Run_State
  imports Region
begin

text \<open>
  A run's state as its file keeps it: \<open>crates/leviath-runtime/src/state/mod.rs\<close>, the
  context's part of it (\<open>state/context.rs\<close>) and the references to the files beside it
  (\<open>state/files.rs\<close>). Validated names are strings, sorted maps are association lists, an
  \<open>f64\<close> cost is a rational, and the settings of a fan-out and the reasons a run is held are
  kept as the documents they serialize to.
\<close>

type_synonym ('k, 'v) btree_map = "('k \<times> 'v) list"

subsection \<open>The context\<close>

record taint_state =
  ts_level :: taint_level
  ts_entries :: "taint_level list"

record tool_call_state =
  tc_id :: string
  tc_name :: string
  tc_args :: json
  tc_thought_signature :: "string option"

datatype state_entry_kind =
    SText
  | SUserMessage
  | SAssistantTurn "tool_call_state list"
  | SToolResult string string bool

datatype entry_meta = NoMeta | ChecklistMeta nat bool "string option"

record blob_state =
  bs_digest :: string
  bs_size :: nat
  bs_width :: "nat option"
  bs_height :: "nat option"
  bs_duration_ms :: "nat option"
  bs_tokens :: nat
  bs_stand_in :: string

datatype state_part_body = SInline string | SStored blob_state

record part_state =
  ps_mime_type :: string
  ps_body :: state_part_body
  ps_name :: "string option"
  ps_deliver :: "delivery option"

record entry_state =
  es_text :: string
  es_parts :: "part_state list"
  es_tokens :: nat
  es_timestamp :: int
  es_kind :: state_entry_kind
  es_meta :: entry_meta
  es_key :: "string option"
  es_reasoning :: "string option"
  es_sticky :: bool

record region_state =
  rs_name :: string
  rs_max_tokens :: nat
  rs_current_tokens :: nat
  rs_needs_message_compaction :: bool
  rs_taint :: "taint_state option"
  rs_entries :: "entry_state list"

record context_state =
  cs_regions :: "region_state list"
  cs_hidden :: "string list"
  cs_max_tokens :: nat

definition state_region :: "context_state \<Rightarrow> string \<Rightarrow> region_state option" where
  "state_region s name = List.find (\<lambda>r. rs_name r = name) (cs_regions s)"

subsection \<open>Counters and records\<close>

datatype run_status = Idle | Active | Waiting | Paused | Complete | Errored string | Cancelled

record cursor =
  cu_stage :: string
  cu_visit :: string
  cu_iteration :: nat

datatype pipeline_phase =
    ReadyToInfer
  | AwaitingInference
  | AwaitingTools
  | AwaitingCompaction
  | AwaitingChoice "string list"
  | WaitingForChildren
  | FanOut
  | AwaitingPerson
  | Wedged string
  | PhasePaused
  | PhaseDone
  | AwaitingMessage

record stage_progress =
  sp_total_tool_calls :: nat
  sp_text_only_nudges :: nat
  sp_cut_off_nudges :: nat
  sp_raise_output_cap :: bool
  sp_iterations :: nat
  sp_modifying_tool_calls :: nat
  sp_blocked_modification_calls :: nat
  sp_entry_region_digests :: "(string, nat) btree_map"
  sp_gate_reentries :: nat
  sp_stage_started_at :: "int option"
  sp_waiting_since :: "int option"
  sp_edits_by_path :: "(string, nat) btree_map"
  sp_stuck_fired :: bool
  sp_images_produced :: nat
  sp_no_image_nudges :: nat

record spend =
  prompt_tokens :: nat
  completion_tokens :: nat
  cached_tokens :: nat
  cache_write_tokens :: nat
  priced_usd :: rat
  reported_calls :: nat
  computed_calls :: nat
  unpriced_calls :: nat
  cost_unknown :: bool

record clock =
  banked_secs :: nat
  clock_since :: "int option"

record totals =
  total_spend :: spend
  totals_tool_calls :: nat

datatype stage_status =
    StPending | StActive | StWaitingInput | StPaused | StComplete | StError | StCancelled | StSkipped

record visit_record =
  vr_id :: string
  vr_entered_at :: int
  vr_left_at :: "int option"
  vr_spend :: spend
  vr_clock :: clock

record stage_record =
  sr_stage :: string
  sr_status :: stage_status
  sr_entered :: bool
  sr_spend :: spend
  sr_models :: "string list"
  sr_visits :: "visit_record list"
  sr_region_tokens :: "(string, nat) btree_map"
  sr_first_call_prompt_tokens :: "nat option"
  sr_runaway_warned :: bool
  sr_output_cap_raised :: bool
  sr_resubmissions :: nat
  sr_started_at :: "int option"
  sr_ended_at :: "int option"
  sr_clock :: clock

record flags =
  modified_files :: "string list"
  modified_file_count :: nat
  empty_output :: bool
  no_output_tools :: bool
  searches_run :: nat
  searches_empty :: nat
  max_iterations_hit :: nat
  gates_forced :: nat
  required_regions_abandoned :: "string list"
  workspace_lost :: bool
  produced_output :: bool
  output_forced :: nat
  splits_degraded :: nat
  broken_scripts :: "string list"

record grants =
  gr_run :: "string list"
  gr_stage :: "string list"
  gr_stage_index :: "nat option"
  gr_cleared :: "string list"

record read_path_counts =
  rp_declared :: nat
  rp_granted :: nat

record point_progress =
  pp_cursor :: nat
  pp_round :: nat
  pp_asking :: "string option"

subsection \<open>Work in flight\<close>

record tool_result_state =
  tr_text :: string
  tr_is_error :: bool

record held_batch =
  hb_asked :: "(string, string) btree_map"
  hb_allowed :: "string list"
  hb_cleared :: "string list"

record pending_batch =
  pb_calls :: "tool_call_state list"
  pb_done :: "(string, tool_result_state) btree_map"
  pb_executions :: "(string, string) btree_map"
  pb_requested_by :: string
  pb_held :: "held_batch option"

record work_item_state =
  wi_id :: string
  wi_worker :: string
  wi_inputs :: json

record fan_out_state =
  fo_stage :: string
  fo_config :: json
  fo_max_workers :: "nat option"
  fo_queued :: "work_item_state list"
  fo_active :: "(string \<times> string \<times> string) list"
  fo_done :: "(string \<times> string) list"
  fo_failed :: "(string \<times> string) list"
  fo_paused :: bool
  fo_origin :: json
  fo_parts :: "part_state list"

record message_state =
  ms_from :: string
  ms_text :: string
  ms_region :: "string option"

record open_interaction =
  oi_id :: string
  oi_prompt :: string
  oi_options :: "string list"

datatype setup_blocker =
    ProviderMissing | CreditsExhausted | AuthFailed | Forbidden | ProvidersUnavailable
  | ProviderUnreachable | ProviderTimedOut | ProviderFailed | MachineChanged

datatype wait_state =
    ToolApproval
  | UserPrompt
  | TaintGateWait
  | InteractionPoint
  | FanOutWorkers nat
  | Children nat
  | NeedsSetup setup_blocker string
  | AwaitingMessageWait

record artifact_state =
  ar_name :: string
  ar_path :: string
  ar_mime_type :: string
  ar_size :: nat
  ar_sha256 :: string

record final_output_state =
  fs_bytes :: nat
  fs_format :: "string option"
  fs_stage :: string
  fs_submitted_at :: int
  fs_truncated :: bool
  fs_artifacts :: "artifact_state list"

datatype transition_reason =
    ByCondition | ByGate | ByModelChoice | ByForce | ByWorker | ByRouter | ByFallback

record transition_record =
  tn_from :: string
  tn_to :: string
  tn_edge :: "string option"
  tn_reason :: transition_reason
  tn_visit :: string

subsection \<open>Files beside the run file\<close>

record file_ref =
  fr_path :: string
  fr_bytes :: nat
  fr_sha256 :: "string option"

record stage_files =
  sf_index :: nat
  sf_output :: "file_ref option"
  sf_logs :: "file_ref option"
  sf_taint_audit :: "file_ref option"

record run_files =
  rf_final_output :: "file_ref option"
  rf_stages :: "stage_files list"

record blob_file =
  bf_digest :: string
  bf_mime_type :: string
  bf_size :: nat
  bf_name :: "string option"
  bf_region :: "string option"
  bf_tool :: "string option"

subsection \<open>The whole state\<close>

record run_state =
  s_seq :: nat
  s_status :: run_status
  s_cursor :: cursor
  s_phase :: pipeline_phase
  s_accepts_messages :: bool
  s_visits :: "(string, nat) btree_map"
  s_progress :: stage_progress
  s_ledger :: "stage_record list"
  s_context :: context_state
  s_pending :: "pending_batch option"
  s_fan_out :: "fan_out_state option"
  s_inbox :: "message_state list"
  s_interactions :: "open_interaction list"
  s_totals :: totals
  s_clock :: clock
  s_flags :: flags
  s_children :: "string list"
  s_title :: "string option"
  s_final_output :: "final_output_state option"
  s_wait_reason :: "wait_state option"
  s_last_transition :: "transition_record option"
  s_point :: point_progress
  s_title_error :: "string option"
  s_read_paths :: "read_path_counts option"
  s_held :: "json option"
  s_files :: run_files
  s_blobs :: "blob_file list"
  s_grants :: grants
  s_written :: nat
  s_last_progress_at :: "int option"
  s_remote_jobs :: "(string, string) btree_map"

definition spend_zero :: spend where
  "spend_zero = \<lparr>prompt_tokens = 0, completion_tokens = 0, cached_tokens = 0,
     cache_write_tokens = 0, priced_usd = 0, reported_calls = 0, computed_calls = 0,
     unpriced_calls = 0, cost_unknown = False\<rparr>"

definition progress_default :: stage_progress where
  "progress_default = \<lparr>sp_total_tool_calls = 0, sp_text_only_nudges = 0, sp_cut_off_nudges = 0,
     sp_raise_output_cap = False, sp_iterations = 0, sp_modifying_tool_calls = 0,
     sp_blocked_modification_calls = 0, sp_entry_region_digests = [], sp_gate_reentries = 0,
     sp_stage_started_at = None, sp_waiting_since = None, sp_edits_by_path = [],
     sp_stuck_fired = False, sp_images_produced = 0, sp_no_image_nudges = 0\<rparr>"

definition flags_default :: flags where
  "flags_default = \<lparr>modified_files = [], modified_file_count = 0, empty_output = False,
     no_output_tools = False, searches_run = 0, searches_empty = 0, max_iterations_hit = 0,
     gates_forced = 0, required_regions_abandoned = [], workspace_lost = False,
     produced_output = False, output_forced = 0, splits_degraded = 0, broken_scripts = []\<rparr>"

definition initial_state :: "string \<Rightarrow> context_state \<Rightarrow> bool \<Rightarrow> run_state" where
  "initial_state entry context accepts_messages =
     \<lparr>s_seq = 0, s_status = Idle,
      s_cursor = \<lparr>cu_stage = entry, cu_visit = [], cu_iteration = 0\<rparr>,
      s_phase = ReadyToInfer, s_accepts_messages = accepts_messages, s_visits = [],
      s_progress = progress_default, s_ledger = [], s_context = context, s_pending = None,
      s_fan_out = None, s_inbox = [], s_interactions = [],
      s_totals = \<lparr>total_spend = spend_zero, totals_tool_calls = 0\<rparr>,
      s_clock = \<lparr>banked_secs = 0, clock_since = None\<rparr>, s_flags = flags_default,
      s_children = [], s_title = None, s_final_output = None, s_wait_reason = None,
      s_last_transition = None, s_point = \<lparr>pp_cursor = 0, pp_round = 0, pp_asking = None\<rparr>,
      s_title_error = None, s_read_paths = None, s_held = None,
      s_files = \<lparr>rf_final_output = None, rf_stages = []\<rparr>, s_blobs = [],
      s_grants = \<lparr>gr_run = [], gr_stage = [], gr_stage_index = None, gr_cleared = []\<rparr>,
      s_written = 0, s_last_progress_at = None, s_remote_jobs = []\<rparr>"

definition is_finished :: "run_state \<Rightarrow> bool" where
  "is_finished s = (case s_status s of
     Complete \<Rightarrow> True | Errored _ \<Rightarrow> True | Cancelled \<Rightarrow> True | _ \<Rightarrow> False)"

subsection \<open>Settling the ledger\<close>

fun stage_status_of :: "run_status \<Rightarrow> stage_status" where
  "stage_status_of Idle = StActive"
| "stage_status_of Active = StActive"
| "stage_status_of Waiting = StWaitingInput"
| "stage_status_of Paused = StPaused"
| "stage_status_of Complete = StComplete"
| "stage_status_of (Errored _) = StError"
| "stage_status_of Cancelled = StCancelled"

definition settle_stage_here :: "run_state \<Rightarrow> run_state" where
  "settle_stage_here s =
     s\<lparr>s_ledger := map (\<lambda>rec. if sr_entered rec \<and> sr_stage rec = cu_stage (s_cursor s)
                             then rec\<lparr>sr_status := stage_status_of (s_status s)\<rparr> else rec)
         (s_ledger s)\<rparr>"

definition settle_ledger :: "run_state \<Rightarrow> run_state" where
  "settle_ledger s =
     (let s' = settle_stage_here s; over = is_finished s' in
      s'\<lparr>s_ledger := map (\<lambda>rec. if over \<and> \<not> sr_entered rec
                              then rec\<lparr>sr_status := StSkipped\<rparr> else rec) (s_ledger s')\<rparr>)"

lemma settle_keeps [simp]:
  "s_cursor (settle_ledger s) = s_cursor s" "s_status (settle_ledger s) = s_status s"
  "s_context (settle_ledger s) = s_context s" "s_seq (settle_ledger s) = s_seq s"
  by (simp_all add: settle_ledger_def settle_stage_here_def Let_def)

text \<open>Settling twice settles once.\<close>

lemma settle_idem: "settle_ledger (settle_ledger s) = settle_ledger s"
  by (auto simp: settle_ledger_def settle_stage_here_def is_finished_def Let_def
      split: run_status.splits)

end
