(* ===== verification/Context_Diff.thy ===== *)
theory Context_Diff
  imports Run_State "HOL-Library.Option_ord"
begin

text \<open>
  How a run's context changes from one step to the next, \<open>ContextDiff\<close> in
  \<open>crates/leviath-runtime/src/state/context.rs\<close>: what \<open>between\<close> records and what
  \<open>apply\<close> makes of it. The contract the two share with the whole state's delta is the
  locale \<open>step_recorder\<close>.
\<close>

datatype region_change = AppendEntries "entry_state list" | ReplaceEntries "entry_state list"

record region_head =
  rh_max_tokens :: nat
  rh_current_tokens :: nat
  rh_needs_message_compaction :: bool
  rh_taint :: "taint_state option"

record context_diff =
  cd_regions :: "(string \<times> region_head \<times> region_change option) list"
  cd_removed :: "string list"
  cd_order :: "string list option"
  cd_hidden :: "string list option"
  cd_max_tokens :: "nat option"

definition head_of :: "region_state \<Rightarrow> region_head" where
  "head_of r = \<lparr>rh_max_tokens = rs_max_tokens r, rh_current_tokens = rs_current_tokens r,
     rh_needs_message_compaction = rs_needs_message_compaction r, rh_taint = rs_taint r\<rparr>"

definition diff_is_empty :: "context_diff \<Rightarrow> bool" where
  "diff_is_empty d \<longleftrightarrow> cd_regions d = [] \<and> cd_removed d = [] \<and> cd_order d = None \<and>
     cd_hidden d = None \<and> cd_max_tokens d = None"

definition entries_change :: "region_state option \<Rightarrow> region_state \<Rightarrow> region_change option" where
  "entries_change before r =
     (case before of
        None \<Rightarrow> Some (ReplaceEntries (rs_entries r))
      | Some b \<Rightarrow>
          if rs_entries b = rs_entries r then None
          else if prefix (rs_entries b) (rs_entries r)
          then Some (AppendEntries (drop (length (rs_entries b)) (rs_entries r)))
          else Some (ReplaceEntries (rs_entries r)))"

definition region_diff :: "context_state \<Rightarrow> region_state \<Rightarrow>
    (string \<times> region_head \<times> region_change option) option" where
  "region_diff prev r =
     (let before = state_region prev (rs_name r);
          entries = entries_change before r;
          head_changed = (case before of None \<Rightarrow> True | Some b \<Rightarrow> head_of b \<noteq> head_of r)
      in if entries \<noteq> None \<or> head_changed then Some (rs_name r, head_of r, entries) else None)"

definition context_between :: "context_state \<Rightarrow> context_state \<Rightarrow> context_diff" where
  "context_between prev nxt =
     (let names = (\<lambda>s. map rs_name (cs_regions s)); order = names nxt
      in \<lparr>cd_regions = List.map_filter (region_diff prev) (cs_regions nxt),
          cd_removed = filter (\<lambda>n. state_region nxt n = None) (names prev),
          cd_order = (if names prev \<noteq> order then Some order else None),
          cd_hidden = (if cs_hidden prev \<noteq> cs_hidden nxt then Some (cs_hidden nxt) else None),
          cd_max_tokens =
            (if cs_max_tokens prev \<noteq> cs_max_tokens nxt then Some (cs_max_tokens nxt) else None)\<rparr>)"

definition fresh_region :: "string \<Rightarrow> region_state" where
  "fresh_region name = \<lparr>rs_name = name, rs_max_tokens = 0, rs_current_tokens = 0,
     rs_needs_message_compaction = False, rs_taint = None, rs_entries = []\<rparr>"

definition change_region :: "region_head \<Rightarrow> region_change option \<Rightarrow> region_state \<Rightarrow> region_state" where
  "change_region head change r =
     r\<lparr>rs_max_tokens := rh_max_tokens head, rs_current_tokens := rh_current_tokens head,
       rs_needs_message_compaction := rh_needs_message_compaction head,
       rs_taint := rh_taint head,
       rs_entries := (case change of
           Some (AppendEntries added) \<Rightarrow> rs_entries r @ added
         | Some (ReplaceEntries all) \<Rightarrow> all
         | None \<Rightarrow> rs_entries r)\<rparr>"

text \<open>
  The region is taken out of the list, changed and put back where it was, or at the end when
  it is new.
\<close>

definition apply_region :: "string \<times> region_head \<times> region_change option \<Rightarrow>
    region_state list \<Rightarrow> region_state list" where
  "apply_region c rs =
     (case c of (name, head, change) \<Rightarrow>
       (case position (\<lambda>r. rs_name r = name) rs of
          Some i \<Rightarrow> rs[i := change_region head change (rs ! i)]
        | None \<Rightarrow> rs @ [change_region head change (fresh_region name)]))"

definition context_apply :: "context_diff \<Rightarrow> context_state \<Rightarrow> context_state" where
  "context_apply d s =
     (let kept = filter (\<lambda>r. rs_name r \<notin> set (cd_removed d)) (cs_regions s);
          changed = fold apply_region (cd_regions d) kept;
          ordered = (case cd_order d of
              Some order \<Rightarrow> sort_key (\<lambda>r. position (\<lambda>n. n = rs_name r) order) changed
            | None \<Rightarrow> changed)
      in s\<lparr>cs_regions := ordered,
           cs_hidden := (case cd_hidden d of Some h \<Rightarrow> h | None \<Rightarrow> cs_hidden s),
           cs_max_tokens := (case cd_max_tokens d of Some m \<Rightarrow> m | None \<Rightarrow> cs_max_tokens s)\<rparr>)"

subsection \<open>The contract of a recorded step\<close>

text \<open>
  \<open>between\<close> records a step, \<open>apply\<close> replays it, and what comes back is the state the step
  reached, stamped the way the recorder stamps it. A history is a first state and the states
  it went through; its record is one step for each.
\<close>

fun history :: "('s \<Rightarrow> 's \<Rightarrow> 's) \<Rightarrow> 's \<Rightarrow> 's list \<Rightarrow> 's list" where
  "history stamp s [] = []"
| "history stamp s (n # ns) = stamp s n # history stamp (stamp s n) ns"

fun recorded :: "('s \<Rightarrow> 's \<Rightarrow> 'd) \<Rightarrow> ('s \<Rightarrow> 's \<Rightarrow> 's) \<Rightarrow> 's \<Rightarrow> 's list \<Rightarrow> 'd list" where
  "recorded between stamp s [] = []"
| "recorded between stamp s (n # ns) = between s n # recorded between stamp (stamp s n) ns"

lemma recorded_lengths [simp]:
  "length (history stamp s ns) = length ns" "length (recorded between stamp s ns) = length ns"
  by (induction ns arbitrary: s) simp_all

lemma history_append:
  "history stamp s (ns @ ms) = history stamp s ns @ history stamp (last (s # history stamp s ns)) ms"
  by (induction ns arbitrary: s) simp_all

lemma recorded_append:
  "recorded between stamp s (ns @ ms) =
   recorded between stamp s ns @ recorded between stamp (last (s # history stamp s ns)) ms"
  by (induction ns arbitrary: s) simp_all

lemma fold_split: "fold f xs s = fold f (drop i xs) (fold f (take i xs) s)"
  by (induction xs arbitrary: s i) (auto simp: take_Cons drop_Cons split: nat.splits)

locale step_recorder =
  fixes between :: "'s \<Rightarrow> 's \<Rightarrow> 'd" and replay :: "'d \<Rightarrow> 's \<Rightarrow> 's"
    and stamp :: "'s \<Rightarrow> 's \<Rightarrow> 's" and ok :: "'s \<Rightarrow> bool"
  assumes replay_between: "ok p \<Longrightarrow> ok n \<Longrightarrow> replay (between p n) p = stamp p n"
    and stamp_ok: "ok p \<Longrightarrow> ok n \<Longrightarrow> ok (stamp p n)"
begin

lemma history_ok: "ok s \<Longrightarrow> \<forall>n \<in> set ns. ok n \<Longrightarrow> \<forall>n \<in> set (history stamp s ns). ok n"
proof (induction ns arbitrary: s)
  case (Cons n ns)
  then have "ok (stamp s n)" by (simp add: stamp_ok)
  with Cons show ?case by simp
qed simp

text \<open>Replaying the first \<open>k\<close> steps of a record gives the state after \<open>k\<close> steps.\<close>

lemma replay_recorded:
  assumes "ok s" and "\<forall>n \<in> set ns. ok n" and "k \<le> length ns"
  shows "fold replay (take k (recorded between stamp s ns)) s = (s # history stamp s ns) ! k"
  using assms(1-3)
proof (induction ns arbitrary: s k)
  case (Cons n ns)
  show ?case
  proof (cases k)
    case (Suc j)
    have "ok (stamp s n)" using Cons.prems by (simp add: stamp_ok)
    from Cons.IH [OF this, of j] Cons.prems Suc show ?thesis
      by (simp add: replay_between)
  qed simp
qed simp

text \<open>From any state of the history, replaying the steps after it gives the later ones.\<close>

lemma replay_from:
  assumes "ok s" and "\<forall>n \<in> set ns. ok n" and "i \<le> k" and "k \<le> length ns"
  shows "fold replay (drop i (take k (recorded between stamp s ns))) ((s # history stamp s ns) ! i) =
         (s # history stamp s ns) ! k"
proof -
  let ?R = "take k (recorded between stamp s ns)"
  have "fold replay ?R s = fold replay (drop i ?R) (fold replay (take i ?R) s)"
    by (rule fold_split)
  moreover have "take i ?R = take i (recorded between stamp s ns)" using assms(3) by (simp add: min_def)
  ultimately show ?thesis
    using replay_recorded [OF assms(1,2), of i] replay_recorded [OF assms(1,2), of k] assms(3,4) by simp
qed

end

subsection \<open>Regions by name\<close>

definition by_name :: "region_state list \<Rightarrow> string \<Rightarrow> region_state option" where
  "by_name rs = map_of (map (\<lambda>r. (rs_name r, r)) rs)"

lemma state_region_by_name: "state_region s n = by_name (cs_regions s) n"
proof -
  have "List.find (\<lambda>r. rs_name r = n) rs = by_name rs n" for rs
    by (induction rs) (auto simp: by_name_def)
  then show ?thesis by (simp add: state_region_def)
qed

lemma by_name_None: "by_name rs n = None \<longleftrightarrow> n \<notin> rs_name ` set rs"
  by (simp add: by_name_def map_of_eq_None_iff image_comp comp_def)

lemma by_name_name: "by_name rs n = Some r \<Longrightarrow> rs_name r = n"
  by (auto simp: by_name_def dest: map_of_SomeD)

lemma by_name_mem: "by_name rs n = Some r \<Longrightarrow> r \<in> set rs"
  by (auto simp: by_name_def dest: map_of_SomeD)

lemma by_name_iff:
  "distinct (map rs_name rs) \<Longrightarrow> by_name rs n = Some r \<longleftrightarrow> r \<in> set rs \<and> rs_name r = n"
  by (auto simp: by_name_def comp_def intro: map_of_SomeD)

lemma by_name_set:
  "distinct (map rs_name rs) \<Longrightarrow> distinct (map rs_name rs') \<Longrightarrow> by_name rs = by_name rs' \<Longrightarrow>
   set rs = set rs'"
  using by_name_iff by (metis subsetI subset_antisym)

lemma by_name_filter:
  "by_name (filter (\<lambda>r. rs_name r \<notin> A) rs) n = (if n \<in> A then None else by_name rs n)"
  by (induction rs) (auto simp: by_name_def)

lemma change_region_name [simp]: "rs_name (change_region head change r) = rs_name r"
  by (simp add: change_region_def)

lemma apply_region_names:
  "map rs_name (apply_region (name, head, change) rs) =
     map rs_name rs @ (if name \<in> rs_name ` set rs then [] else [name])"
proof (cases "position (\<lambda>r. rs_name r = name) rs")
  case None
  then have "name \<notin> rs_name ` set rs" by auto
  with None show ?thesis by (simp add: apply_region_def fresh_region_def del: position_None)
next
  case (Some i)
  from position_Some [OF this] have "i < length rs" "rs_name (rs ! i) = name" by auto
  then show ?thesis
    using Some by (auto simp: apply_region_def map_update list_update_same_conv)
qed

lemma by_name_apply:
  "by_name (apply_region (name, head, change) rs) =
   (by_name rs)(name \<mapsto> change_region head change
      (case by_name rs name of Some r \<Rightarrow> r | None \<Rightarrow> fresh_region name))"
proof (induction rs)
  case Nil
  then show ?case
    by (auto simp: apply_region_def by_name_def fresh_region_def)
next
  case (Cons r rs)
  show ?case
  proof (cases "rs_name r = name")
    case True
    then show ?thesis by (auto simp: apply_region_def by_name_def)
  next
    case False
    have "apply_region (name, head, change) (r # rs) = r # apply_region (name, head, change) rs"
      using False
      by (cases "position (\<lambda>r. rs_name r = name) rs") (simp_all add: apply_region_def del: position_None)
    then have "by_name (apply_region (name, head, change) (r # rs)) =
        (by_name (apply_region (name, head, change) rs))(rs_name r \<mapsto> r)"
      by (simp add: by_name_def)
    moreover have "by_name (r # rs) = (by_name rs)(rs_name r \<mapsto> r)" by (simp add: by_name_def)
    ultimately show ?thesis using Cons False by (auto simp: fun_upd_twist)
  qed
qed

text \<open>A whole list of changes, each of another region.\<close>

lemma by_name_changes:
  "distinct (map fst cs) \<Longrightarrow>
   by_name (fold apply_region cs rs) n =
     (case map_of cs n of
        None \<Rightarrow> by_name rs n
      | Some (head, change) \<Rightarrow> Some (change_region head change
          (case by_name rs n of Some r \<Rightarrow> r | None \<Rightarrow> fresh_region n)))"
proof (induction cs arbitrary: rs)
  case (Cons c cs)
  obtain name head change where c: "c = (name, head, change)" by (cases c) auto
  have "map_of cs name = None" using Cons.prems c by (simp add: map_of_eq_None_iff)
  show ?case
  proof (cases "n = name")
    case True
    with \<open>map_of cs name = None\<close> Cons show ?thesis
      by (simp add: c by_name_apply split: option.split)
  next
    case False
    then have "by_name (apply_region c rs) n = by_name rs n" by (simp add: c by_name_apply)
    with False Cons show ?thesis by (simp add: c split: option.split)
  qed
qed simp

lemma changes_names:
  "distinct (map rs_name rs) \<Longrightarrow> distinct (map rs_name (fold apply_region cs rs)) \<and>
   rs_name ` set (fold apply_region cs rs) = rs_name ` set rs \<union> fst ` set cs \<and>
   (fst ` set cs \<subseteq> rs_name ` set rs \<longrightarrow> map rs_name (fold apply_region cs rs) = map rs_name rs)"
proof (induction cs arbitrary: rs)
  case (Cons c cs)
  obtain name head change where c: "c = (name, head, change)" by (cases c) auto
  note names = apply_region_names [of name head change rs]
  have "distinct (map rs_name (apply_region c rs))"
    using Cons.prems by (auto simp: c names)
  moreover have "rs_name ` set (apply_region c rs) = rs_name ` set rs \<union> {name}"
    using arg_cong [OF names, of set] by (auto simp: c split: if_splits)
  ultimately show ?case
    using Cons.IH [of "apply_region c rs"] names by (auto simp: c split: if_splits)
qed simp

subsection \<open>Replaying the difference\<close>

lemma change_region_between:
  assumes "\<And>b. before = Some b \<Longrightarrow> rs_name b = rs_name r"
  shows "change_region (head_of r) (entries_change before r)
      (case before of Some b \<Rightarrow> b | None \<Rightarrow> fresh_region (rs_name r)) = r"
proof (cases before)
  case (Some b)
  have "rs_entries b @ drop (length (rs_entries b)) (rs_entries r) = rs_entries r"
    if "prefix (rs_entries b) (rs_entries r)" using that by (auto simp: prefix_def)
  with assms Some show ?thesis
    by (auto simp: change_region_def entries_change_def head_of_def intro!: region_state.equality)
qed (auto simp: change_region_def entries_change_def head_of_def fresh_region_def
  intro!: region_state.equality)

lemma head_entries_same:
  "head_of b = head_of r \<Longrightarrow> rs_entries b = rs_entries r \<Longrightarrow> rs_name b = rs_name r \<Longrightarrow> b = r"
  by (rule region_state.equality) (auto simp: head_of_def)

lemma region_diff_name: "region_diff prev r = Some c \<Longrightarrow> fst c = rs_name r"
  by (auto simp: region_diff_def Let_def split: if_splits)

lemma diffs_names:
  "map fst (List.map_filter (region_diff prev) rs) =
   map rs_name (filter (\<lambda>r. region_diff prev r \<noteq> None) rs)"
  by (induction rs) (auto simp: List.map_filter_def region_diff_name)

lemma diffs_subset: "fst ` set (List.map_filter (region_diff prev) rs) \<subseteq> rs_name ` set rs"
proof -
  have "set (map fst (List.map_filter (region_diff prev) rs)) \<subseteq> set (map rs_name rs)"
    by (simp only: diffs_names) auto
  then show ?thesis by simp
qed

lemma diffs_lookup:
  assumes "distinct (map rs_name rs)" and "r \<in> set rs"
  shows "map_of (List.map_filter (region_diff prev) rs) (rs_name r) =
         map_option snd (region_diff prev r)"
  using assms
proof (induction rs)
  case (Cons a rs)
  have absent: "map_of (List.map_filter (region_diff prev) rs) (rs_name a) = None"
    using Cons.prems(1) diffs_subset [of prev rs] by (auto simp: map_of_eq_None_iff)
  show ?case
  proof (cases "r = a")
    case True
    with absent show ?thesis
      by (cases "region_diff prev a")
        (use region_diff_name [of prev a] in \<open>auto simp: map_filter_simps\<close>)
  next
    case False
    with Cons.prems have "r \<in> set rs" "rs_name r \<noteq> rs_name a" by (auto simp: image_iff)
    then show ?thesis using Cons
      by (cases "region_diff prev a")
        (use region_diff_name [of prev a] in \<open>auto simp: map_filter_simps\<close>)
  qed
qed simp

text \<open>Sorting by the recorded order puts the regions back as they were listed.\<close>

lemma position_of_nth:
  "distinct xs \<Longrightarrow> i < length xs \<Longrightarrow> position (\<lambda>n. n = xs ! i) xs = Some i"
proof (induction xs arbitrary: i)
  case (Cons x xs)
  then show ?case by (cases i) auto
qed simp

lemma sort_by_order:
  assumes "distinct (map rs_name rs)" and "distinct (map rs_name ns)" and "set rs = set ns"
  shows "sort_key (\<lambda>r. position (\<lambda>n. n = rs_name r) (map rs_name ns)) rs = ns"
proof -
  let ?f = "\<lambda>r. position (\<lambda>n. n = rs_name r) (map rs_name ns)"
  have f: "?f (ns ! i) = Some i" if "i < length ns" for i
    using position_of_nth [OF assms(2), of i] that by simp
  have map_ns: "map ?f ns = map Some [0..<length ns]"
    by (rule nth_equalityI) (simp_all add: f)
  have inj: "inj_on ?f (set ns)"
    using f by (auto simp: inj_on_def in_set_conv_nth)
  have "sorted (map ?f ns)" by (simp add: map_ns sorted_map sorted_wrt_upt strict_mono_less_eq)
  moreover have "distinct (map ?f ns)" by (simp add: map_ns distinct_map)
  moreover have "sorted (map ?f (sort_key ?f rs))" by simp
  moreover have "distinct (map ?f (sort_key ?f rs))"
    using inj assms by (simp add: distinct_map)
  moreover have "set (map ?f (sort_key ?f rs)) = set (map ?f ns)" using assms(3) by simp
  ultimately have "map ?f (sort_key ?f rs) = map ?f ns"
    by (metis sorted_distinct_set_unique)
  then show ?thesis
    by (rule map_inj_on) (use inj assms(3) in simp)
qed

definition regions_distinct :: "context_state \<Rightarrow> bool" where
  "regions_distinct s = distinct (map rs_name (cs_regions s))"

text \<open>The regions a replayed difference ends with, before they are put in order.\<close>

lemma replayed_regions:
  assumes "regions_distinct p" and "regions_distinct n"
  defines "R \<equiv> fold apply_region (cd_regions (context_between p n))
      (filter (\<lambda>r. rs_name r \<notin> set (cd_removed (context_between p n))) (cs_regions p))"
  shows "set R = set (cs_regions n) \<and> distinct (map rs_name R) \<and>
    (map rs_name (cs_regions p) = map rs_name (cs_regions n) \<longrightarrow>
       map rs_name R = map rs_name (cs_regions n))"
proof -
  let ?rem = "cd_removed (context_between p n)" and ?cs = "cd_regions (context_between p n)"
  let ?P = "cs_regions p" and ?N = "cs_regions n"
  let ?K = "filter (\<lambda>r. rs_name r \<notin> set ?rem) ?P"
  have rem: "x \<in> set ?rem \<longleftrightarrow> x \<in> rs_name ` set ?P \<and> by_name ?N x = None" for x
    by (auto simp: context_between_def Let_def state_region_by_name)
  have cs: "?cs = List.map_filter (region_diff p) ?N"
    by (simp add: context_between_def Let_def)
  have dN: "distinct (map rs_name ?N)" and dP: "distinct (map rs_name ?P)"
    using assms(1,2) by (simp_all add: regions_distinct_def)
  have csd: "distinct (map fst ?cs)" and csn: "fst ` set ?cs \<subseteq> rs_name ` set ?N"
    using dN diffs_subset [of p ?N] by (simp_all add: cs diffs_names distinct_map_filter)
  have "distinct (map rs_name ?K)" using dP by (simp add: distinct_map_filter)
  note chg = changes_names [OF this, of ?cs, folded R_def]
  have "by_name R x = by_name ?N x" for x
  proof (cases "by_name ?N x")
    case None
    then have "map_of ?cs x = None" using csn by (force simp: map_of_eq_None_iff by_name_None)
    moreover have "by_name ?K x = None"
    proof (cases "x \<in> set ?rem")
      case False
      then show ?thesis using None rem [of x] by (simp add: by_name_filter by_name_None)
    qed (simp add: by_name_filter)
    ultimately show ?thesis using None by (simp add: R_def by_name_changes [OF csd])
  next
    case (Some r)
    then have r: "r \<in> set ?N" "rs_name r = x" using dN by (auto simp: by_name_iff)
    have K: "by_name ?K x = by_name ?P x" using Some rem [of x] by (simp add: by_name_filter)
    have same: "rs_name b = rs_name r" if "by_name ?P x = Some b" for b
      using by_name_name [OF that] r by simp
    show ?thesis
    proof (cases "region_diff p r")
      case None
      then obtain b where b: "by_name ?P x = Some b" "head_of b = head_of r" "entries_change (Some b) r = None"
        using r by (auto simp: region_diff_def Let_def state_region_by_name split: if_splits option.splits)
      then have "rs_entries b = rs_entries r" by (auto simp: entries_change_def split: if_splits)
      with b same have "b = r" by (auto intro: head_entries_same)
      moreover have "map_of ?cs x = None" using diffs_lookup [OF dN r(1), of p] None r(2) by (simp add: cs)
      ultimately show ?thesis using b(1) K Some by (simp add: R_def by_name_changes [OF csd])
    next
      case (Some c)
      then have "c = (x, head_of r, entries_change (by_name ?P x) r)"
        using r by (auto simp: region_diff_def Let_def state_region_by_name split: if_splits)
      then have m: "map_of ?cs x = Some (head_of r, entries_change (by_name ?P x) r)"
        using diffs_lookup [OF dN r(1), of p] Some r(2) by (simp add: cs)
      have "by_name R x = Some (change_region (head_of r) (entries_change (by_name ?P x) r)
          (case by_name ?P x of Some b \<Rightarrow> b | None \<Rightarrow> fresh_region x))"
        unfolding R_def by_name_changes [OF csd] m K by simp
      also have "change_region (head_of r) (entries_change (by_name ?P x) r)
          (case by_name ?P x of Some b \<Rightarrow> b | None \<Rightarrow> fresh_region x) = r"
        using change_region_between [OF same] unfolding r(2) .
      finally have "by_name R x = Some r" .
      then show ?thesis using \<open>by_name ?N x = Some r\<close> by simp
    qed
  qed
  then have "by_name R = by_name ?N" by (rule ext)
  then have "set R = set ?N" by (rule by_name_set [OF conjunct1 [OF chg] dN])
  moreover have "map rs_name R = map rs_name ?N" if same: "map rs_name ?P = map rs_name ?N"
  proof -
    have PN: "rs_name ` set ?P = rs_name ` set ?N" using arg_cong [OF same, of set] by simp
    then have "\<forall>x. x \<notin> set ?rem" using rem by (auto simp: by_name_None)
    then have "?K = ?P" by simp
    with chg csn PN same show ?thesis by simp
  qed
  ultimately show ?thesis using chg by blast
qed

lemma context_replay:
  assumes "regions_distinct p" and "regions_distinct n"
  shows "context_apply (context_between p n) p = n"
proof -
  note R = replayed_regions [OF assms]
  let ?R = "fold apply_region (cd_regions (context_between p n))
      (filter (\<lambda>r. rs_name r \<notin> set (cd_removed (context_between p n))) (cs_regions p))"
  have "(case cd_order (context_between p n) of
      Some order \<Rightarrow> sort_key (\<lambda>r. position (\<lambda>x. x = rs_name r) order) ?R | None \<Rightarrow> ?R) = cs_regions n"
  proof (cases "map rs_name (cs_regions p) = map rs_name (cs_regions n)")
    case True
    then have "cd_order (context_between p n) = None" by (simp add: context_between_def Let_def)
    moreover
    have "inj_on rs_name (set ?R \<union> set (cs_regions n))"
      using R assms(2) by (simp add: distinct_map regions_distinct_def)
    then have "?R = cs_regions n"
      using R True inj_on_map_eq_map [of rs_name ?R "cs_regions n"] by blast
    ultimately show ?thesis by simp
  next
    case False
    then have "cd_order (context_between p n) = Some (map rs_name (cs_regions n))"
      by (simp add: context_between_def Let_def)
    then show ?thesis using sort_by_order [of ?R "cs_regions n"] R assms(2)
      by (simp add: regions_distinct_def)
  qed
  moreover have "(case cd_hidden (context_between p n) of Some h \<Rightarrow> h | None \<Rightarrow> cs_hidden p) = cs_hidden n"
    and "(case cd_max_tokens (context_between p n) of Some m \<Rightarrow> m | None \<Rightarrow> cs_max_tokens p) =
      cs_max_tokens n"
    by (simp_all add: context_between_def Let_def)
  ultimately show ?thesis by (simp add: context_apply_def Let_def)
qed

interpretation context_recorder: step_recorder context_between context_apply "\<lambda>_ n. n" regions_distinct
  by unfold_locales (simp_all add: context_replay)

text \<open>A difference is empty exactly when nothing changed.\<close>

lemma diff_empty_apply: "diff_is_empty d \<Longrightarrow> context_apply d s = s"
  by (simp add: diff_is_empty_def context_apply_def Let_def)

lemma diff_empty_iff:
  assumes "regions_distinct p" and "regions_distinct n"
  shows "diff_is_empty (context_between p n) \<longleftrightarrow> p = n"
proof
  assume "diff_is_empty (context_between p n)"
  with context_replay [OF assms] show "p = n" by (simp add: diff_empty_apply)
next
  assume pn: "p = n"
  have "region_diff p r = None" if "r \<in> set (cs_regions n)" for r
  proof -
    have "state_region p (rs_name r) = Some r"
      using that assms(2) pn by (auto simp: state_region_by_name by_name_iff regions_distinct_def)
    then show ?thesis by (simp add: region_diff_def entries_change_def)
  qed
  then have "List.map_filter (region_diff p) (cs_regions n) = []"
    by (auto simp: List.map_filter_def filter_empty_conv)
  moreover have "filter (\<lambda>x. state_region n x = None) (map rs_name (cs_regions p)) = []"
    using pn by (auto simp: filter_empty_conv state_region_by_name by_name_None)
  ultimately show "diff_is_empty (context_between p n)"
    using pn by (simp add: diff_is_empty_def context_between_def Let_def)
qed

end
