(* ===== verification/State_Delta.thy ===== *)
theory State_Delta
  imports Context_Diff
begin

text \<open>
  One step of a run's history, \<open>StateDelta\<close> in
  \<open>crates/leviath-runtime/src/state/delta.rs\<close>: the fields that changed, and the events that
  happened in between. An event is carried and never looked into by the delta, apart from the
  edges it names; the larger event payloads are kept as the documents they serialize to.
\<close>

datatype call_kind = StageCall | CompactionCall | TitleCall | RoutingCall

datatype run_event =
    InferenceEvent string string spend "string option" call_kind "string option" nat
  | TransitionEvent transition_record
  | FailoverEvent string string string
  | ToolStarted tool_call_state
  | ToolFinished string tool_result_state nat
  | Answered string string
  | MessageEvent message_state
  | LogEvent string
  | AttemptEvent json
  | Dispatched string string string
  | Completed string string "string option" "string list"
  | Artifacts string "artifact_state list"
  | Settled json
  | ContextCommitted json
  | ContextNoted json
  | Continued json

datatype change =
    CStatus run_status
  | CCursor cursor
  | CPhase pipeline_phase
  | CAcceptsMessages bool
  | CVisits "(string, nat) btree_map"
  | CProgress stage_progress
  | CLedgerRecord nat stage_record
  | CLedgerTruncate nat
  | CContext context_diff
  | CPending "pending_batch option"
  | CFanOut "fan_out_state option"
  | CInbox "message_state list"
  | CInteractions "open_interaction list"
  | CTotals totals
  | CClock clock
  | CFlags flags
  | CChildren "string list"
  | CTitle "string option"
  | CFinalOutput "final_output_state option"
  | CWaitReason "wait_state option"
  | CLastTransition "transition_record option"
  | CTitleError "string option"
  | CReadPaths "read_path_counts option"
  | CPoint point_progress
  | CHeld "json option"
  | CFiles run_files
  | CBlobs "blob_file list"
  | CGrants grants
  | CWritten nat
  | CLastProgressAt "int option"
  | CRemoteJobs "(string, string) btree_map"

record state_delta =
  d_seq :: nat
  d_at :: int
  d_changes :: "change list"
  d_events :: "run_event list"

subsection \<open>Recording and replaying\<close>

definition u32 :: "nat \<Rightarrow> nat" where "u32 n = n mod 2 ^ 32"

definition changed :: "'a \<Rightarrow> 'a \<Rightarrow> ('a \<Rightarrow> change) \<Rightarrow> change list" where
  "changed old new variant = (if old \<noteq> new then [variant new] else [])"

definition ledger_changes :: "stage_record list \<Rightarrow> stage_record list \<Rightarrow> change list" where
  "ledger_changes prev nxt =
     List.map_filter
       (\<lambda>i. if i < length prev \<and> prev ! i = nxt ! i then None
            else Some (CLedgerRecord (u32 i) (nxt ! i)))
       [0..<length nxt] @
     (if length nxt < length prev then [CLedgerTruncate (u32 (length nxt))] else [])"

definition context_changes :: "context_state \<Rightarrow> context_state \<Rightarrow> change list" where
  "context_changes prev nxt =
     (let d = context_between prev nxt in if diff_is_empty d then [] else [CContext d])"

definition state_changes :: "run_state \<Rightarrow> run_state \<Rightarrow> change list" where
  "state_changes prev nxt =
     changed (s_status prev) (s_status nxt) CStatus @
     changed (s_cursor prev) (s_cursor nxt) CCursor @
     changed (s_phase prev) (s_phase nxt) CPhase @
     changed (s_accepts_messages prev) (s_accepts_messages nxt) CAcceptsMessages @
     changed (s_visits prev) (s_visits nxt) CVisits @
     changed (s_progress prev) (s_progress nxt) CProgress @
     ledger_changes (s_ledger prev) (s_ledger nxt) @
     context_changes (s_context prev) (s_context nxt) @
     changed (s_pending prev) (s_pending nxt) CPending @
     changed (s_fan_out prev) (s_fan_out nxt) CFanOut @
     changed (s_inbox prev) (s_inbox nxt) CInbox @
     changed (s_interactions prev) (s_interactions nxt) CInteractions @
     changed (s_totals prev) (s_totals nxt) CTotals @
     changed (s_clock prev) (s_clock nxt) CClock @
     changed (s_flags prev) (s_flags nxt) CFlags @
     changed (s_children prev) (s_children nxt) CChildren @
     changed (s_title prev) (s_title nxt) CTitle @
     changed (s_final_output prev) (s_final_output nxt) CFinalOutput @
     changed (s_wait_reason prev) (s_wait_reason nxt) CWaitReason @
     changed (s_last_transition prev) (s_last_transition nxt) CLastTransition @
     changed (s_title_error prev) (s_title_error nxt) CTitleError @
     changed (s_read_paths prev) (s_read_paths nxt) CReadPaths @
     changed (s_point prev) (s_point nxt) CPoint @
     changed (s_held prev) (s_held nxt) CHeld @
     changed (s_files prev) (s_files nxt) CFiles @
     changed (s_blobs prev) (s_blobs nxt) CBlobs @
     changed (s_grants prev) (s_grants nxt) CGrants @
     changed (s_written prev) (s_written nxt) CWritten @
     changed (s_last_progress_at prev) (s_last_progress_at nxt) CLastProgressAt @
     changed (s_remote_jobs prev) (s_remote_jobs nxt) CRemoteJobs"

definition delta_between :: "run_state \<Rightarrow> run_state \<Rightarrow> int \<Rightarrow> run_event list \<Rightarrow> state_delta" where
  "delta_between prev nxt now events =
     \<lparr>d_seq = s_seq prev + 1, d_at = now, d_changes = state_changes prev nxt, d_events = events\<rparr>"

definition delta_is_empty :: "state_delta \<Rightarrow> bool" where
  "delta_is_empty d \<longleftrightarrow> d_changes d = [] \<and> d_events d = []"

definition delta_transitions :: "state_delta \<Rightarrow> transition_record list" where
  "delta_transitions d =
     List.map_filter (\<lambda>e. case e of TransitionEvent t \<Rightarrow> Some t | _ \<Rightarrow> None) (d_events d)"

definition put_record :: "nat \<Rightarrow> stage_record \<Rightarrow> stage_record list \<Rightarrow> stage_record list" where
  "put_record i rec ledger = (if i < length ledger then ledger[i := rec] else ledger @ [rec])"

fun apply_change :: "change \<Rightarrow> run_state \<Rightarrow> run_state" where
  "apply_change (CStatus v) s = s\<lparr>s_status := v\<rparr>"
| "apply_change (CCursor v) s = s\<lparr>s_cursor := v\<rparr>"
| "apply_change (CPhase v) s = s\<lparr>s_phase := v\<rparr>"
| "apply_change (CAcceptsMessages v) s = s\<lparr>s_accepts_messages := v\<rparr>"
| "apply_change (CVisits v) s = s\<lparr>s_visits := v\<rparr>"
| "apply_change (CProgress v) s = s\<lparr>s_progress := v\<rparr>"
| "apply_change (CLedgerRecord i rec) s = s\<lparr>s_ledger := put_record i rec (s_ledger s)\<rparr>"
| "apply_change (CLedgerTruncate len) s = s\<lparr>s_ledger := take len (s_ledger s)\<rparr>"
| "apply_change (CContext d) s = s\<lparr>s_context := context_apply d (s_context s)\<rparr>"
| "apply_change (CPending v) s = s\<lparr>s_pending := v\<rparr>"
| "apply_change (CFanOut v) s = s\<lparr>s_fan_out := v\<rparr>"
| "apply_change (CInbox v) s = s\<lparr>s_inbox := v\<rparr>"
| "apply_change (CInteractions v) s = s\<lparr>s_interactions := v\<rparr>"
| "apply_change (CTotals v) s = s\<lparr>s_totals := v\<rparr>"
| "apply_change (CClock v) s = s\<lparr>s_clock := v\<rparr>"
| "apply_change (CFlags v) s = s\<lparr>s_flags := v\<rparr>"
| "apply_change (CChildren v) s = s\<lparr>s_children := v\<rparr>"
| "apply_change (CTitle v) s = s\<lparr>s_title := v\<rparr>"
| "apply_change (CFinalOutput v) s = s\<lparr>s_final_output := v\<rparr>"
| "apply_change (CWaitReason v) s = s\<lparr>s_wait_reason := v\<rparr>"
| "apply_change (CLastTransition v) s = s\<lparr>s_last_transition := v\<rparr>"
| "apply_change (CTitleError v) s = s\<lparr>s_title_error := v\<rparr>"
| "apply_change (CReadPaths v) s = s\<lparr>s_read_paths := v\<rparr>"
| "apply_change (CPoint v) s = s\<lparr>s_point := v\<rparr>"
| "apply_change (CHeld v) s = s\<lparr>s_held := v\<rparr>"
| "apply_change (CFiles v) s = s\<lparr>s_files := v\<rparr>"
| "apply_change (CBlobs v) s = s\<lparr>s_blobs := v\<rparr>"
| "apply_change (CGrants v) s = s\<lparr>s_grants := v\<rparr>"
| "apply_change (CWritten v) s = s\<lparr>s_written := v\<rparr>"
| "apply_change (CLastProgressAt v) s = s\<lparr>s_last_progress_at := v\<rparr>"
| "apply_change (CRemoteJobs v) s = s\<lparr>s_remote_jobs := v\<rparr>"

definition delta_apply :: "state_delta \<Rightarrow> run_state \<Rightarrow> run_state" where
  "delta_apply d s = (fold apply_change (d_changes d) s)\<lparr>s_seq := d_seq d\<rparr>"

subsection \<open>The ledger\<close>

text \<open>
  Records go in one at a time: once the first \<open>k\<close> have been, the ledger starts with the new
  records and ends with what is left of the old ones.
\<close>

lemma put_record_step:
  assumes "k < length n"
  shows "put_record k (n ! k) (take k n @ drop k p) = take (Suc k) n @ drop (Suc k) p"
proof (cases "k < length p")
  case True
  then have "drop k p = p ! k # drop (Suc k) p" by (simp add: Cons_nth_drop_Suc)
  with assms show ?thesis by (simp add: put_record_def take_Suc_conv_app_nth list_update_append)
next
  case False
  with assms show ?thesis by (simp add: put_record_def take_Suc_conv_app_nth)
qed

lemma kept_record:
  assumes "k < length p" and "k < length n" and "p ! k = n ! k"
  shows "take k n @ drop k p = take (Suc k) n @ drop (Suc k) p"
  using assms by (simp add: take_Suc_conv_app_nth flip: Cons_nth_drop_Suc)

lemma ledger_records:
  assumes "k \<le> length n" and "length n \<le> 2 ^ 32"
  shows "fold apply_change (List.map_filter
       (\<lambda>i. if i < length p \<and> p ! i = n ! i then None
            else Some (CLedgerRecord (u32 i) (n ! i))) [0..<k]) (s\<lparr>s_ledger := p\<rparr>) =
     s\<lparr>s_ledger := take k n @ drop k p\<rparr>"
  using assms(1)
proof (induction k)
  case (Suc k)
  then have u: "u32 k = k" using assms(2) by (simp add: u32_def)
  show ?case
  proof (cases "k < length p \<and> p ! k = n ! k")
    case True
    with Suc kept_record [of k p n] show ?thesis
      by (simp add: List.map_filter_def)
  next
    case False
    with Suc u put_record_step [of k n p] show ?thesis
      by (auto simp: List.map_filter_def)
  qed
qed simp

lemma ledger_replay:
  assumes "length n \<le> 2 ^ 32" and "length p \<le> 2 ^ 32"
  shows "fold apply_change (ledger_changes p n) (s\<lparr>s_ledger := p\<rparr>) = s\<lparr>s_ledger := n\<rparr>"
proof -
  have u: "length n < length p \<Longrightarrow> u32 (length n) = length n" using assms by (simp add: u32_def)
  show ?thesis
    using ledger_records [of "length n" n p s] assms(1) u
    by (auto simp: ledger_changes_def)
qed

text \<open>One plain field, and the context.\<close>

lemma changed_apply: "fold apply_change (changed a b v) s = (if a = b then s else apply_change (v b) s)"
  by (simp add: changed_def)

lemma context_changes_apply:
  assumes "regions_distinct (s_context s)" and "regions_distinct n"
  shows "fold apply_change (context_changes (s_context s) n) s = s\<lparr>s_context := n\<rparr>"
  using context_replay [OF assms] diff_empty_iff [OF assms]
  by (simp add: context_changes_def Let_def)

lemma field_replay:
  "s_status s = a1 \<Longrightarrow> fold apply_change (changed a1 v1 CStatus) s = s\<lparr>s_status := v1\<rparr>"
  "s_cursor s = a2 \<Longrightarrow> fold apply_change (changed a2 v2 CCursor) s = s\<lparr>s_cursor := v2\<rparr>"
  "s_phase s = a3 \<Longrightarrow> fold apply_change (changed a3 v3 CPhase) s = s\<lparr>s_phase := v3\<rparr>"
  "s_accepts_messages s = a4 \<Longrightarrow> fold apply_change (changed a4 v4 CAcceptsMessages) s = s\<lparr>s_accepts_messages := v4\<rparr>"
  "s_visits s = a5 \<Longrightarrow> fold apply_change (changed a5 v5 CVisits) s = s\<lparr>s_visits := v5\<rparr>"
  "s_progress s = a6 \<Longrightarrow> fold apply_change (changed a6 v6 CProgress) s = s\<lparr>s_progress := v6\<rparr>"
  "s_pending s = a7 \<Longrightarrow> fold apply_change (changed a7 v7 CPending) s = s\<lparr>s_pending := v7\<rparr>"
  "s_fan_out s = a8 \<Longrightarrow> fold apply_change (changed a8 v8 CFanOut) s = s\<lparr>s_fan_out := v8\<rparr>"
  "s_inbox s = a9 \<Longrightarrow> fold apply_change (changed a9 v9 CInbox) s = s\<lparr>s_inbox := v9\<rparr>"
  "s_interactions s = a10 \<Longrightarrow> fold apply_change (changed a10 v10 CInteractions) s = s\<lparr>s_interactions := v10\<rparr>"
  "s_totals s = a11 \<Longrightarrow> fold apply_change (changed a11 v11 CTotals) s = s\<lparr>s_totals := v11\<rparr>"
  "s_clock s = a12 \<Longrightarrow> fold apply_change (changed a12 v12 CClock) s = s\<lparr>s_clock := v12\<rparr>"
  "s_flags s = a13 \<Longrightarrow> fold apply_change (changed a13 v13 CFlags) s = s\<lparr>s_flags := v13\<rparr>"
  "s_children s = a14 \<Longrightarrow> fold apply_change (changed a14 v14 CChildren) s = s\<lparr>s_children := v14\<rparr>"
  "s_title s = a15 \<Longrightarrow> fold apply_change (changed a15 v15 CTitle) s = s\<lparr>s_title := v15\<rparr>"
  "s_final_output s = a16 \<Longrightarrow> fold apply_change (changed a16 v16 CFinalOutput) s = s\<lparr>s_final_output := v16\<rparr>"
  "s_wait_reason s = a17 \<Longrightarrow> fold apply_change (changed a17 v17 CWaitReason) s = s\<lparr>s_wait_reason := v17\<rparr>"
  "s_last_transition s = a18 \<Longrightarrow> fold apply_change (changed a18 v18 CLastTransition) s = s\<lparr>s_last_transition := v18\<rparr>"
  "s_title_error s = a19 \<Longrightarrow> fold apply_change (changed a19 v19 CTitleError) s = s\<lparr>s_title_error := v19\<rparr>"
  "s_read_paths s = a20 \<Longrightarrow> fold apply_change (changed a20 v20 CReadPaths) s = s\<lparr>s_read_paths := v20\<rparr>"
  "s_point s = a21 \<Longrightarrow> fold apply_change (changed a21 v21 CPoint) s = s\<lparr>s_point := v21\<rparr>"
  "s_held s = a22 \<Longrightarrow> fold apply_change (changed a22 v22 CHeld) s = s\<lparr>s_held := v22\<rparr>"
  "s_files s = a23 \<Longrightarrow> fold apply_change (changed a23 v23 CFiles) s = s\<lparr>s_files := v23\<rparr>"
  "s_blobs s = a24 \<Longrightarrow> fold apply_change (changed a24 v24 CBlobs) s = s\<lparr>s_blobs := v24\<rparr>"
  "s_grants s = a25 \<Longrightarrow> fold apply_change (changed a25 v25 CGrants) s = s\<lparr>s_grants := v25\<rparr>"
  "s_written s = a26 \<Longrightarrow> fold apply_change (changed a26 v26 CWritten) s = s\<lparr>s_written := v26\<rparr>"
  "s_last_progress_at s = a27 \<Longrightarrow> fold apply_change (changed a27 v27 CLastProgressAt) s = s\<lparr>s_last_progress_at := v27\<rparr>"
  "s_remote_jobs s = a28 \<Longrightarrow> fold apply_change (changed a28 v28 CRemoteJobs) s = s\<lparr>s_remote_jobs := v28\<rparr>"
  by (auto simp: changed_def)

lemma ledger_replay_at:
  "s_ledger s = p \<Longrightarrow> length n \<le> 2 ^ 32 \<Longrightarrow> length p \<le> 2 ^ 32 \<Longrightarrow>
   fold apply_change (ledger_changes p n) s = s\<lparr>s_ledger := n\<rparr>"
  using ledger_replay [of n p s] by (metis run_state.surjective run_state.update_convs(8))

lemma context_replay_at:
  "s_context s = p \<Longrightarrow> regions_distinct p \<Longrightarrow> regions_distinct n \<Longrightarrow>
   fold apply_change (context_changes p n) s = s\<lparr>s_context := n\<rparr>"
  using context_changes_apply by blast

text \<open>
  A state a delta can be taken of: no two regions share a name and the ledger's length fits
  the index it is recorded with.
\<close>

definition recordable :: "run_state \<Rightarrow> bool" where
  "recordable s \<longleftrightarrow> regions_distinct (s_context s) \<and> length (s_ledger s) \<le> 2 ^ 32"

definition stamped :: "run_state \<Rightarrow> run_state \<Rightarrow> run_state" where
  "stamped p n = n\<lparr>s_seq := s_seq p + 1\<rparr>"

lemma changes_replay:
  assumes "recordable p" and "recordable n"
  shows "fold apply_change (state_changes p n) p = n\<lparr>s_seq := s_seq p\<rparr>"
proof -
  have "fold apply_change (state_changes p n) p = p
      \<lparr>s_status := s_status n, s_cursor := s_cursor n, s_phase := s_phase n, s_accepts_messages := s_accepts_messages n, s_visits := s_visits n, s_progress := s_progress n, s_ledger := s_ledger n, s_context := s_context n, s_pending := s_pending n, s_fan_out := s_fan_out n, s_inbox := s_inbox n, s_interactions := s_interactions n, s_totals := s_totals n, s_clock := s_clock n, s_flags := s_flags n, s_children := s_children n, s_title := s_title n, s_final_output := s_final_output n, s_wait_reason := s_wait_reason n, s_last_transition := s_last_transition n, s_title_error := s_title_error n, s_read_paths := s_read_paths n, s_point := s_point n, s_held := s_held n, s_files := s_files n, s_blobs := s_blobs n, s_grants := s_grants n, s_written := s_written n, s_last_progress_at := s_last_progress_at n, s_remote_jobs := s_remote_jobs n\<rparr>"
    using assms by (simp add: state_changes_def recordable_def field_replay ledger_replay_at context_replay_at)
  also have "\<dots> = n\<lparr>s_seq := s_seq p\<rparr>" by (rule run_state.equality) simp_all
  finally show ?thesis .
qed

lemma delta_replay:
  assumes "recordable p" and "recordable n"
  shows "delta_apply (delta_between p n now evs) p = stamped p n"
  using changes_replay [OF assms] by (simp add: delta_apply_def delta_between_def stamped_def)

lemma recordable_stamped: "recordable n \<Longrightarrow> recordable (stamped p n)"
  by (simp add: recordable_def stamped_def)

text \<open>Whatever is recorded with a step, the step is replayed the same.\<close>

interpretation state_recorder: step_recorder "\<lambda>p n. delta_between p n now evs" delta_apply stamped recordable
  for now evs
  by unfold_locales (simp_all add: delta_replay recordable_stamped)

lemma delta_empty_iff:
  assumes "recordable p" and "recordable n"
  shows "delta_is_empty (delta_between p n now evs) \<longleftrightarrow> evs = [] \<and> n = p\<lparr>s_seq := s_seq n\<rparr>"
proof -
  have "state_changes p n = [] \<longleftrightarrow> n = p\<lparr>s_seq := s_seq n\<rparr>"
  proof
    assume "state_changes p n = []"
    with changes_replay [OF assms] have "n\<lparr>s_seq := s_seq p\<rparr> = p" by simp
    then have "p\<lparr>s_seq := s_seq n\<rparr> = n\<lparr>s_seq := s_seq p\<rparr>\<lparr>s_seq := s_seq n\<rparr>" by simp
    then show "n = p\<lparr>s_seq := s_seq n\<rparr>" by simp
  next
    assume n: "n = p\<lparr>s_seq := s_seq n\<rparr>"
    have "state_changes p (p\<lparr>s_seq := k\<rparr>) = []" for k
      using diff_empty_iff [of "s_context p" "s_context p"] assms(1)
      by (auto simp: state_changes_def changed_def ledger_changes_def context_changes_def
          recordable_def List.map_filter_def filter_empty_conv)
    with n show "state_changes p n = []" by metis
  qed
  then show ?thesis by (auto simp: delta_is_empty_def delta_between_def)
qed

end
