(* ===== verification/Run_Codec.thy ===== *)
theory Run_Codec
  imports State_Delta "HOL-Library.Word"
begin

text \<open>
  The byte layout of a run file, \<open>crates/leviath-runtime/src/runfile/codec.rs\<close>: the header,
  the frames, and the walks over them in both directions. What encodes, compresses and
  checks a payload is third-party code, kept as the record \<open>packing\<close> of its functions. An
  offset is a natural number; a length in a frame is a 32-bit word, least byte first.
\<close>

unbundle bit_operations_syntax

type_synonym byte = "8 word"

subsection \<open>Numbers\<close>

definition le32 :: "32 word \<Rightarrow> byte list" where
  "le32 w = [ucast w, ucast (drop_bit 8 w), ucast (drop_bit 16 w), ucast (drop_bit 24 w)]"

definition of_le32 :: "byte \<Rightarrow> byte \<Rightarrow> byte \<Rightarrow> byte \<Rightarrow> 32 word" where
  "of_le32 a b c d = ucast a OR push_bit 8 (ucast b) OR push_bit 16 (ucast c) OR push_bit 24 (ucast d)"

definition get_range :: "nat \<Rightarrow> nat \<Rightarrow> 'a list \<Rightarrow> 'a list option" where
  "get_range from to xs = (if from \<le> to \<and> to \<le> length xs then Some (take (to - from) (drop from xs)) else None)"

definition u32_at :: "byte list \<Rightarrow> nat \<Rightarrow> nat option" where
  "u32_at bytes ofs =
     map_option (\<lambda>b. unat (of_le32 (b ! 0) (b ! 1) (b ! 2) (b ! 3))) (get_range ofs (ofs + 4) bytes)"

lemma le32_length [simp]: "length (le32 w) = 4"
  by (simp add: le32_def)

text \<open>Each byte contributes its own eight bits.\<close>

lemma byte_bits:
  fixes w :: "32 word"
  shows "bit (push_bit k (ucast (ucast (drop_bit k w) :: byte) :: 32 word)) n \<longleftrightarrow>
         k \<le> n \<and> n < k + 8 \<and> n < 32 \<and> bit w n"
  using bit_imp_le_length [of w n] by (auto simp: bit_simps)

lemma of_le32_le32:
  "of_le32 (le32 w ! 0) (le32 w ! 1) (le32 w ! 2) (le32 w ! 3) = w"
proof (rule bit_word_eqI)
  fix n assume n: "n < LENGTH(32)"
  have b: "le32 w ! 0 = ucast (drop_bit 0 w)" "le32 w ! 1 = ucast (drop_bit 8 w)"
    "le32 w ! 2 = ucast (drop_bit 16 w)" "le32 w ! 3 = ucast (drop_bit 24 w)"
    by (simp_all add: le32_def)
  have low: "bit (ucast (ucast (drop_bit 0 w) :: byte) :: 32 word) n \<longleftrightarrow> n < 8 \<and> n < 32 \<and> bit w n"
    using byte_bits [of 0 w n] by simp
  have n32: "n < 32" using n by simp
  then have "n < 8 \<or> (8 \<le> n \<and> n < 16) \<or> (16 \<le> n \<and> n < 24) \<or> 24 \<le> n" by linarith
  with n32 show "bit (of_le32 (le32 w ! 0) (le32 w ! 1) (le32 w ! 2) (le32 w ! 3)) n = bit w n"
    unfolding of_le32_def b bit_or_iff byte_bits low by auto
qed

subsection \<open>Frames\<close>

definition MAGIC :: "byte list" where "MAGIC = [0x4C, 0x56, 0x52, 0x32]"

definition HEADER_LEN :: nat where "HEADER_LEN = 4 + 32"

definition FRAME_OVERHEAD :: nat where "FRAME_OVERHEAD = 1 + 4 + 4 + 4"

datatype frame_kind = SpecFrame | CodeFrame | DeltaFrame | StateFrame | OwnerFrame

fun kind_byte :: "frame_kind \<Rightarrow> byte" where
  "kind_byte SpecFrame = 1"
| "kind_byte CodeFrame = 2"
| "kind_byte DeltaFrame = 4"
| "kind_byte StateFrame = 5"
| "kind_byte OwnerFrame = 6"

definition from_byte :: "byte \<Rightarrow> frame_kind option" where
  "from_byte b =
     (if b = 1 then Some SpecFrame else if b = 2 then Some CodeFrame
      else if b = 4 then Some DeltaFrame else if b = 5 then Some StateFrame
      else if b = 6 then Some OwnerFrame else None)"

lemma from_kind_byte [simp]: "from_byte (kind_byte k) = Some k"
  by (cases k) (simp_all add: from_byte_def)

text \<open>What a frame carries. A spec's settings are looked at by nothing here but its code.\<close>

record code_frame =
  cf_digest :: string
  cf_bytes :: "byte list"

record owner_frame =
  machine_id :: string
  world_id :: string
  owner_at :: int

record run_spec =
  spec_run_id :: string
  spec_code :: "(string \<times> string) list"
  spec_created_at :: int
  spec_rest :: json

datatype payload =
    PSpec run_spec
  | PCode code_frame
  | PDelta state_delta
  | PState run_state
  | POwner owner_frame

fun payload_kind :: "payload \<Rightarrow> frame_kind" where
  "payload_kind (PSpec _) = SpecFrame"
| "payload_kind (PCode _) = CodeFrame"
| "payload_kind (PDelta _) = DeltaFrame"
| "payload_kind (PState _) = StateFrame"
| "payload_kind (POwner _) = OwnerFrame"

datatype codec_error =
    NotARunFile
  | Fingerprint "byte list" "byte list"
  | Corrupt nat
  | UnknownKind nat byte
  | Decode string
  | TooLarge nat nat
  | Encode string

text \<open>
  The third-party code: \<open>postcard\<close> writes and reads a payload of a kind, and the number or
  the digest one starts with; \<open>zstd\<close> compresses, says the size a body's header claims, and
  reads at most so many bytes of what a body holds; \<open>crc32fast\<close> sums.
\<close>

record packing =
  to_stdvec :: "payload \<Rightarrow> string + byte list"
  from_bytes :: "frame_kind \<Rightarrow> byte list \<Rightarrow> string + payload"
  take_seq :: "byte list \<Rightarrow> string + nat"
  take_digest :: "byte list \<Rightarrow> string + string"
  zstd_compress :: "byte list \<Rightarrow> byte list"
  zstd_size :: "byte list \<Rightarrow> nat option"
  zstd_read :: "nat \<Rightarrow> byte list \<Rightarrow> string + byte list"
  crc32 :: "byte list \<Rightarrow> 32 word"
  fingerprint :: "byte list"

definition header :: "byte list \<Rightarrow> byte list" where
  "header fp = MAGIC @ fp"

definition check_header :: "byte list \<Rightarrow> byte list \<Rightarrow> codec_error + unit" where
  "check_header bytes fp =
     (if length bytes < HEADER_LEN \<or> \<not> prefix MAGIC bytes then Inl NotARunFile
      else let found = take (HEADER_LEN - 4) (drop 4 bytes) in
        if found = fp then Inr () else Inl (Fingerprint found fp))"

definition frame_bytes :: "packing \<Rightarrow> frame_kind \<Rightarrow> byte list \<Rightarrow> byte list" where
  "frame_bytes pk kind body =
     kind_byte kind # le32 (of_nat (length body)) @ body @
     le32 (crc32 pk (kind_byte kind # body)) @ le32 (of_nat (length body))"

definition frame_of :: "packing \<Rightarrow> frame_kind \<Rightarrow> string + byte list \<Rightarrow> nat \<Rightarrow> codec_error + byte list" where
  "frame_of pk kind raw max_body =
     (case raw of
        Inl e \<Rightarrow> Inl (Encode e)
      | Inr r \<Rightarrow>
          let body = zstd_compress pk r in
          if length body < 2 ^ 32 \<and> length body \<le> max_body then Inr (frame_bytes pk kind body)
          else Inl (Encode
            (''a frame body of '' @ show_nat (length body) @ '' bytes is over the '' @
             show_nat max_body @ ''-byte limit'')))"

definition u32_max :: nat where "u32_max = 2 ^ 32 - 1"

definition encode :: "packing \<Rightarrow> payload \<Rightarrow> codec_error + byte list" where
  "encode pk p = frame_of pk (payload_kind p) (to_stdvec pk p) u32_max"

record frame_ref =
  f_kind :: frame_kind
  f_offset :: nat
  f_body :: nat
  f_len :: nat

definition frame_end :: "frame_ref \<Rightarrow> nat" where
  "frame_end f = f_body f + f_len f + 8"

definition whole :: "packing \<Rightarrow> byte list \<Rightarrow> nat \<Rightarrow> (byte \<times> nat) option" where
  "whole pk bytes offset =
     (if offset < length bytes then
        let kind = bytes ! offset; body = offset + 5 in
        (case u32_at bytes (offset + 1) of None \<Rightarrow> None | Some len \<Rightarrow>
        (case get_range body (body + len) bytes of None \<Rightarrow> None | Some body_bytes \<Rightarrow>
        (case u32_at bytes (body + len) of None \<Rightarrow> None | Some crc \<Rightarrow>
        (case u32_at bytes (body + len + 4) of None \<Rightarrow> None | Some again \<Rightarrow>
           if again \<noteq> len then None
           else if unat (crc32 pk (kind # body_bytes)) = crc then Some (kind, len) else None))))
      else None)"

definition frame_at :: "packing \<Rightarrow> byte list \<Rightarrow> nat \<Rightarrow> codec_error + frame_ref" where
  "frame_at pk bytes offset =
     (case whole pk bytes offset of
        None \<Rightarrow> Inl (Corrupt offset)
      | Some (b, len) \<Rightarrow>
          (case from_byte b of
             None \<Rightarrow> Inl (UnknownKind offset b)
           | Some kind \<Rightarrow> Inr \<lparr>f_kind = kind, f_offset = offset, f_body = offset + 5, f_len = len\<rparr>))"

definition frame_before :: "packing \<Rightarrow> byte list \<Rightarrow> nat \<Rightarrow> codec_error + frame_ref" where
  "frame_before pk bytes end' =
     (case (if 4 \<le> end' then u32_at bytes (end' - 4) else None) of
        None \<Rightarrow> Inl (Corrupt end')
      | Some len \<Rightarrow>
          if len + FRAME_OVERHEAD \<le> end' \<and> HEADER_LEN \<le> end' - (len + FRAME_OVERHEAD)
          then frame_at pk bytes (end' - (len + FRAME_OVERHEAD))
          else Inl (Corrupt end'))"

subsection \<open>What a whole frame is\<close>

lemma get_range_take:
  "get_range a b (take m xs) = (if b \<le> m then get_range a b xs else None)"
  by (auto simp: get_range_def min_def drop_take)

lemma get_range_mid:
  "get_range (length xs) (length xs + length ys) (xs @ ys @ zs) = Some ys"
  by (simp add: get_range_def)

lemma u32_at_take: "u32_at (take m xs) i = (if i + 4 \<le> m then u32_at xs i else None)"
  by (simp add: u32_at_def get_range_take)

lemma u32_at_le32: "u32_at (xs @ le32 w @ zs) (length xs) = Some (unat w)"
  using get_range_mid [of xs "le32 w" zs] by (simp add: u32_at_def of_le32_le32 flip: One_nat_def)

lemma whole_bound: "whole pk bytes offset = Some (b, len) \<Longrightarrow> offset + len + FRAME_OVERHEAD \<le> length bytes"
  by (auto simp: whole_def Let_def u32_at_def get_range_def FRAME_OVERHEAD_def
      split: if_splits option.splits)

text \<open>A file cut short has exactly the whole frames that end before the cut.\<close>

lemma whole_take:
  "whole pk (take m bytes) offset =
     (case whole pk bytes offset of
        Some (b, len) \<Rightarrow> if offset + len + FRAME_OVERHEAD \<le> m then Some (b, len) else None
      | None \<Rightarrow> None)"
proof (cases "offset < length bytes \<and> offset < m")
  case True
  then show ?thesis
    by (auto simp: whole_def Let_def u32_at_take get_range_take FRAME_OVERHEAD_def
        split: option.splits if_splits)
next
  case False
  have "whole pk bytes offset = Some (b, len) \<Longrightarrow> \<not> offset + len + FRAME_OVERHEAD \<le> m" for b len
    using False whole_bound [of pk bytes offset b len] by (auto simp: FRAME_OVERHEAD_def)
  moreover have "whole pk (take m bytes) offset = None" using False by (auto simp: whole_def)
  ultimately show ?thesis by (auto split: option.splits)
qed

lemma whole_frame:
  assumes "length body < 2 ^ 32"
  shows "whole pk (xs @ frame_bytes pk k body @ zs) (length xs) = Some (kind_byte k, length body)"
proof -
  let ?n = "le32 (of_nat (length body))" and ?c = "le32 (crc32 pk (kind_byte k # body))"
  let ?F = "xs @ frame_bytes pk k body @ zs"
  have len: "unat (of_nat (length body) :: 32 word) = length body"
    using assms by (simp add: unat_of_nat take_bit_nat_eq_self)
  have F: "?F = (xs @ [kind_byte k]) @ ?n @ body @ ?c @ ?n @ zs" by (simp add: frame_bytes_def)
  have n1: "u32_at ?F (length xs + 1) = Some (length body)"
    using u32_at_le32 [of "xs @ [kind_byte k]"] len by (simp add: F)
  have b: "get_range (length xs + 5) (length xs + 5 + length body) ?F = Some body"
    using get_range_mid [of "xs @ [kind_byte k] @ ?n" body "?c @ ?n @ zs"] by (simp add: F)
  have c: "u32_at ?F (length xs + 5 + length body) = Some (unat (crc32 pk (kind_byte k # body)))"
    using u32_at_le32 [of "xs @ [kind_byte k] @ ?n @ body" "crc32 pk (kind_byte k # body)" "?n @ zs"]
    by (simp add: F add.assoc)
  have n2: "u32_at ?F (length xs + 5 + length body + 4) = Some (length body)"
    using u32_at_le32 [of "xs @ [kind_byte k] @ ?n @ body @ ?c" "of_nat (length body)" zs] len
    by (simp add: F add.assoc)
  have k: "?F ! length xs = kind_byte k" "length xs < length ?F" by (simp_all add: frame_bytes_def)
  show ?thesis using k(2) by (simp only: whole_def Let_def n1 b c n2 k(1) option.case if_True if_False simp_thms)
qed

lemma frame_at_frame:
  assumes "length body < 2 ^ 32"
  shows "frame_at pk (xs @ frame_bytes pk k body @ zs) (length xs) =
    Inr \<lparr>f_kind = k, f_offset = length xs, f_body = length xs + 5, f_len = length body\<rparr>"
  by (simp add: frame_at_def whole_frame [OF assms])

lemma frame_length [simp]: "length (frame_bytes pk k body) = length body + FRAME_OVERHEAD"
  by (simp add: frame_bytes_def FRAME_OVERHEAD_def)

lemma frame_at_ref:
  "frame_at pk bytes offset = Inr f \<Longrightarrow>
   f_offset f = offset \<and> f_body f = offset + 5 \<and> frame_end f = offset + f_len f + FRAME_OVERHEAD \<and>
   frame_end f \<le> length bytes \<and> whole pk bytes offset = Some (kind_byte (f_kind f), f_len f)"
  using whole_bound [of pk bytes offset]
  by (auto simp: frame_at_def frame_end_def FRAME_OVERHEAD_def from_byte_def
      split: option.splits if_splits)

text \<open>What reads at an offset reads again backwards from its end.\<close>

lemma frame_before_end:
  assumes "frame_at pk bytes offset = Inr f" and "HEADER_LEN \<le> offset"
  shows "frame_before pk bytes (frame_end f) = Inr f"
proof -
  note ref = frame_at_ref [OF assms(1)]
  then have "u32_at bytes (offset + 5 + f_len f + 4) = Some (f_len f)"
    by (auto simp: whole_def Let_def split: option.splits if_splits)
  moreover have "frame_end f - 4 = offset + 5 + f_len f + 4" "frame_end f - (f_len f + FRAME_OVERHEAD) = offset"
    using ref by (simp_all add: FRAME_OVERHEAD_def)
  ultimately show ?thesis using assms ref by (simp add: frame_before_def FRAME_OVERHEAD_def)
qed

end
