(* ===== verification/Run_Scan.thy ===== *)
theory Run_Scan
  imports Run_Codec
begin

text \<open>
  Walking a run file's frames, the rest of \<open>crates/leviath-runtime/src/runfile/codec.rs\<close>:
  the forward scan with its four ways to stop, the search for a whole frame after a damaged
  one, and the bounded decoding of a frame's body.
\<close>

datatype stop = StopEnd | StopTorn nat | StopCorrupt nat | StopUnknownKind nat byte

definition damage :: "stop \<Rightarrow> codec_error option" where
  "damage s = (case s of
     StopEnd \<Rightarrow> None
   | StopTorn _ \<Rightarrow> None
   | StopCorrupt i \<Rightarrow> Some (Corrupt i)
   | StopUnknownKind i kind \<Rightarrow> Some (UnknownKind i kind))"

record scan_result =
  sc_frames :: "frame_ref list"
  sc_end :: nat
  sc_stop :: stop

definition whole_frame_after :: "packing \<Rightarrow> byte list \<Rightarrow> nat \<Rightarrow> bool" where
  "whole_frame_after pk bytes i =
     list_ex (\<lambda>offset. whole pk bytes offset \<noteq> None) [i + 1..<length bytes]"

function scan_from :: "packing \<Rightarrow> byte list \<Rightarrow> nat \<Rightarrow> scan_result" where
  "scan_from pk bytes i =
     (if length bytes \<le> i then \<lparr>sc_frames = [], sc_end = i, sc_stop = StopEnd\<rparr>
      else case frame_at pk bytes i of
        Inr f \<Rightarrow> (let rest = scan_from pk bytes (frame_end f)
                 in rest\<lparr>sc_frames := f # sc_frames rest\<rparr>)
      | Inl (UnknownKind _ kind) \<Rightarrow> \<lparr>sc_frames = [], sc_end = i, sc_stop = StopUnknownKind i kind\<rparr>
      | Inl _ \<Rightarrow> \<lparr>sc_frames = [], sc_end = i, sc_stop =
          (if whole_frame_after pk bytes i then StopCorrupt i else StopTorn i)\<rparr>)"
  by pat_completeness auto

text \<open>Every frame read moves the walk on by at least the bytes around its body.\<close>

termination
  by (relation "measure (\<lambda>(_, bytes, i). length bytes - i)")
     (auto dest!: frame_at_ref simp: FRAME_OVERHEAD_def)

declare scan_from.simps [simp del]

definition scan :: "packing \<Rightarrow> byte list \<Rightarrow> scan_result" where
  "scan pk bytes = scan_from pk bytes (min HEADER_LEN (length bytes))"

subsection \<open>A frame's payload\<close>

definition MAX_PAYLOAD :: nat where "MAX_PAYLOAD = 2 ^ 30"

text \<open>The room set aside up front is a hint to the allocator and has no part in the result.\<close>

definition decompress_within :: "packing \<Rightarrow> byte list \<Rightarrow> nat \<Rightarrow> nat \<Rightarrow> codec_error + byte list" where
  "decompress_within pk body offset limit =
     (if (case zstd_size pk body of Some declared \<Rightarrow> limit < declared | None \<Rightarrow> False)
      then Inl (TooLarge offset limit)
      else case zstd_read pk (limit + 1) body of
          Inl e \<Rightarrow> Inl (Decode e)
        | Inr out \<Rightarrow> if limit < length out then Inl (TooLarge offset limit) else Inr out)"

definition decode_frame :: "packing \<Rightarrow> byte list \<Rightarrow> frame_ref \<Rightarrow> codec_error + payload" where
  "decode_frame pk bytes f =
     (case get_range (f_body f) (f_body f + f_len f) bytes of
        None \<Rightarrow> Inl (Corrupt (f_offset f))
      | Some body \<Rightarrow>
          (case decompress_within pk body (f_offset f) MAX_PAYLOAD of
             Inl e \<Rightarrow> Inl e
           | Inr raw \<Rightarrow>
               (case from_bytes pk (f_kind f) raw of
                  Inl e \<Rightarrow> Inl (Decode e)
                | Inr p \<Rightarrow> Inr p)))"

text \<open>Whatever a body claims or holds, decoding never keeps more than the limit.\<close>

lemma decompress_bound:
  "decompress_within pk body offset limit = Inr out \<Longrightarrow> length out \<le> limit"
  by (auto simp: decompress_within_def split: if_splits sum.splits option.splits)

subsection \<open>Files made of frames\<close>

type_synonym frame = "frame_kind \<times> byte list"

definition fits :: "frame list \<Rightarrow> bool" where
  "fits fs \<longleftrightarrow> (\<forall>(_, body) \<in> set fs. length body < 2 ^ 32)"

definition frames_bytes :: "packing \<Rightarrow> frame list \<Rightarrow> byte list" where
  "frames_bytes pk fs = concat (map (\<lambda>(k, body). frame_bytes pk k body) fs)"

fun refs_from :: "nat \<Rightarrow> frame list \<Rightarrow> frame_ref list" where
  "refs_from i [] = []"
| "refs_from i ((k, body) # fs) =
     \<lparr>f_kind = k, f_offset = i, f_body = i + 5, f_len = length body\<rparr> #
     refs_from (i + length body + FRAME_OVERHEAD) fs"

definition frames_len :: "frame list \<Rightarrow> nat" where
  "frames_len fs = sum_list (map (\<lambda>(_, body). length body + FRAME_OVERHEAD) fs)"

lemma frames_simps [simp]:
  "frames_bytes pk [] = []"
  "frames_bytes pk ((k, body) # fs) = frame_bytes pk k body @ frames_bytes pk fs"
  "frames_bytes pk (fs @ gs) = frames_bytes pk fs @ frames_bytes pk gs"
  "frames_len [] = 0"
  "frames_len ((k, body) # fs) = length body + FRAME_OVERHEAD + frames_len fs"
  "frames_len (fs @ gs) = frames_len fs + frames_len gs"
  "fits []" "fits ((k, body) # fs) \<longleftrightarrow> length body < 2 ^ 32 \<and> fits fs"
  "fits (fs @ gs) \<longleftrightarrow> fits fs \<and> fits gs"
  by (auto simp: frames_bytes_def frames_len_def fits_def)

lemma frames_bytes_length [simp]: "length (frames_bytes pk fs) = frames_len fs"
  by (induction fs) auto

lemma refs_length [simp]: "length (refs_from i fs) = length fs"
  by (induction i fs rule: refs_from.induct) auto

lemma refs_append: "refs_from i (fs @ gs) = refs_from i fs @ refs_from (i + frames_len fs) gs"
  by (induction i fs rule: refs_from.induct) (auto simp: algebra_simps)

lemma refs_kinds: "map f_kind (refs_from i fs) = map fst fs"
  by (induction i fs rule: refs_from.induct) auto

text \<open>Reading frames that were written one after another gives them back.\<close>

lemma scan_frames_from:
  "fits fs \<Longrightarrow> scan_from pk (xs @ frames_bytes pk fs) (length xs) =
   \<lparr>sc_frames = refs_from (length xs) fs, sc_end = length xs + frames_len fs, sc_stop = StopEnd\<rparr>"
proof (induction fs arbitrary: xs)
  case Nil
  then show ?case by (simp add: scan_from.simps)
next
  case (Cons kb fs)
  obtain k body where kb: "kb = (k, body)" by fastforce
  let ?F = "frame_bytes pk k body"
  have "frame_at pk (xs @ ?F @ frames_bytes pk fs) (length xs) =
      Inr \<lparr>f_kind = k, f_offset = length xs, f_body = length xs + 5, f_len = length body\<rparr>"
    using Cons.prems kb by (intro frame_at_frame) simp
  moreover have "scan_from pk ((xs @ ?F) @ frames_bytes pk fs) (length (xs @ ?F)) =
      \<lparr>sc_frames = refs_from (length (xs @ ?F)) fs, sc_end = length (xs @ ?F) + frames_len fs,
       sc_stop = StopEnd\<rparr>"
    using Cons.prems kb by (intro Cons.IH) simp
  ultimately show ?case
    by (subst scan_from.simps) (simp add: kb frame_end_def FRAME_OVERHEAD_def algebra_simps)
qed

subsection \<open>Files cut short\<close>

text \<open>The frames that end before the cut.\<close>

fun kept :: "nat \<Rightarrow> frame list \<Rightarrow> frame list" where
  "kept m [] = []"
| "kept m ((k, body) # fs) =
     (if length body + FRAME_OVERHEAD \<le> m
      then (k, body) # kept (m - (length body + FRAME_OVERHEAD)) fs else [])"

lemma kept_prefix: "\<exists>gs. fs = kept m fs @ gs"
  by (induction m fs rule: kept.induct) auto

lemma kept_len: "frames_len (kept m fs) \<le> m"
  by (induction m fs rule: kept.induct) auto

lemma kept_all: "frames_len fs \<le> m \<Longrightarrow> kept m fs = fs"
  by (induction m fs rule: kept.induct) auto

lemma kept_append: "kept m (fs @ gs) =
    (if frames_len fs \<le> m then fs @ kept (m - frames_len fs) gs else kept m fs)"
proof (induction m fs rule: kept.induct)
  case (2 m k body fs)
  then show ?case by (auto simp: algebra_simps)
qed simp

text \<open>A frame hides another when a whole frame starts inside it.\<close>

definition hides_none :: "packing \<Rightarrow> frame \<Rightarrow> bool" where
  "hides_none pk f = (let bytes = frame_bytes pk (fst f) (snd f) in
     \<forall>i \<in> {1..<length bytes}. whole pk bytes i = None)"

lemma get_range_shift: "get_range (length xs + a) (length xs + b) (xs @ ys) = get_range a b ys"
  by (simp add: get_range_def)

lemma u32_at_shift: "u32_at (xs @ ys) (length xs + i) = u32_at ys i"
  using get_range_shift [of xs i "i + 4" ys] by (simp add: u32_at_def add.assoc)

lemma whole_shift: "whole pk (xs @ ys) (length xs + i) = whole pk ys i"
proof -
  have e: "length xs + i + n = length xs + (i + n)" for n by simp
  show ?thesis unfolding whole_def e u32_at_shift
    using get_range_shift [of xs "i + 5"]
    by (auto simp: Let_def nth_append add.assoc u32_at_shift split: option.splits)
qed

text \<open>
  The walk over a cut file reads exactly the whole frames before the cut. What stops it is
  the end, when the cut falls between two frames, or else the frame the cut left unfinished.
\<close>

lemma scan_cut_from:
  assumes "fits fs" and "m \<le> frames_len fs"
  shows "\<exists>why. scan_from pk (take (length xs + m) (xs @ frames_bytes pk fs)) (length xs) =
     \<lparr>sc_frames = refs_from (length xs) (kept m fs), sc_end = length xs + frames_len (kept m fs),
      sc_stop = why\<rparr> \<and>
     (m = frames_len (kept m fs) \<longrightarrow> why = StopEnd) \<and>
     (m \<noteq> frames_len (kept m fs) \<longrightarrow>
        why \<in> {StopTorn (length xs + frames_len (kept m fs)), StopCorrupt (length xs + frames_len (kept m fs))} \<and>
        ((\<forall>f \<in> set fs. hides_none pk f) \<longrightarrow> why = StopTorn (length xs + frames_len (kept m fs))))"
  using assms
proof (induction fs arbitrary: xs m)
  case Nil
  then show ?case by (simp add: scan_from.simps)
next
  case (Cons kb fs)
  obtain k body where kb: "kb = (k, body)" by fastforce
  let ?F = "frame_bytes pk k body" and ?n = "length body + FRAME_OVERHEAD"
  let ?B = "take (length xs + m) (xs @ ?F @ frames_bytes pk fs)"
  show ?case
  proof (cases "?n \<le> m")
    case True
    let ?G = "take (length (xs @ ?F) + (m - ?n)) ((xs @ ?F) @ frames_bytes pk fs)"
    have G: "?B = ?G" using True by simp
    have B: "?B = xs @ ?F @ take (m - ?n) (frames_bytes pk fs)" using True by simp
    have step: "frame_at pk ?B (length xs) =
        Inr \<lparr>f_kind = k, f_offset = length xs, f_body = length xs + 5, f_len = length body\<rparr>"
      unfolding B using Cons.prems kb by (intro frame_at_frame) simp
    have "fits fs" "m - ?n \<le> frames_len fs" using Cons.prems kb by auto
    from Cons.IH [OF this, of "xs @ ?F"] obtain why where
      why: "scan_from pk ?B (length xs + ?n) =
        \<lparr>sc_frames = refs_from (length xs + ?n) (kept (m - ?n) fs),
         sc_end = length xs + ?n + frames_len (kept (m - ?n) fs), sc_stop = why\<rparr>"
      and rest: "m - ?n = frames_len (kept (m - ?n) fs) \<longrightarrow> why = StopEnd"
        "m - ?n \<noteq> frames_len (kept (m - ?n) fs) \<longrightarrow>
          why \<in> {StopTorn (length xs + ?n + frames_len (kept (m - ?n) fs)),
                 StopCorrupt (length xs + ?n + frames_len (kept (m - ?n) fs))} \<and>
          ((\<forall>f \<in> set fs. hides_none pk f) \<longrightarrow>
             why = StopTorn (length xs + ?n + frames_len (kept (m - ?n) fs)))"
      unfolding G by auto
    have "scan_from pk ?B (length xs) =
        \<lparr>sc_frames = refs_from (length xs) (kept m (kb # fs)),
         sc_end = length xs + frames_len (kept m (kb # fs)), sc_stop = why\<rparr>"
      using step why True FRAME_OVERHEAD_def
      by (subst scan_from.simps) (simp add: kb frame_end_def algebra_simps Let_def)
    with rest True show ?thesis by (intro exI [of _ why]) (auto simp: kb algebra_simps)
  next
    case False
    then have none: "kept m (kb # fs) = []" by (simp add: kb)
    show ?thesis
    proof (cases "m = 0")
      case True
      then show ?thesis using none by (simp add: scan_from.simps kb)
    next
      case False
      have B: "?B = take (length xs + m) (xs @ ?F)" using \<open>\<not> ?n \<le> m\<close> by simp
      have w: "whole pk ?B (length xs + i) =
          (case whole pk ?F i of
             Some (b, len) \<Rightarrow> if i + len + FRAME_OVERHEAD \<le> m then Some (b, len) else None
           | None \<Rightarrow> None)" for i
        unfolding B whole_take whole_shift by (auto split: option.splits)
      have "whole pk ?F 0 = Some (kind_byte k, length body)"
        using whole_frame [of body pk "[]" k "[]"] Cons.prems kb by simp
      then have "frame_at pk ?B (length xs) = Inl (Corrupt (length xs))"
        using w [of 0] \<open>\<not> ?n \<le> m\<close> by (simp add: frame_at_def)
      then have s: "scan_from pk ?B (length xs) =
          \<lparr>sc_frames = [], sc_end = length xs, sc_stop =
            (if whole_frame_after pk ?B (length xs) then StopCorrupt (length xs) else StopTorn (length xs))\<rparr>"
        using \<open>m \<noteq> 0\<close> by (subst scan_from.simps) (simp add: FRAME_OVERHEAD_def)
      have "\<not> whole_frame_after pk ?B (length xs)" if hidden: "hides_none pk kb"
      proof -
        have "whole pk ?B j = None" if "j \<in> {length xs + 1..<length ?B}" for j
        proof -
          define i where "i = j - length xs"
          have "length ?B = length xs + m" unfolding B using \<open>\<not> ?n \<le> m\<close> by simp
          with that have i: "j = length xs + i" "1 \<le> i" "i < m" by (auto simp: i_def)
          then have "whole pk ?F i = None"
            using hidden \<open>\<not> ?n \<le> m\<close> by (simp add: hides_none_def kb Let_def)
          then show ?thesis unfolding i(1) w by simp
        qed
        then show ?thesis by (auto simp: whole_frame_after_def list_ex_iff)
      qed
      with s none False show ?thesis by (simp add: kb)
    qed
  qed
qed

end
