(* ===== verification/Run_Reader.thy ===== *)
theory Run_Reader
  imports Run_Scan
begin

text \<open>
  Reading a run file, \<open>crates/leviath-runtime/src/runfile/reader.rs\<close> and the errors of
  \<open>runfile/error.rs\<close>: the index of its frames by step, and the state at any step. A read
  that the code's types make impossible, a frame of one kind holding another's payload, is a
  decode error here.
\<close>

datatype run_file_error =
    IoError string
  | CodecErr codec_error
  | NoSpec
  | NoState
  | SeqGap nat nat
  | NoSuchStep nat nat
  | MissingCode string
  | MissingBlob string
  | Beside string
  | EncodePanic

record run_reader =
  rd_bytes :: "byte list"
  rd_spec :: run_spec
  rd_code :: "string \<Rightarrow> frame_ref option"
  rd_owners :: "frame_ref list"
  rd_states :: "(nat \<times> frame_ref) list"
  rd_deltas :: "(nat \<times> frame_ref) list"
  rd_torn :: nat

definition PEEK_BYTES :: nat where "PEEK_BYTES = 80"

definition peek :: "packing \<Rightarrow> (byte list \<Rightarrow> string + 'a) \<Rightarrow> byte list \<Rightarrow> frame_ref \<Rightarrow> codec_error + 'a" where
  "peek pk take_value bytes f =
     (let body = (case get_range (f_body f) (f_body f + f_len f) bytes of Some b \<Rightarrow> b | None \<Rightarrow> []) in
      case zstd_read pk PEEK_BYTES body of
        Inl e \<Rightarrow> Inl (Decode e)
      | Inr head \<Rightarrow> (case take_value head of Inl e \<Rightarrow> Inl (Decode e) | Inr v \<Rightarrow> Inr v))"

abbreviation peek_seq :: "packing \<Rightarrow> byte list \<Rightarrow> frame_ref \<Rightarrow> codec_error + nat" where
  "peek_seq pk \<equiv> peek pk (take_seq pk)"

fun peek_all :: "packing \<Rightarrow> byte list \<Rightarrow> frame_ref list \<Rightarrow> codec_error + (nat \<times> frame_ref) list" where
  "peek_all pk bytes [] = Inr []"
| "peek_all pk bytes (f # fs) =
     (case peek_seq pk bytes f of Inl e \<Rightarrow> Inl e | Inr s \<Rightarrow>
     (case peek_all pk bytes fs of Inl e \<Rightarrow> Inl e | Inr rest \<Rightarrow> Inr ((s, f) # rest)))"

definition numbered :: "packing \<Rightarrow> byte list \<Rightarrow> frame_ref list \<Rightarrow> codec_error + (nat \<times> frame_ref) list" where
  "numbered pk bytes frames =
     (if frames = [] then Inr []
      else case peek_seq pk bytes (hd frames) of Inl e \<Rightarrow> Inl e | Inr from \<Rightarrow>
        (case peek_seq pk bytes (last frames) of Inl e \<Rightarrow> Inl e | Inr to \<Rightarrow>
          if from \<le> to \<and> to - from = length frames - 1
          then Inr (zip [from..<from + length frames] frames)
          else peek_all pk bytes frames))"

text \<open>Each frame after the first goes into the index for its kind, in file order.\<close>

fun index_frames :: "packing \<Rightarrow> byte list \<Rightarrow> frame_ref list \<Rightarrow> run_reader \<Rightarrow> frame_ref list \<Rightarrow>
    codec_error + run_reader \<times> frame_ref list" where
  "index_frames pk bytes [] r deltas = Inr (r, deltas)"
| "index_frames pk bytes (f # fs) r deltas =
     (case f_kind f of
        CodeFrame \<Rightarrow>
          (case peek pk (take_digest pk) bytes f of
             Inl e \<Rightarrow> Inl e
           | Inr d \<Rightarrow> index_frames pk bytes fs (r\<lparr>rd_code := (rd_code r)(d \<mapsto> f)\<rparr>) deltas)
      | StateFrame \<Rightarrow>
          (case peek_seq pk bytes f of
             Inl e \<Rightarrow> Inl e
           | Inr s \<Rightarrow> index_frames pk bytes fs (r\<lparr>rd_states := rd_states r @ [(s, f)]\<rparr>) deltas)
      | DeltaFrame \<Rightarrow> index_frames pk bytes fs r (deltas @ [f])
      | OwnerFrame \<Rightarrow> index_frames pk bytes fs (r\<lparr>rd_owners := rd_owners r @ [f]\<rparr>) deltas
      | SpecFrame \<Rightarrow> Inl (Corrupt (f_offset f)))"

fun as_spec :: "payload \<Rightarrow> codec_error + run_spec" where
  "as_spec (PSpec s) = Inr s" | "as_spec _ = Inl (Decode [])"

fun as_state :: "payload \<Rightarrow> codec_error + run_state" where
  "as_state (PState s) = Inr s" | "as_state _ = Inl (Decode [])"

fun as_delta :: "payload \<Rightarrow> codec_error + state_delta" where
  "as_delta (PDelta d) = Inr d" | "as_delta _ = Inl (Decode [])"

fun as_code :: "payload \<Rightarrow> codec_error + code_frame" where
  "as_code (PCode c) = Inr c" | "as_code _ = Inl (Decode [])"

definition decode_as :: "(payload \<Rightarrow> codec_error + 'a) \<Rightarrow> packing \<Rightarrow> byte list \<Rightarrow> frame_ref \<Rightarrow> codec_error + 'a" where
  "decode_as view pk bytes f = (case decode_frame pk bytes f of Inl e \<Rightarrow> Inl e | Inr p \<Rightarrow> view p)"

definition read_file :: "packing \<Rightarrow> byte list \<Rightarrow> run_file_error + run_reader" where
  "read_file pk bytes =
     (case check_header bytes (fingerprint pk) of
        Inl e \<Rightarrow> Inl (CodecErr e)
      | Inr _ \<Rightarrow>
          let sc = scan pk bytes in
          (case damage (sc_stop sc) of
             Some e \<Rightarrow> Inl (CodecErr e)
           | None \<Rightarrow>
               let torn = length bytes - sc_end sc; kept_bytes = take (sc_end sc) bytes in
               (case sc_frames sc of
                  [] \<Rightarrow> Inl NoSpec
                | first # rest \<Rightarrow>
                    if f_kind first \<noteq> SpecFrame then Inl NoSpec
                    else case decode_as as_spec pk kept_bytes first of
                      Inl e \<Rightarrow> Inl (CodecErr e)
                    | Inr spec \<Rightarrow>
                        (case index_frames pk kept_bytes rest
                             \<lparr>rd_bytes = kept_bytes, rd_spec = spec, rd_code = (\<lambda>_. None), rd_owners = [],
                              rd_states = [], rd_deltas = [], rd_torn = torn\<rparr> [] of
                           Inl e \<Rightarrow> Inl (CodecErr e)
                         | Inr (r, deltas) \<Rightarrow>
                             (case numbered pk kept_bytes deltas of
                                Inl e \<Rightarrow> Inl (CodecErr e)
                              | Inr ds \<Rightarrow> Inr (r\<lparr>rd_deltas := ds\<rparr>))))))"

definition last_seq :: "run_reader \<Rightarrow> nat" where
  "last_seq r = max (if rd_deltas r = [] then 0 else fst (last (rd_deltas r)))
                    (if rd_states r = [] then 0 else fst (last (rd_states r)))"

definition last_checkpoint :: "run_reader \<Rightarrow> nat \<times> nat" where
  "last_checkpoint r = (if rd_states r = [] then (0, 0)
     else (fst (last (rd_states r)), f_len (snd (last (rd_states r))) + FRAME_OVERHEAD))"

fun replay_deltas :: "packing \<Rightarrow> byte list \<Rightarrow> frame_ref list \<Rightarrow> run_state \<Rightarrow> run_file_error + run_state" where
  "replay_deltas pk bytes [] s = Inr s"
| "replay_deltas pk bytes (f # fs) s =
     (case decode_as as_delta pk bytes f of
        Inl e \<Rightarrow> Inl (CodecErr e)
      | Inr d \<Rightarrow> if d_seq d \<noteq> s_seq s + 1 then Inl (SeqGap (s_seq s + 1) (d_seq d))
                else replay_deltas pk bytes fs (delta_apply d s))"

definition state_at :: "packing \<Rightarrow> run_reader \<Rightarrow> nat \<Rightarrow> run_file_error + run_state" where
  "state_at pk r seq =
     (let last' = last_seq r in
      if last' < seq then Inl (NoSuchStep seq last')
      else case List.find (\<lambda>(s, _). s \<le> seq) (rev (rd_states r)) of
        None \<Rightarrow> Inl NoState
      | Some (_, base) \<Rightarrow>
          (case decode_as as_state pk (rd_bytes r) base of
             Inl e \<Rightarrow> Inl (CodecErr e)
           | Inr state \<Rightarrow>
               replay_deltas pk (rd_bytes r)
                 (map snd (filter (\<lambda>(s, _). s_seq state < s \<and> s \<le> seq) (rd_deltas r))) state))"

definition latest_state :: "packing \<Rightarrow> run_reader \<Rightarrow> run_file_error + run_state" where
  "latest_state pk r = state_at pk r (last_seq r)"

fun code_lookup :: "packing \<Rightarrow> run_reader \<Rightarrow> string \<Rightarrow> run_file_error + byte list option" where
  "code_lookup pk r digest =
     (case rd_code r digest of
        None \<Rightarrow> Inr None
      | Some f \<Rightarrow> (case decode_as as_code pk (rd_bytes r) f of
                   Inl e \<Rightarrow> Inl (CodecErr e) | Inr c \<Rightarrow> Inr (Some (cf_bytes c))))"

fun code_files :: "packing \<Rightarrow> run_reader \<Rightarrow> (string \<times> string) list \<Rightarrow> (string \<Rightarrow> byte list option) \<Rightarrow>
    run_file_error + (string \<Rightarrow> byte list option)" where
  "code_files pk r [] out = Inr out"
| "code_files pk r ((_, digest) # rest) out =
     (case code_lookup pk r digest of
        Inl e \<Rightarrow> Inl e
      | Inr None \<Rightarrow> Inl (MissingCode digest)
      | Inr (Some bytes) \<Rightarrow> code_files pk r rest (out(digest \<mapsto> bytes)))"

definition deltas_between :: "packing \<Rightarrow> run_reader \<Rightarrow> nat \<Rightarrow> nat \<Rightarrow> (codec_error + state_delta) list" where
  "deltas_between pk r from to =
     map (\<lambda>(_, f). decode_as as_delta pk (rd_bytes r) f)
       (filter (\<lambda>(s, _). from \<le> s \<and> s \<le> to) (rd_deltas r))"

end
