(* ===== verification/Run_Log.thy ===== *)
theory Run_Log
  imports Run_Reader
begin

text \<open>
  What a run file holds, as the payloads of its frames: the logs a writer can produce, the
  states such a log goes through, and what a reader makes of the bytes.
\<close>

subsection \<open>Payloads and their frames\<close>

text \<open>
  What the code relies on from \<open>zstd\<close> and \<open>postcard\<close> for the payloads it writes: a
  compressed body holds what was compressed and claims its size if any; a payload's bytes
  decode to it at its kind; a state and a delta start with their step and code with its
  digest; and none is larger than a frame can say or a decode may hold.
\<close>

definition zstd_law :: "packing \<Rightarrow> bool" where
  "zstd_law pk \<longleftrightarrow> (\<forall>raw n. zstd_read pk n (zstd_compress pk raw) = Inr (take n raw) \<and>
     (zstd_size pk (zstd_compress pk raw) = None \<or>
      zstd_size pk (zstd_compress pk raw) = Some (length raw)))"

definition raw_of :: "packing \<Rightarrow> payload \<Rightarrow> byte list" where
  "raw_of pk p = (case to_stdvec pk p of Inr raw \<Rightarrow> raw | Inl _ \<Rightarrow> [])"

definition leading_law :: "packing \<Rightarrow> payload \<Rightarrow> bool" where
  "leading_law pk p =
     (case p of
        PState s \<Rightarrow> take_seq pk (take PEEK_BYTES (raw_of pk p)) = Inr (s_seq s)
      | PDelta d \<Rightarrow> take_seq pk (take PEEK_BYTES (raw_of pk p)) = Inr (d_seq d)
      | PCode c \<Rightarrow> take_digest pk (take PEEK_BYTES (raw_of pk p)) = Inr (cf_digest c)
      | _ \<Rightarrow> True)"

definition framed :: "packing \<Rightarrow> payload \<Rightarrow> frame" where
  "framed pk p = (payload_kind p, zstd_compress pk (raw_of pk p))"

definition payload_ok :: "packing \<Rightarrow> payload \<Rightarrow> bool" where
  "payload_ok pk p \<longleftrightarrow>
     to_stdvec pk p = Inr (raw_of pk p) \<and> from_bytes pk (payload_kind p) (raw_of pk p) = Inr p \<and>
     leading_law pk p \<and> length (raw_of pk p) \<le> MAX_PAYLOAD \<and> length (snd (framed pk p)) < 2 ^ 32"

definition packing_ok :: "packing \<Rightarrow> payload list \<Rightarrow> bool" where
  "packing_ok pk ps \<longleftrightarrow> zstd_law pk \<and> length (fingerprint pk) = 32 \<and> list_all (payload_ok pk) ps"

definition log_bytes :: "packing \<Rightarrow> payload list \<Rightarrow> byte list" where
  "log_bytes pk ps = header (fingerprint pk) @ frames_bytes pk (map (framed pk) ps)"

lemma packing_ok_simps [simp]:
  "packing_ok pk (ps @ qs) \<longleftrightarrow> packing_ok pk ps \<and> packing_ok pk qs"
  "packing_ok pk (p # ps) \<longleftrightarrow> payload_ok pk p \<and> packing_ok pk ps"
  by (auto simp: packing_ok_def)

lemma encode_ok:
  assumes "payload_ok pk p"
  shows "encode pk p = Inr (frame_bytes pk (fst (framed pk p)) (snd (framed pk p)))"
  using assms
  by (auto simp: payload_ok_def encode_def frame_of_def framed_def u32_max_def Let_def)

lemma framed_fits: "packing_ok pk ps \<Longrightarrow> fits (map (framed pk) ps)"
  by (induction ps) (auto simp: payload_ok_def framed_def)

lemma header_length: "length (fingerprint pk) = 32 \<Longrightarrow> length (header (fingerprint pk)) = HEADER_LEN"
  by (simp add: header_def MAGIC_def HEADER_LEN_def)

lemma log_bytes_append: "log_bytes pk (ps @ qs) = log_bytes pk ps @ frames_bytes pk (map (framed pk) qs)"
  by (simp add: log_bytes_def)

lemma header_checks:
  assumes "length (fingerprint pk) = 32"
  shows "check_header (header (fingerprint pk) @ rest) (fingerprint pk) = Inr ()"
  using assms by (simp add: check_header_def header_def MAGIC_def HEADER_LEN_def Let_def)

subsection \<open>Reading one frame back\<close>

text \<open>The frame of a payload, at its place in a file.\<close>

definition ref_at :: "packing \<Rightarrow> nat \<Rightarrow> payload \<Rightarrow> frame_ref" where
  "ref_at pk i p = \<lparr>f_kind = payload_kind p, f_offset = i, f_body = i + 5, f_len = length (snd (framed pk p))\<rparr>"

definition holds_at :: "packing \<Rightarrow> byte list \<Rightarrow> payload \<Rightarrow> frame_ref \<Rightarrow> bool" where
  "holds_at pk bytes p f \<longleftrightarrow>
     f_kind f = payload_kind p \<and> get_range (f_body f) (f_body f + f_len f) bytes = Some (snd (framed pk p))"

lemma holds_frame:
  "holds_at pk (xs @ frame_bytes pk (fst (framed pk p)) (snd (framed pk p)) @ zs) p (ref_at pk (length xs) p)"
proof -
  let ?b = "snd (framed pk p)" and ?k = "fst (framed pk p)"
  have "frame_bytes pk ?k ?b = (kind_byte ?k # le32 (of_nat (length ?b))) @ ?b @
      le32 (crc32 pk (kind_byte ?k # ?b)) @ le32 (of_nat (length ?b))" by (simp add: frame_bytes_def)
  with get_range_mid [of "xs @ kind_byte ?k # le32 (of_nat (length ?b))" ?b]
  show ?thesis by (simp add: holds_at_def ref_at_def)
qed

lemma decode_holds:
  assumes "holds_at pk bytes p f" and "payload_ok pk p" and "zstd_law pk"
  shows "decode_frame pk bytes f = Inr p"
proof -
  have "zstd_size pk (snd (framed pk p)) = None \<or>
      zstd_size pk (snd (framed pk p)) = Some (length (raw_of pk p))"
    and "zstd_read pk (MAX_PAYLOAD + 1) (snd (framed pk p)) = Inr (take (MAX_PAYLOAD + 1) (raw_of pk p))"
    using assms(3) unfolding zstd_law_def framed_def by auto
  with assms show ?thesis
    by (auto simp: holds_at_def decode_frame_def decompress_within_def payload_ok_def)
qed

lemma peek_holds:
  assumes "holds_at pk bytes p f" and "zstd_law pk"
  shows "peek pk v bytes f =
    (case v (take PEEK_BYTES (raw_of pk p)) of Inl e \<Rightarrow> Inl (Decode e) | Inr x \<Rightarrow> Inr x)"
  using assms by (simp add: holds_at_def peek_def zstd_law_def framed_def)

fun refs_of :: "packing \<Rightarrow> nat \<Rightarrow> payload list \<Rightarrow> frame_ref list" where
  "refs_of pk i [] = []"
| "refs_of pk i (p # ps) = ref_at pk i p # refs_of pk (i + length (snd (framed pk p)) + FRAME_OVERHEAD) ps"

lemma refs_of_from: "refs_of pk i ps = refs_from i (map (framed pk) ps)"
  by (induction pk i ps rule: refs_of.induct) (auto simp: ref_at_def framed_def)

lemma holds_all:
  "list_all2 (holds_at pk (xs @ frames_bytes pk (map (framed pk) ps) @ zs)) ps (refs_of pk (length xs) ps)"
proof (induction ps arbitrary: xs)
  case (Cons p ps)
  let ?F = "frame_bytes pk (fst (framed pk p)) (snd (framed pk p))"
  have F: "frames_bytes pk (map (framed pk) (p # ps)) = ?F @ frames_bytes pk (map (framed pk) ps)"
    by (cases "framed pk p") simp
  have "holds_at pk (xs @ ?F @ frames_bytes pk (map (framed pk) ps) @ zs) p (ref_at pk (length xs) p)"
    by (rule holds_frame)
  with Cons.IH [of "xs @ ?F"] show ?case unfolding F by (simp add: add.assoc)
qed simp

lemma scan_log:
  assumes "packing_ok pk ps"
  shows "scan pk (log_bytes pk ps) =
    \<lparr>sc_frames = refs_of pk HEADER_LEN ps, sc_end = length (log_bytes pk ps), sc_stop = StopEnd\<rparr>"
proof -
  have fp: "length (header (fingerprint pk)) = HEADER_LEN"
    using assms by (simp add: packing_ok_def header_length)
  then have "min HEADER_LEN (length (log_bytes pk ps)) = length (header (fingerprint pk))"
    by (simp add: log_bytes_def)
  with scan_frames_from [OF framed_fits [OF assms], of pk "header (fingerprint pk)"] fp
  show ?thesis by (simp add: scan_def log_bytes_def refs_of_from)
qed

subsection \<open>Logs\<close>

fun delta_of :: "payload \<Rightarrow> state_delta option" where
  "delta_of (PDelta d) = Some d" | "delta_of _ = None"

fun state_of :: "payload \<Rightarrow> run_state option" where
  "state_of (PState s) = Some s" | "state_of _ = None"

abbreviation deltas_of :: "payload list \<Rightarrow> state_delta list" where
  "deltas_of \<equiv> List.map_filter delta_of"

abbreviation states_of :: "payload list \<Rightarrow> run_state list" where
  "states_of \<equiv> List.map_filter state_of"

text \<open>
  The logs of a run and the states each went through: a spec, its code and a first state;
  then owners, steps, and checkpoints of the state the log has reached.
\<close>

inductive run_log :: "run_spec \<Rightarrow> payload list \<Rightarrow> run_state list \<Rightarrow> bool" for sp where
  log_start: "run_log sp (PSpec sp # map PCode cs @ [PState s]) [s]"
| log_owner: "run_log sp ps h \<Longrightarrow> run_log sp (ps @ [POwner ow]) h"
| log_step: "run_log sp ps h \<Longrightarrow> d_seq d = s_seq (last h) + 1 \<Longrightarrow>
    run_log sp (ps @ [PDelta d]) (h @ [delta_apply d (last h)])"
| log_checkpoint: "run_log sp ps h \<Longrightarrow> run_log sp (ps @ [PState (last h)]) h"

lemma filter_code [simp]: "deltas_of (map PCode cs) = []" "states_of (map PCode cs) = []"
  by (induction cs) (simp_all add: map_filter_simps)

lemma log_shape:
  "run_log sp ps h \<Longrightarrow> h \<noteq> [] \<and> (\<exists>qs. ps = PSpec sp # qs \<and> (\<forall>q \<in> set qs. payload_kind q \<noteq> SpecFrame)) \<and>
     length h = Suc (length (deltas_of ps)) \<and> states_of ps \<noteq> [] \<and> hd (states_of ps) = hd h"
  by (induction rule: run_log.induct) (auto simp: map_filter_simps List.map_filter_def)

lemma apply_seq [simp]: "s_seq (delta_apply d s) = d_seq d"
  by (simp add: delta_apply_def)

lemma log_seqs:
  "run_log sp ps h \<Longrightarrow> k < length h \<Longrightarrow> s_seq (h ! k) = s_seq (hd h) + k"
proof (induction arbitrary: k rule: run_log.induct)
  case (log_step ps h d)
  from log_shape [OF log_step.hyps(1)] have ne: "h \<noteq> []" by blast
  then have "s_seq (last h) = s_seq (hd h) + (length h - 1)"
    using log_step.IH [of "length h - 1"] by (simp add: last_conv_nth)
  then show ?case using log_step ne by (auto simp: nth_append less_Suc_eq)
qed auto

lemma log_deltas:
  "run_log sp ps h \<Longrightarrow> k < length (deltas_of ps) \<Longrightarrow>
   h ! Suc k = delta_apply (deltas_of ps ! k) (h ! k) \<and> d_seq (deltas_of ps ! k) = s_seq (hd h) + Suc k"
proof (induction arbitrary: k rule: run_log.induct)
  case (log_step ps h d)
  from log_shape [OF log_step.hyps(1)] have len: "length h = Suc (length (deltas_of ps))" by blast
  then have ne: "h \<noteq> []" by auto
  with len have lasth: "last h = h ! length (deltas_of ps)" by (simp add: last_conv_nth)
  have "s_seq (last h) = s_seq (hd h) + length (deltas_of ps)"
    using log_seqs [OF log_step.hyps(1), of "length (deltas_of ps)"] len lasth by simp
  then have d: "d_seq d = s_seq (hd h) + Suc (length (deltas_of ps))" using log_step.hyps(2) by simp
  have ds: "deltas_of (ps @ [PDelta d]) = deltas_of ps @ [d]" by (simp add: List.map_filter_def)
  show ?case
  proof (cases "k < length (deltas_of ps)")
    case True
    with log_step.IH [OF this] len ne show ?thesis by (simp add: ds nth_append)
  next
    case False
    then have "k = length (deltas_of ps)" using log_step.prems ds by simp
    with d len lasth ne show ?thesis by (simp add: ds nth_append)
  qed
qed (auto simp: List.map_filter_def)

lemma log_states:
  "run_log sp ps h \<Longrightarrow> s \<in> set (states_of ps) \<Longrightarrow> \<exists>j < length h. s = h ! j"
proof (induction arbitrary: s rule: run_log.induct)
  case (log_step ps h d)
  then show ?case by (auto simp: List.map_filter_def nth_append intro: less_SucI)
next
  case (log_checkpoint ps h)
  then have "h \<noteq> []" using log_shape by blast
  with log_checkpoint show ?case
    by (auto simp: List.map_filter_def last_conv_nth intro: exI [of _ "length h - 1"])
qed (auto simp: List.map_filter_def map_filter_simps)

text \<open>A log cut after its first state is a log, of the states up to there.\<close>

lemma log_prefix:
  "run_log sp (ps @ qs) h \<Longrightarrow> states_of ps \<noteq> [] \<Longrightarrow> run_log sp ps (take (Suc (length (deltas_of ps))) h)"
proof (induction "ps @ qs" h arbitrary: qs rule: run_log.induct)
  case (log_start cs s)
  then show ?case
  proof (cases qs rule: rev_cases)
    case Nil
    with log_start show ?thesis by (auto simp: List.map_filter_def map_filter_simps intro: run_log.log_start)
  next
    case (snoc qs' q)
    with log_start have "ps @ qs' = PSpec sp # map PCode cs" by (metis append_Cons append_assoc butlast_snoc)
    then have "states_of (ps @ qs') = []" by (simp add: map_filter_simps)
    with log_start.prems show ?thesis by (simp add: List.map_filter_def)
  qed
next
  case (log_owner ps' h ow)
  show ?case
  proof (cases qs rule: rev_cases)
    case Nil
    with log_owner log_shape [OF run_log.log_owner [OF log_owner.hyps(1)]] show ?thesis
      by (metis append_Nil2 log_shape order_refl run_log.log_owner take_all)
  next
    case (snoc qs' q)
    with log_owner show ?thesis by auto
  qed
next
  case (log_step ps' h d)
  have new: "run_log sp (ps' @ [PDelta d]) (h @ [delta_apply d (last h)])"
    using log_step.hyps(1,3) by (rule run_log.log_step)
  show ?case
  proof (cases qs rule: rev_cases)
    case Nil
    with log_step.hyps(4) new log_shape [OF new] show ?thesis by (metis append_Nil2 order_refl take_all)
  next
    case (snoc qs' q)
    with log_step.hyps(4) have ps': "ps' = ps @ qs'" by auto
    from log_shape [OF log_step.hyps(1)] have "length h = Suc (length (deltas_of ps'))" by blast
    then have "Suc (length (deltas_of ps)) \<le> length h" by (simp add: ps' List.map_filter_def)
    with log_step.hyps(2) [OF ps' log_step.prems] show ?thesis by simp
  qed
next
  case (log_checkpoint ps' h)
  have new: "run_log sp (ps' @ [PState (last h)]) h"
    using log_checkpoint.hyps(1) by (rule run_log.log_checkpoint)
  show ?case
  proof (cases qs rule: rev_cases)
    case Nil
    with log_checkpoint.hyps(3) new log_shape [OF new] show ?thesis by (metis append_Nil2 order_refl take_all)
  next
    case (snoc qs' q)
    with log_checkpoint show ?thesis by auto
  qed
qed

end
