(* ===== verification/Run_Read.thy ===== *)
theory Run_Read
  imports Run_Log
begin

text \<open>
  What a reader makes of a log's bytes: its index of the states and the steps, and the state
  at each of them.
\<close>

subsection \<open>The index\<close>

fun tagged_refs :: "(payload \<Rightarrow> 'a option) \<Rightarrow> payload list \<Rightarrow> frame_ref list \<Rightarrow> ('a \<times> frame_ref) list" where
  "tagged_refs view (p # ps) (f # fs) =
     (case view p of Some x \<Rightarrow> (x, f) # tagged_refs view ps fs | None \<Rightarrow> tagged_refs view ps fs)"
| "tagged_refs view _ _ = []"

lemma tagged_map_fst:
  "length ps = length fs \<Longrightarrow> map fst (tagged_refs view ps fs) = List.map_filter view ps"
  by (induction view ps fs rule: tagged_refs.induct) (auto simp: map_filter_simps split: option.splits)

text \<open>Each state or step of the index, with the frame that holds it.\<close>

lemma tagged_holds:
  "list_all2 (holds_at pk bytes) ps fs \<Longrightarrow> (x, f) \<in> set (tagged_refs view ps fs) \<Longrightarrow>
   \<exists>p \<in> set ps. view p = Some x \<and> holds_at pk bytes p f"
  by (induction view ps fs rule: tagged_refs.induct) (auto split: option.splits)

lemma delta_of_Some: "delta_of p = Some d \<longleftrightarrow> p = PDelta d" by (cases p) auto
lemma state_of_Some: "state_of p = Some s \<longleftrightarrow> p = PState s" by (cases p) auto

lemma index_log:
  assumes "list_all2 (holds_at pk bytes) ps fs" and "list_all (payload_ok pk) ps" and "zstd_law pk"
    and "\<forall>p \<in> set ps. payload_kind p \<noteq> SpecFrame"
  shows "\<exists>r'. index_frames pk bytes fs r deltas =
      Inr (r', deltas @ map snd (tagged_refs delta_of ps fs)) \<and>
    rd_bytes r' = rd_bytes r \<and> rd_spec r' = rd_spec r \<and> rd_torn r' = rd_torn r \<and>
    rd_states r' = rd_states r @ map (\<lambda>(s, f). (s_seq s, f)) (tagged_refs state_of ps fs)"
  using assms
proof (induction arbitrary: r deltas rule: list_all2_induct)
  case (Cons p ps f fs)
  have p: "holds_at pk bytes p f" "payload_ok pk p" "payload_kind p \<noteq> SpecFrame"
    using Cons.hyps Cons.prems by auto
  have IH: "\<exists>r'. index_frames pk bytes fs r deltas =
      Inr (r', deltas @ map snd (tagged_refs delta_of ps fs)) \<and>
    rd_bytes r' = rd_bytes r \<and> rd_spec r' = rd_spec r \<and> rd_torn r' = rd_torn r \<and>
    rd_states r' = rd_states r @ map (\<lambda>(s, f). (s_seq s, f)) (tagged_refs state_of ps fs)" for r deltas
    using Cons.IH Cons.prems by simp
  have kind: "f_kind f = payload_kind p" using p by (simp add: holds_at_def)
  note peeked = peek_holds [OF p(1) assms(3)]
  show ?case
  proof (cases p)
    case (PCode c)
    with p have "take_digest pk (take PEEK_BYTES (raw_of pk p)) = Inr (cf_digest c)"
      by (simp add: payload_ok_def leading_law_def)
    with IH [of "r\<lparr>rd_code := (rd_code r)(cf_digest c \<mapsto> f)\<rparr>" deltas] show ?thesis
      using peeked [of "take_digest pk"] by (auto simp: kind PCode)
  next
    case (PState s)
    with p have "take_seq pk (take PEEK_BYTES (raw_of pk p)) = Inr (s_seq s)"
      by (simp add: payload_ok_def leading_law_def)
    with IH [of "r\<lparr>rd_states := rd_states r @ [(s_seq s, f)]\<rparr>" deltas] show ?thesis
      using peeked [of "take_seq pk"] by (auto simp: kind PState)
  next
    case (PDelta d)
    with IH [of r "deltas @ [f]"] show ?thesis by (auto simp: kind)
  next
    case (POwner ow)
    with IH [of "r\<lparr>rd_owners := rd_owners r @ [f]\<rparr>" deltas] show ?thesis by (auto simp: kind)
  qed (use p in simp)
qed auto

text \<open>
  The steps of a log are numbered right, whether from their ends alone or one by one.
\<close>

lemma peek_delta:
  assumes "holds_at pk bytes (PDelta d) f" and "payload_ok pk (PDelta d)" and "zstd_law pk"
  shows "peek_seq pk bytes f = Inr (d_seq d)"
  using assms peek_holds [OF assms(1,3), of "take_seq pk"] by (simp add: payload_ok_def leading_law_def)

lemma peek_all_ok:
  "\<forall>(d, f) \<in> set dfs. peek_seq pk bytes f = Inr (d_seq d) \<Longrightarrow>
   peek_all pk bytes (map snd dfs) = Inr (map (\<lambda>(d, f). (d_seq d, f)) dfs)"
  by (induction dfs) auto

lemma numbered_steps:
  assumes "\<forall>(d, f) \<in> set dfs. peek_seq pk bytes f = Inr (d_seq d)"
    and "\<forall>k < length dfs. d_seq (fst (dfs ! k)) = b + Suc k"
  shows "numbered pk bytes (map snd dfs) = Inr (map (\<lambda>(d, f). (d_seq d, f)) dfs)"
proof (cases "dfs = []")
  case False
  have peeked: "peek_seq pk bytes (snd (dfs ! k)) = Inr (b + Suc k)" if "k < length dfs" for k
    using that assms nth_mem [OF that] by (auto simp: case_prod_beta)
  have "peek_seq pk bytes (snd (hd dfs)) = Inr (b + 1)"
    using peeked [of 0] False by (simp add: hd_conv_nth)
  moreover have "peek_seq pk bytes (snd (last dfs)) = Inr (b + length dfs)"
    using peeked [of "length dfs - 1"] False by (simp add: last_conv_nth)
  moreover have "zip [b + 1..<b + 1 + length dfs] (map snd dfs) = map (\<lambda>(d, f). (d_seq d, f)) dfs"
    using assms(2) by (intro nth_equalityI) (auto simp: case_prod_beta simp del: upt_Suc)
  moreover have "Suc 0 \<le> length dfs" using False by (cases dfs) auto
  ultimately show ?thesis using False by (simp add: numbered_def hd_map last_map del: upt_Suc)
qed (simp add: numbered_def)

subsection \<open>The states\<close>

lemma find_rev_last:
  "x \<in> set xs \<Longrightarrow> P x \<Longrightarrow> \<exists>y. List.find P (rev xs) = Some y \<and> y \<in> set xs \<and> P y"
proof -
  assume "x \<in> set xs" "P x"
  then obtain y where "List.find P (rev xs) = Some y"
    by (cases "List.find P (rev xs)") (auto simp: find_None_iff)
  moreover from this have "P y" "y \<in> set (rev xs)"
    using find_Some_iff [of P "rev xs" y] by (metis nth_mem)+
  ultimately show ?thesis by simp
qed

lemma replay_steps:
  assumes "\<forall>(d, f) \<in> set dfs. decode_as as_delta pk bytes f = Inr d"
    and "\<forall>k < length dfs. d_seq (fst (dfs ! k)) = s_seq s + Suc k"
  shows "replay_deltas pk bytes (map snd dfs) s = Inr (fold delta_apply (map fst dfs) s)"
  using assms
proof (induction dfs arbitrary: s)
  case (Cons df dfs)
  obtain d f where df: "df = (d, f)" by fastforce
  have d: "d_seq d = s_seq s + 1" using Cons.prems(2) df by force
  have "d_seq (fst (dfs ! k)) = s_seq (delta_apply d s) + Suc k" if "k < length dfs" for k
    using Cons.prems(2) [rule_format, of "Suc k"] that d by simp
  with Cons d df show ?case by simp
qed simp

text \<open>The steps after one state up to another, out of steps numbered in order.\<close>

lemma steps_between:
  assumes "\<forall>k < length dfs. d_seq (fst (dfs ! k)) = b + Suc k" and "k \<le> length dfs"
  shows "filter (\<lambda>(d, f). b + j < d_seq d \<and> d_seq d \<le> b + k) dfs = drop j (take k dfs)"
  using assms
proof (induction dfs arbitrary: k rule: rev_induct)
  case (snoc df dfs)
  have df: "d_seq (fst df) = b + Suc (length dfs)"
    using snoc.prems(1) [rule_format, of "length dfs"] by simp
  have pre: "\<forall>k < length dfs. d_seq (fst (dfs ! k)) = b + Suc k"
    using snoc.prems(1) by (metis length_append_singleton less_SucI nth_append)
  show ?case
  proof (cases "k \<le> length dfs")
    case True
    with snoc.IH [OF pre this] df show ?thesis by (cases df) auto
  next
    case False
    then have k: "k = Suc (length dfs)" using snoc.prems(2) by simp
    have "d_seq (fst x) \<le> b + length dfs" if "x \<in> set dfs" for x
      using that pre by (auto simp: in_set_conv_nth)
    then have "filter (\<lambda>(d, f). b + j < d_seq d \<and> d_seq d \<le> b + Suc (length dfs)) dfs =
        filter (\<lambda>(d, f). b + j < d_seq d \<and> d_seq d \<le> b + length dfs) dfs"
      by (intro filter_cong) (fastforce simp: case_prod_beta)+
    with snoc.IH [OF pre order_refl] df k show ?thesis by (cases df) auto
  qed
qed simp

lemma log_replay:
  assumes "run_log sp ps h" and "j \<le> k" and "k \<le> length (deltas_of ps)"
  shows "fold delta_apply (drop j (take k (deltas_of ps))) (h ! j) = h ! k"
  using assms(2,3)
proof (induction rule: dec_induct)
  case (step m)
  then have "drop j (take (Suc m) (deltas_of ps)) = drop j (take m (deltas_of ps)) @ [deltas_of ps ! m]"
    by (simp add: take_Suc_conv_app_nth)
  with step log_deltas [OF assms(1), of m] show ?case by simp
qed simp

subsection \<open>Reading a log\<close>

text \<open>
  The reader of a log: its spec, no torn tail, the last step, and at every step the state the
  log reached there.
\<close>

definition reads_as :: "packing \<Rightarrow> run_reader \<Rightarrow> run_spec \<Rightarrow> run_state list \<Rightarrow> bool" where
  "reads_as pk r sp h \<longleftrightarrow> rd_spec r = sp \<and> last_seq r = s_seq (last h) \<and>
     (\<forall>k < length h. state_at pk r (s_seq (hd h) + k) = Inr (h ! k))"

text \<open>Bytes that read as a log: the whole of its file, or that with a torn tail after it.\<close>

definition scans_as :: "packing \<Rightarrow> byte list \<Rightarrow> payload list \<Rightarrow> bool" where
  "scans_as pk bytes ps \<longleftrightarrow> check_header bytes (fingerprint pk) = Inr () \<and>
     (\<exists>why. scan pk bytes = \<lparr>sc_frames = refs_of pk HEADER_LEN ps,
        sc_end = length (log_bytes pk ps), sc_stop = why\<rparr> \<and> damage why = None) \<and>
     take (length (log_bytes pk ps)) bytes = log_bytes pk ps"

lemma scans_whole: "packing_ok pk ps \<Longrightarrow> scans_as pk (log_bytes pk ps) ps"
  using header_checks [of pk "frames_bytes pk (map (framed pk) ps)"] scan_log [of pk ps]
  by (simp add: scans_as_def damage_def packing_ok_def log_bytes_def)

lemma read_file_parts:
  assumes "check_header bytes (fingerprint pk) = Inr ()"
    and "scan pk bytes = \<lparr>sc_frames = f # fs, sc_end = e, sc_stop = why\<rparr>" and "damage why = None"
    and "f_kind f = SpecFrame" and "decode_as as_spec pk (take e bytes) f = Inr sp"
    and "index_frames pk (take e bytes) fs \<lparr>rd_bytes = take e bytes, rd_spec = sp, rd_code = (\<lambda>_. None),
      rd_owners = [], rd_states = [], rd_deltas = [], rd_torn = length bytes - e\<rparr> [] = Inr (r, deltas)"
    and "numbered pk (take e bytes) deltas = Inr ds"
  shows "read_file pk bytes = Inr (r\<lparr>rd_deltas := ds\<rparr>)"
  using assms by (simp add: read_file_def Let_def)

lemma log_index:
  assumes "run_log sp ps h" and "packing_ok pk ps" and scans: "scans_as pk bytes ps"
  shows "\<exists>r sfs dfs. read_file pk bytes = Inr r \<and> rd_spec r = sp \<and>
     rd_torn r = length bytes - length (log_bytes pk ps) \<and>
     rd_bytes r = log_bytes pk ps \<and>
     rd_states r = map (\<lambda>(s, f). (s_seq s, f)) sfs \<and> map fst sfs = states_of ps \<and>
     (\<forall>(s, f) \<in> set sfs. decode_as as_state pk (rd_bytes r) f = Inr s) \<and>
     rd_deltas r = map (\<lambda>(d, f). (d_seq d, f)) dfs \<and> map fst dfs = deltas_of ps \<and>
     (\<forall>(d, f) \<in> set dfs. decode_as as_delta pk (rd_bytes r) f = Inr d)"
proof -
  let ?B = "log_bytes pk ps"
  have zl: "zstd_law pk" and fp: "length (fingerprint pk) = 32"
    using assms(2) by (simp_all add: packing_ok_def)
  obtain qs where ps: "ps = PSpec sp # qs" and qs: "\<forall>q \<in> set qs. payload_kind q \<noteq> SpecFrame"
    using log_shape [OF assms(1)] by blast
  have oks: "payload_ok pk (PSpec sp)" "list_all (payload_ok pk) qs"
    using assms(2) by (simp_all add: ps packing_ok_def)
  have "list_all2 (holds_at pk ?B) ps (refs_of pk HEADER_LEN ps)"
    using holds_all [of pk "header (fingerprint pk)" ps "[]"] header_length [OF fp]
    by (simp add: log_bytes_def)
  then obtain f fs where refs: "refs_of pk HEADER_LEN ps = f # fs" and f: "holds_at pk ?B (PSpec sp) f"
    and fs: "list_all2 (holds_at pk ?B) qs fs" by (auto simp: ps)
  have dec: "decode_frame pk ?B g = Inr p" if "holds_at pk ?B p g" "p \<in> set ps" for p g
    using that assms(2) zl by (auto simp: packing_ok_def list_all_iff intro: decode_holds)
  let ?r0 = "\<lparr>rd_bytes = ?B, rd_spec = sp, rd_code = (\<lambda>_. None), rd_owners = [], rd_states = [],
      rd_deltas = [], rd_torn = length bytes - length ?B\<rparr>"
  define sfs where "sfs = tagged_refs state_of qs fs"
  define dfs where "dfs = tagged_refs delta_of qs fs"
  obtain r' where idx: "index_frames pk ?B fs ?r0 [] = Inr (r', map snd dfs)"
    and r': "rd_bytes r' = ?B" "rd_spec r' = sp" "rd_torn r' = length bytes - length ?B"
      "rd_states r' = map (\<lambda>(s, f). (s_seq s, f)) sfs"
    using index_log [OF fs oks(2) zl qs, of ?r0 "[]"] by (auto simp: sfs_def dfs_def)
  have len: "length qs = length fs" using fs by (simp add: list_all2_lengthD)
  have names: "map fst sfs = states_of ps" "map fst dfs = deltas_of ps"
    using tagged_map_fst [OF len] by (simp_all add: sfs_def dfs_def ps map_filter_simps)
  have held: "\<exists>p \<in> set ps. view p = Some x \<and> holds_at pk ?B p g" if "(x, g) \<in> set (tagged_refs view qs fs)" for view x g
    using tagged_holds [OF fs that] by (auto simp: ps)
  have decs: "\<forall>(s, g) \<in> set sfs. decode_as as_state pk ?B g = Inr s"
    using held dec unfolding sfs_def by (fastforce simp: state_of_Some decode_as_def)
  have decd: "\<forall>(d, g) \<in> set dfs. decode_as as_delta pk ?B g = Inr d"
    using held dec unfolding dfs_def by (fastforce simp: delta_of_Some decode_as_def)
  have peeks: "\<forall>(d, g) \<in> set dfs. peek_seq pk ?B g = Inr (d_seq d)"
  proof clarify
    fix d g assume "(d, g) \<in> set dfs"
    from tagged_holds [OF fs this [unfolded dfs_def]] obtain p where
      "p \<in> set qs" "delta_of p = Some d" "holds_at pk ?B p g" by blast
    with oks(2) zl show "peek_seq pk ?B g = Inr (d_seq d)"
      by (intro peek_delta) (auto simp: delta_of_Some list_all_iff)
  qed
  have "\<forall>k < length dfs. d_seq (fst (dfs ! k)) = s_seq (hd h) + Suc k"
  proof (intro allI impI)
    fix k assume k: "k < length dfs"
    then have "fst (dfs ! k) = deltas_of ps ! k" "k < length (deltas_of ps)"
      by (simp_all flip: names(2))
    with log_deltas [OF assms(1)] show "d_seq (fst (dfs ! k)) = s_seq (hd h) + Suc k" by simp
  qed
  from numbered_steps [OF peeks this]
  have num: "numbered pk ?B (map snd dfs) = Inr (map (\<lambda>(d, f). (d_seq d, f)) dfs)" .
  obtain why where scan: "check_header bytes (fingerprint pk) = Inr ()"
      "scan pk bytes = \<lparr>sc_frames = f # fs, sc_end = length ?B, sc_stop = why\<rparr>" "damage why = None"
    and kept: "take (length ?B) bytes = ?B"
    using scans by (auto simp: scans_as_def refs)
  have "f_kind f = SpecFrame" and "decode_as as_spec pk (take (length ?B) bytes) f = Inr sp"
    unfolding kept using f dec [OF f] by (simp_all add: holds_at_def ps decode_as_def)
  from read_file_parts [OF scan this] idx num
  have "read_file pk bytes = Inr (r'\<lparr>rd_deltas := map (\<lambda>(d, f). (d_seq d, f)) dfs\<rparr>)"
    by (simp add: kept)
  then show ?thesis
    using r' names decs decd
    by (intro exI [of _ "r'\<lparr>rd_deltas := map (\<lambda>(d, f). (d_seq d, f)) dfs\<rparr>"] exI [of _ sfs] exI [of _ dfs])
      simp
qed

lemma log_read:
  assumes "run_log sp ps h" and "packing_ok pk ps" and "scans_as pk bytes ps"
  shows "\<exists>r. read_file pk bytes = Inr r \<and> rd_torn r = length bytes - length (log_bytes pk ps) \<and>
     rd_bytes r = log_bytes pk ps \<and> reads_as pk r sp h"
proof -
  let ?b = "s_seq (hd h)"
  from log_index [OF assms] obtain r sfs dfs where
    r: "read_file pk bytes = Inr r" "rd_spec r = sp"
      "rd_torn r = length bytes - length (log_bytes pk ps)" "rd_bytes r = log_bytes pk ps"
    and st: "rd_states r = map (\<lambda>(s, f). (s_seq s, f)) sfs" "map fst sfs = states_of ps"
      "\<forall>(s, f) \<in> set sfs. decode_as as_state pk (rd_bytes r) f = Inr s"
    and dl: "rd_deltas r = map (\<lambda>(d, f). (d_seq d, f)) dfs" "map fst dfs = deltas_of ps"
      "\<forall>(d, f) \<in> set dfs. decode_as as_delta pk (rd_bytes r) f = Inr d"
    by blast
  from log_shape [OF assms(1)] have ne: "h \<noteq> []" and len: "length h = Suc (length (deltas_of ps))"
    and sts: "states_of ps \<noteq> []" "hd (states_of ps) = hd h" by auto
  have lenD: "length dfs = length (deltas_of ps)" by (metis dl(2) length_map)
  have seqD: "\<forall>k < length dfs. d_seq (fst (dfs ! k)) = ?b + Suc k"
    using log_deltas [OF assms(1)] lenD by (metis dl(2) nth_map)
  have lasth: "s_seq (last h) = ?b + length dfs"
    using log_seqs [OF assms(1), of "length dfs"] len lenD ne by (simp add: last_conv_nth)
  have stj: "\<exists>j < length h. s = h ! j \<and> s_seq s = ?b + j" if "(s, f) \<in> set sfs" for s f
    using that log_states [OF assms(1), of s] log_seqs [OF assms(1)] st(2)
    by (metis fst_conv image_eqI list.set_map)
  have sne: "sfs \<noteq> []" using sts(1) st(2) by auto
  have "fst (last (rd_states r)) \<le> ?b + length dfs"
    using stj [of "fst (last sfs)" "snd (last sfs)"] sne len lenD
    by (auto simp: st(1) last_map case_prod_beta)
  moreover have "?b \<le> fst (last (rd_states r))"
    using stj [of "fst (last sfs)" "snd (last sfs)"] sne by (auto simp: st(1) last_map case_prod_beta)
  moreover have "dfs \<noteq> [] \<Longrightarrow> fst (last (rd_deltas r)) = ?b + length dfs"
    using seqD by (simp add: dl(1) last_map case_prod_beta last_conv_nth)
  ultimately have last: "last_seq r = ?b + length dfs"
    using sne by (cases "dfs = []") (auto simp: last_seq_def st(1) dl(1))
  have "state_at pk r (?b + k) = Inr (h ! k)" if k: "k < length h" for k
  proof -
    let ?P = "\<lambda>(s, f :: frame_ref). s \<le> ?b + k"
    have "(s_seq (hd h), snd (hd sfs)) \<in> set (rd_states r)"
    proof -
      have "fst (hd sfs) = hd h" using sne sts(2) st(2) by (metis hd_map)
      then have "(\<lambda>(s, f). (s_seq s, f)) (hd sfs) = (s_seq (hd h), snd (hd sfs))"
        by (simp add: case_prod_beta)
      then show ?thesis using sne by (metis hd_in_set image_eqI list.set_map st(1))
    qed
    from find_rev_last [OF this, of ?P] obtain y where
      y: "List.find ?P (rev (rd_states r)) = Some y" "y \<in> set (rd_states r)" "?P y" by auto
    then obtain s f where sf: "(s, f) \<in> set sfs" "y = (s_seq s, f)" "s_seq s \<le> ?b + k"
      by (auto simp: st(1))
    with stj obtain j where j: "s = h ! j" "s_seq s = ?b + j" "j \<le> k" by (metis nat_add_left_cancel_le)
    have base: "decode_as as_state pk (rd_bytes r) f = Inr s" using st(3) sf(1) by auto
    have kD: "k \<le> length dfs" using k len lenD by simp
    let ?mid = "drop j (take k dfs)"
    have "map snd (filter (\<lambda>(s', _). s_seq s < s' \<and> s' \<le> ?b + k) (rd_deltas r)) =
        map snd (filter (\<lambda>(d, f). ?b + j < d_seq d \<and> d_seq d \<le> ?b + k) dfs)"
      by (simp add: dl(1) filter_map comp_def case_prod_unfold j(2))
    also have "\<dots> = map snd ?mid" by (simp only: steps_between [OF seqD kD])
    finally have steps: "map snd (filter (\<lambda>(s', _). s_seq s < s' \<and> s' \<le> ?b + k) (rd_deltas r)) = map snd ?mid" .
    have "replay_deltas pk (rd_bytes r) (map snd ?mid) s = Inr (fold delta_apply (map fst ?mid) s)"
    proof (rule replay_steps)
      show "\<forall>(d, f) \<in> set ?mid. decode_as as_delta pk (rd_bytes r) f = Inr d"
        using dl(3) by (auto dest!: in_set_dropD in_set_takeD)
      show "\<forall>i < length ?mid. d_seq (fst (?mid ! i)) = s_seq s + Suc i"
        using seqD kD by (simp add: j(2))
    qed
    moreover have "fold delta_apply (map fst ?mid) s = h ! k"
      using log_replay [OF assms(1) j(3)] kD lenD dl(2) by (simp add: j(1) flip: drop_map take_map)
    ultimately have "replay_deltas pk (rd_bytes r) (map snd ?mid) s = Inr (h ! k)" by simp
    then show ?thesis
      using y(1) base steps kD sf(2) by (simp add: state_at_def last Let_def)
  qed
  with r last lasth show ?thesis by (auto simp: reads_as_def)
qed

end
