(* ===== verification/Run_Writer.thy ===== *)
theory Run_Writer
  imports Run_Read
begin

text \<open>
  Writing a run file, \<open>crates/leviath-runtime/src/runfile/writer.rs\<close>: the writer, the bytes
  of the file it holds open, and how each write to the disk came out. A payload that does not
  encode, where the code panics, is the error \<open>EncodePanic\<close>.
\<close>

record checkpoint_policy =
  cp_every :: nat
  cp_size_ratio :: rat

definition default_policy :: checkpoint_policy where
  "default_policy = \<lparr>cp_every = 64, cp_size_ratio = 2\<rparr>"

record run_writer =
  wr_file :: "byte list"
  wr_len :: nat
  wr_state :: run_state
  wr_policy :: checkpoint_policy
  wr_since :: nat
  wr_delta_bytes :: nat
  wr_checkpoint_bytes :: nat
  wr_owner :: "owner_frame option"

text \<open>
  How a write came out: all of it is in the file, or it failed after so many of its bytes,
  and cutting those off again worked or did not.
\<close>

datatype disk = Wrote | Failed nat bool string

definition frame_for :: "packing \<Rightarrow> payload \<Rightarrow> run_file_error + byte list" where
  "frame_for pk p = (case encode pk p of Inl _ \<Rightarrow> Inl EncodePanic | Inr bs \<Rightarrow> Inr bs)"

fun frames_for :: "packing \<Rightarrow> payload list \<Rightarrow> run_file_error + byte list" where
  "frames_for pk [] = Inr []"
| "frames_for pk (p # ps) =
     (case frame_for pk p of Inl e \<Rightarrow> Inl e | Inr b \<Rightarrow>
     (case frames_for pk ps of Inl e \<Rightarrow> Inl e | Inr bs \<Rightarrow> Inr (b @ bs)))"

definition create :: "packing \<Rightarrow> string option \<Rightarrow> run_spec \<Rightarrow> code_frame list \<Rightarrow> run_state \<Rightarrow>
    checkpoint_policy \<Rightarrow> run_file_error + run_writer" where
  "create pk write_error spec code initial policy =
     (case frames_for pk (PSpec spec # map PCode code) of Inl e \<Rightarrow> Inl e | Inr front \<Rightarrow>
     (case frame_for pk (PState initial) of Inl e \<Rightarrow> Inl e | Inr state \<Rightarrow>
        let buf = header (fingerprint pk) @ front @ state in
        (case write_error of
           Some e \<Rightarrow> Inl (IoError e)
         | None \<Rightarrow> Inr \<lparr>wr_file = buf, wr_len = length buf, wr_state = initial, wr_policy = policy,
              wr_since = 0, wr_delta_bytes = 0, wr_checkpoint_bytes = length state, wr_owner = None\<rparr>)))"

definition open_writer :: "packing \<Rightarrow> string option \<Rightarrow> string option \<Rightarrow> byte list \<Rightarrow> checkpoint_policy \<Rightarrow>
    byte list \<times> (run_file_error + run_writer)" where
  "open_writer pk cut_error open_error bytes policy =
     (case read_file pk bytes of
        Inl e \<Rightarrow> (bytes, Inl e)
      | Inr r \<Rightarrow>
          (case latest_state pk r of
             Inl e \<Rightarrow> (bytes, Inl e)
           | Inr state \<Rightarrow>
               if 0 < rd_torn r \<and> cut_error \<noteq> None then (bytes, Inl (IoError (the cut_error)))
               else let file = (if 0 < rd_torn r then take (length (rd_bytes r)) bytes else bytes) in
                 (case open_error of
                    Some e \<Rightarrow> (file, Inl (IoError e))
                  | None \<Rightarrow> (file, Inr \<lparr>wr_file = file, wr_len = length (rd_bytes r), wr_state = state,
                       wr_policy = policy, wr_since = u32 (s_seq state - fst (last_checkpoint r)),
                       wr_delta_bytes = 0, wr_checkpoint_bytes = snd (last_checkpoint r),
                       wr_owner = None\<rparr>))))"

definition append_bytes :: "disk \<Rightarrow> byte list \<Rightarrow> run_writer \<Rightarrow> run_writer \<times> (run_file_error + unit)" where
  "append_bytes io bs w =
     (case io of
        Wrote \<Rightarrow> (w\<lparr>wr_file := wr_file w @ bs, wr_len := wr_len w + length bs\<rparr>, Inr ())
      | Failed landed cut_back e \<Rightarrow>
          (w\<lparr>wr_file := (if cut_back then take (wr_len w) (wr_file w @ take landed bs)
                        else wr_file w @ take landed bs)\<rparr>, Inl (IoError e)))"

definition due :: "run_writer \<Rightarrow> nat \<Rightarrow> nat \<Rightarrow> bool" where
  "due w since delta_bytes \<longleftrightarrow> 0 < since \<and>
     (cp_every (wr_policy w) \<le> since \<or>
      cp_size_ratio (wr_policy w) * of_nat (wr_checkpoint_bytes w) < of_nat delta_bytes)"

definition write_delta :: "packing \<Rightarrow> disk \<Rightarrow> state_delta \<Rightarrow> run_state option \<Rightarrow> run_writer \<Rightarrow>
    run_writer \<times> (run_file_error + unit)" where
  "write_delta pk io d nxt w =
     (let expected = s_seq (wr_state w) + 1 in
      if d_seq d \<noteq> expected then (w, Inl (SeqGap expected (d_seq d)))
      else let w1 = w\<lparr>wr_owner := None\<rparr> in
        (case frames_for pk (map POwner (case wr_owner w of Some ow \<Rightarrow> [ow] | None \<Rightarrow> [])) of
           Inl e \<Rightarrow> (w1, Inl e)
         | Inr owner \<Rightarrow>
        (case frame_for pk (PDelta d) of
           Inl e \<Rightarrow> (w1, Inl e)
         | Inr delta_frame \<Rightarrow>
        let since = wr_since w + 1; delta_bytes = wr_delta_bytes w + length delta_frame;
            chk = (case nxt of Some s \<Rightarrow> if is_finished s \<or> due w since delta_bytes then [s] else []
                   | None \<Rightarrow> []) in
        (case frames_for pk (map PState chk) of
           Inl e \<Rightarrow> (w1, Inl e)
         | Inr checkpoint \<Rightarrow>
             (case append_bytes io (owner @ delta_frame @ checkpoint) w1 of
                (w2, Inl e) \<Rightarrow> (w2, Inl e)
              | (w2, Inr _) \<Rightarrow>
                  if checkpoint \<noteq> []
                  then (w2\<lparr>wr_since := 0, wr_delta_bytes := 0, wr_checkpoint_bytes := length checkpoint\<rparr>, Inr ())
                  else (w2\<lparr>wr_since := since, wr_delta_bytes := delta_bytes\<rparr>, Inr ()))))))"

definition append_delta :: "packing \<Rightarrow> disk \<Rightarrow> state_delta \<Rightarrow> run_writer \<Rightarrow>
    run_writer \<times> (run_file_error + unit)" where
  "append_delta pk io d w =
     (case write_delta pk io d None w of
        (w', Inl e) \<Rightarrow> (w', Inl e)
      | (w', Inr _) \<Rightarrow> (w'\<lparr>wr_state := delta_apply d (wr_state w')\<rparr>, Inr ()))"

definition checkpoint :: "packing \<Rightarrow> disk \<Rightarrow> run_state \<Rightarrow> run_writer \<Rightarrow>
    run_writer \<times> (run_file_error + unit)" where
  "checkpoint pk io s w =
     (case frame_for pk (PState s) of
        Inl e \<Rightarrow> (w, Inl e)
      | Inr bs \<Rightarrow>
          (case append_bytes io bs w of
             (w', Inl e) \<Rightarrow> (w', Inl e)
           | (w', Inr _) \<Rightarrow> (w'\<lparr>wr_checkpoint_bytes := length bs, wr_since := 0, wr_delta_bytes := 0,
               wr_state := s\<rparr>, Inr ())))"

definition owner_on_next_step :: "owner_frame \<Rightarrow> run_writer \<Rightarrow> run_writer" where
  "owner_on_next_step ow w = w\<lparr>wr_owner := Some ow\<rparr>"

definition record_step :: "packing \<Rightarrow> disk \<Rightarrow> run_state \<Rightarrow> int \<Rightarrow> run_event list \<Rightarrow> run_writer \<Rightarrow>
    run_writer \<times> (run_file_error + nat option)" where
  "record_step pk io nxt now events w =
     (let d = delta_between (wr_state w) nxt now events in
      if delta_is_empty d then (w, Inr None)
      else let nxt' = nxt\<lparr>s_seq := d_seq d\<rparr> in
        (case write_delta pk io d (Some nxt') w of
           (w', Inl e) \<Rightarrow> (w', Inl e)
         | (w', Inr _) \<Rightarrow> (w'\<lparr>wr_state := nxt'\<rparr>, Inr (Some (d_seq d)))))"

subsection \<open>A writer and its log\<close>

definition writer_log :: "packing \<Rightarrow> run_writer \<Rightarrow> run_spec \<Rightarrow> payload list \<Rightarrow> run_state list \<Rightarrow> bool" where
  "writer_log pk w sp ps h \<longleftrightarrow> run_log sp ps h \<and> packing_ok pk ps \<and>
     wr_file w = log_bytes pk ps \<and> wr_len w = length (wr_file w) \<and> wr_state w = last h"

lemma frame_for_ok:
  "payload_ok pk p \<Longrightarrow> frame_for pk p = Inr (frame_bytes pk (fst (framed pk p)) (snd (framed pk p)))"
  by (simp add: frame_for_def encode_ok)

lemma frames_for_ok:
  "list_all (payload_ok pk) ps \<Longrightarrow> frames_for pk ps = Inr (frames_bytes pk (map (framed pk) ps))"
proof (induction ps)
  case (Cons p ps)
  then show ?case by (cases "framed pk p") (simp add: frame_for_ok)
qed simp

lemma frame_nonempty: "frames_bytes pk (map (framed pk) ps) = [] \<longleftrightarrow> ps = []"
proof (cases ps)
  case (Cons p qs)
  have "frame_bytes pk k b \<noteq> []" for k b by (simp add: frame_bytes_def)
  then show ?thesis by (cases "framed pk p") (simp add: Cons)
qed simp

lemma create_log:
  assumes "packing_ok pk (PSpec sp # map PCode cs @ [PState s])"
  shows "\<exists>w. create pk None sp cs s policy = Inr w \<and>
     writer_log pk w sp (PSpec sp # map PCode cs @ [PState s]) [s]"
proof -
  let ?ps = "PSpec sp # map PCode cs @ [PState s]"
  have ok: "list_all (payload_ok pk) (PSpec sp # map PCode cs)" "payload_ok pk (PState s)"
    using assms by (simp_all add: packing_ok_def)
  have "header (fingerprint pk) @ frames_bytes pk (map (framed pk) (PSpec sp # map PCode cs)) @
      frame_bytes pk (fst (framed pk (PState s))) (snd (framed pk (PState s))) = log_bytes pk ?ps"
    by (cases "framed pk (PState s)") (simp add: log_bytes_def frames_bytes_def)
  with assms show ?thesis
    by (simp add: create_def frames_for_ok [OF ok(1)] frame_for_ok [OF ok(2)] writer_log_def
        log_start Let_def del: frames_for.simps)
qed

text \<open>What a write puts in the file, when every payload encodes.\<close>

definition step_payloads :: "run_writer \<Rightarrow> state_delta \<Rightarrow> run_state list \<Rightarrow> payload list" where
  "step_payloads w d chk =
     map POwner (case wr_owner w of Some ow \<Rightarrow> [ow] | None \<Rightarrow> []) @ PDelta d # map PState chk"

definition delta_frame_len :: "packing \<Rightarrow> state_delta \<Rightarrow> nat" where
  "delta_frame_len pk d = length (snd (framed pk (PDelta d))) + FRAME_OVERHEAD"

definition checkpoint_now :: "packing \<Rightarrow> run_writer \<Rightarrow> state_delta \<Rightarrow> run_state option \<Rightarrow> run_state list" where
  "checkpoint_now pk w d nxt =
     (case nxt of
        Some s \<Rightarrow> if is_finished s \<or> due w (wr_since w + 1) (wr_delta_bytes w + delta_frame_len pk d)
                  then [s] else []
      | None \<Rightarrow> [])"

lemma write_delta_unfold:
  assumes "d_seq d = s_seq (wr_state w) + 1"
    and "list_all (payload_ok pk) (step_payloads w d (checkpoint_now pk w d nxt))"
  shows "write_delta pk io d nxt w =
     (case append_bytes io (frames_bytes pk (map (framed pk) (step_payloads w d (checkpoint_now pk w d nxt))))
         (w\<lparr>wr_owner := None\<rparr>) of
        (w2, Inl e) \<Rightarrow> (w2, Inl e)
      | (w2, Inr _) \<Rightarrow>
          if checkpoint_now pk w d nxt \<noteq> []
          then (w2\<lparr>wr_since := 0, wr_delta_bytes := 0, wr_checkpoint_bytes :=
              length (frames_bytes pk (map (framed pk) (map PState (checkpoint_now pk w d nxt))))\<rparr>, Inr ())
          else (w2\<lparr>wr_since := wr_since w + 1, wr_delta_bytes := wr_delta_bytes w + delta_frame_len pk d\<rparr>, Inr ()))"
proof -
  let ?ow = "map POwner (case wr_owner w of Some ow \<Rightarrow> [ow] | None \<Rightarrow> [])"
  let ?chk = "checkpoint_now pk w d nxt"
  have ok: "list_all (payload_ok pk) ?ow" "payload_ok pk (PDelta d)" "list_all (payload_ok pk) (map PState ?chk)"
    using assms(2) by (simp_all add: step_payloads_def)
  have len: "length (frame_bytes pk (fst (framed pk (PDelta d))) (snd (framed pk (PDelta d)))) = delta_frame_len pk d"
    by (simp add: delta_frame_len_def)
  have chk: "(case nxt of Some s \<Rightarrow> if is_finished s \<or> due w (wr_since w + 1)
        (wr_delta_bytes w + delta_frame_len pk d) then [s] else [] | None \<Rightarrow> []) = ?chk"
    by (simp add: checkpoint_now_def)
  have bytes: "frames_bytes pk (map (framed pk) ?ow) @
      frame_bytes pk (fst (framed pk (PDelta d))) (snd (framed pk (PDelta d))) @
      frames_bytes pk (map (framed pk) (map PState ?chk)) =
      frames_bytes pk (map (framed pk) (step_payloads w d ?chk))"
    by (cases "framed pk (PDelta d)") (simp add: step_payloads_def)
  show ?thesis
    unfolding write_delta_def Let_def frames_for_ok [OF ok(1)] frame_for_ok [OF ok(2)] sum.case len chk
      frames_for_ok [OF ok(3)] bytes frame_nonempty
    using assms(1) by simp
qed

text \<open>Those payloads take the log one step on.\<close>

lemma step_log:
  assumes "run_log sp ps h" and "d_seq d = s_seq (last h) + 1"
    and "chk = [] \<or> chk = [delta_apply d (last h)]"
  shows "run_log sp (ps @ step_payloads w d chk) (h @ [delta_apply d (last h)])"
proof -
  have "run_log sp (ps @ map POwner (case wr_owner w of Some ow \<Rightarrow> [ow] | None \<Rightarrow> [])) h"
    using assms(1) by (auto split: option.splits intro: log_owner)
  from log_step [OF this assms(2)] log_checkpoint [OF log_step [OF this assms(2)]] assms(3)
  show ?thesis by (auto simp: step_payloads_def)
qed

lemma append_wrote [simp]:
  "append_bytes Wrote bs w = (w\<lparr>wr_file := wr_file w @ bs, wr_len := wr_len w + length bs\<rparr>, Inr ())"
  by (simp add: append_bytes_def)

lemma append_failed:
  "wr_len w = length (wr_file w) \<Longrightarrow>
   append_bytes (Failed n cut_back e) bs w =
     (w\<lparr>wr_file := (if cut_back then wr_file w else wr_file w @ take n bs)\<rparr>, Inl (IoError e))"
  by (simp add: append_bytes_def)

text \<open>One recorded step, from a writer in line with its log.\<close>

definition recorded_step :: "run_writer \<Rightarrow> run_state \<Rightarrow> int \<Rightarrow> run_event list \<Rightarrow> state_delta" where
  "recorded_step w nxt now evs = delta_between (wr_state w) nxt now evs"

definition recorded_payloads :: "packing \<Rightarrow> run_writer \<Rightarrow> run_state \<Rightarrow> int \<Rightarrow> run_event list \<Rightarrow> payload list" where
  "recorded_payloads pk w nxt now evs =
     (let d = recorded_step w nxt now evs in
      step_payloads w d (checkpoint_now pk w d (Some (stamped (wr_state w) nxt))))"

lemma record_step_wrote:
  assumes "writer_log pk w sp ps h" and "recordable (wr_state w)" and "recordable nxt"
    and "list_all (payload_ok pk) (recorded_payloads pk w nxt now evs)"
    and "\<not> (evs = [] \<and> nxt = (wr_state w)\<lparr>s_seq := s_seq nxt\<rparr>)"
  shows "\<exists>w'. record_step pk Wrote nxt now evs w = (w', Inr (Some (s_seq (wr_state w) + 1))) \<and>
     writer_log pk w' sp (ps @ recorded_payloads pk w nxt now evs) (h @ [stamped (wr_state w) nxt]) \<and>
     wr_policy w' = wr_policy w \<and> wr_owner w' = None \<and>
     (let d = recorded_step w nxt now evs;
          chk = checkpoint_now pk w d (Some (stamped (wr_state w) nxt)) in
      if chk = []
      then wr_since w' = wr_since w + 1 \<and> wr_delta_bytes w' = wr_delta_bytes w + delta_frame_len pk d \<and>
           wr_checkpoint_bytes w' = wr_checkpoint_bytes w
      else wr_since w' = 0 \<and> wr_delta_bytes w' = 0 \<and>
           wr_checkpoint_bytes w' = frames_len (map (framed pk) (map PState chk)))"
proof -
  let ?d = "recorded_step w nxt now evs" and ?n = "stamped (wr_state w) nxt"
  let ?chk = "checkpoint_now pk w ?d (Some ?n)"
  have log: "run_log sp ps h" "packing_ok pk ps" "wr_file w = log_bytes pk ps"
    "wr_len w = length (wr_file w)" "wr_state w = last h"
    using assms(1) by (simp_all add: writer_log_def)
  have d: "d_seq ?d = s_seq (wr_state w) + 1" by (simp add: recorded_step_def delta_between_def)
  have nonempty: "\<not> delta_is_empty ?d"
    using delta_empty_iff [OF assms(2,3)] assms(5) by (simp add: recorded_step_def)
  have apply_d: "delta_apply ?d (last h) = ?n"
    using delta_replay [OF assms(2,3)] log(5) by (simp add: recorded_step_def)
  have n: "nxt\<lparr>s_seq := d_seq ?d\<rparr> = ?n" by (simp add: stamped_def d)
  have oks: "list_all (payload_ok pk) (step_payloads w ?d ?chk)"
    using assms(4) by (simp add: recorded_payloads_def Let_def)
  note unf = write_delta_unfold [OF d oks, of Wrote]
  have "run_log sp (ps @ step_payloads w ?d ?chk) (h @ [?n])"
    using step_log [OF log(1), of ?d ?chk w] d log(5) apply_d
    by (auto simp: checkpoint_now_def)
  moreover have "packing_ok pk (ps @ step_payloads w ?d ?chk)"
    using log(2) oks by (simp add: packing_ok_def)
  moreover have "wr_file w @ frames_bytes pk (map (framed pk) (step_payloads w ?d ?chk)) =
      log_bytes pk (ps @ step_payloads w ?d ?chk)"
    by (simp add: log(3) log_bytes_append)
  moreover have "length (wr_file w) + frames_len (map (framed pk) (step_payloads w ?d ?chk)) =
      length (log_bytes pk (ps @ step_payloads w ?d ?chk))"
    by (simp add: log(3) log_bytes_append)
  ultimately show ?thesis
    using nonempty log(4) n d unf
    by (auto simp: record_step_def Let_def recorded_step_def [symmetric] recorded_payloads_def
        writer_log_def split: if_splits)
qed

text \<open>A write that failed and was cut off again leaves the file and the state as they were.\<close>

lemma record_step_failed:
  assumes "writer_log pk w sp ps h"
    and "list_all (payload_ok pk) (recorded_payloads pk w nxt now evs)"
    and "record_step pk (Failed n cut_back e) nxt now evs w = (w', res)"
  shows "wr_state w' = wr_state w \<and> wr_policy w' = wr_policy w \<and> wr_len w' = wr_len w \<and>
     wr_since w' = wr_since w \<and> wr_delta_bytes w' = wr_delta_bytes w \<and>
     wr_checkpoint_bytes w' = wr_checkpoint_bytes w \<and>
     (res = Inr None \<and> w' = w \<or>
      res = Inl (IoError e) \<and> wr_owner w' = None \<and>
      wr_file w' = (if cut_back then wr_file w else wr_file w @ take n
        (frames_bytes pk (map (framed pk) (recorded_payloads pk w nxt now evs)))))"
proof (cases "delta_is_empty (recorded_step w nxt now evs)")
  case True
  with assms(3) show ?thesis by (auto simp: record_step_def recorded_step_def Let_def)
next
  case False
  let ?d = "recorded_step w nxt now evs" and ?n = "stamped (wr_state w) nxt"
  let ?chk = "checkpoint_now pk w ?d (Some ?n)"
  have d: "d_seq ?d = s_seq (wr_state w) + 1" by (simp add: recorded_step_def delta_between_def)
  have n: "nxt\<lparr>s_seq := d_seq ?d\<rparr> = ?n" by (simp add: stamped_def d)
  have "wr_len (w\<lparr>wr_owner := None\<rparr>) = length (wr_file (w\<lparr>wr_owner := None\<rparr>))"
    using assms(1) by (simp add: writer_log_def)
  note fail = append_failed [OF this, of n cut_back e]
  have "list_all (payload_ok pk) (step_payloads w ?d ?chk)"
    using assms(2) by (simp add: recorded_payloads_def Let_def)
  note unf = write_delta_unfold [OF d this, of "Failed n cut_back e", unfolded fail]
  show ?thesis
    using assms(3) False n unf
    by (auto simp: record_step_def Let_def recorded_step_def [symmetric] recorded_payloads_def)
qed

end
