(* ===== verification/Run_Session.thy ===== *)
theory Run_Session
  imports Run_Writer
begin

text \<open>
  A run file over a run's life: steps recorded one after another, writes that fail, and
  processes that die in the middle of one and are followed by another that opens the file
  again.
\<close>

subsection \<open>A file cut short\<close>

definition kept_log :: "packing \<Rightarrow> nat \<Rightarrow> payload list \<Rightarrow> payload list" where
  "kept_log pk m ps = take (length (kept (m - HEADER_LEN) (map (framed pk) ps))) ps"

lemma kept_log_framed: "map (framed pk) (kept_log pk m ps) = kept (m - HEADER_LEN) (map (framed pk) ps)"
proof -
  obtain gs where "map (framed pk) ps = kept (m - HEADER_LEN) (map (framed pk) ps) @ gs"
    using kept_prefix by blast
  then show ?thesis by (metis append_eq_conv_conj kept_log_def take_map)
qed

lemma kept_log_prefix: "\<exists>rest. ps = kept_log pk m ps @ rest"
  unfolding kept_log_def by (metis append_take_drop_id)

lemma packing_ok_kept: "packing_ok pk ps \<Longrightarrow> packing_ok pk (kept_log pk m ps)"
  by (metis kept_log_prefix packing_ok_simps(1))

lemma scans_cut:
  assumes ok: "packing_ok pk ps" and hides: "\<forall>p \<in> set ps. hides_none pk (framed pk p)"
    and m: "HEADER_LEN \<le> m" "m \<le> length (log_bytes pk ps)"
  shows "scans_as pk (take m (log_bytes pk ps)) (kept_log pk m ps) \<and>
     length (log_bytes pk (kept_log pk m ps)) \<le> m"
proof -
  let ?H = "header (fingerprint pk)" and ?F = "map (framed pk) ps" and ?n = "m - HEADER_LEN"
  let ?K = "kept ?n ?F" and ?B = "take m (log_bytes pk ps)"
  have fp: "length (fingerprint pk) = 32" and H: "length ?H = HEADER_LEN"
    using ok by (simp_all add: packing_ok_def header_length)
  have n: "?n \<le> frames_len ?F" using m H by (simp add: log_bytes_def)
  have B: "?B = take (length ?H + ?n) (?H @ frames_bytes pk ?F)"
    using m H by (simp add: log_bytes_def)
  have lenK: "length (log_bytes pk (kept_log pk m ps)) = HEADER_LEN + frames_len ?K"
    using H by (simp add: log_bytes_def kept_log_framed)
  have le: "HEADER_LEN + frames_len ?K \<le> m" using kept_len [of ?n ?F] m by simp
  have "min HEADER_LEN (length ?B) = length ?H" using m H by simp
  with scan_cut_from [OF framed_fits [OF ok] n, of pk ?H] hides H
  obtain why where "scan pk ?B =
      \<lparr>sc_frames = refs_from HEADER_LEN ?K, sc_end = HEADER_LEN + frames_len ?K, sc_stop = why\<rparr>"
    "why = StopEnd \<or> why = StopTorn (HEADER_LEN + frames_len ?K)"
    unfolding scan_def B [symmetric] by auto
  moreover have "check_header ?B (fingerprint pk) = Inr ()"
    using header_checks [OF fp, of "take ?n (frames_bytes pk ?F)"] B by simp
  moreover have "take (length (log_bytes pk (kept_log pk m ps))) ?B = log_bytes pk (kept_log pk m ps)"
  proof -
    obtain rest where "ps = kept_log pk m ps @ rest" using kept_log_prefix by blast
    then have "log_bytes pk ps = log_bytes pk (kept_log pk m ps) @ frames_bytes pk (map (framed pk) rest)"
      by (metis log_bytes_append)
    with le lenK show ?thesis by (simp add: min_def)
  qed
  ultimately show ?thesis
    using le lenK by (auto simp: scans_as_def damage_def refs_of_from kept_log_framed)
qed

lemma opened_log:
  assumes log: "run_log sp ps h" and ok: "packing_ok pk ps" and scans: "scans_as pk bytes ps"
    and len: "length (log_bytes pk ps) \<le> length bytes"
  shows "\<exists>w. open_writer pk None None bytes policy = (log_bytes pk ps, Inr w) \<and>
     writer_log pk w sp ps h \<and> wr_policy w = policy \<and> wr_owner w = None \<and>
     wr_since w = u32 (s_seq (last h) - s_seq (last (states_of ps))) \<and> wr_delta_bytes w = 0"
proof -
  from log_read [OF log ok scans] obtain r where r: "read_file pk bytes = Inr r"
    "rd_torn r = length bytes - length (log_bytes pk ps)" "rd_bytes r = log_bytes pk ps"
    and reads: "reads_as pk r sp h" by blast
  from log_index [OF log ok scans] r(1) obtain sfs :: "(run_state \<times> frame_ref) list" where
    sfs: "rd_states r = map (\<lambda>(s, f). (s_seq s, f)) sfs" "map fst sfs = states_of ps" by auto
  from log_shape [OF log] have ne: "h \<noteq> []" "states_of ps \<noteq> []" by auto
  then have "sfs \<noteq> []" using sfs(2) by auto
  then have "fst (last_checkpoint r) = s_seq (last (states_of ps))"
    by (simp add: last_checkpoint_def sfs(1) last_map case_prod_beta flip: sfs(2))
  moreover have "latest_state pk r = Inr (last h)"
  proof -
    have "s_seq (last h) = s_seq (hd h) + (length h - 1)"
      using log_seqs [OF log, of "length h - 1"] ne by (simp add: last_conv_nth)
    then show ?thesis using reads ne by (simp add: latest_state_def reads_as_def last_conv_nth)
  qed
  moreover have "(if 0 < rd_torn r then take (length (rd_bytes r)) bytes else bytes) = log_bytes pk ps"
  proof (cases "rd_torn r = 0")
    case True
    then have "length bytes \<le> length (log_bytes pk ps)" using r(2) by simp
    then have "take (length (log_bytes pk ps)) bytes = bytes" by simp
    moreover have "take (length (log_bytes pk ps)) bytes = log_bytes pk ps"
      using scans unfolding scans_as_def by blast
    ultimately show ?thesis using True by simp
  next
    case False
    have "take (length (log_bytes pk ps)) bytes = log_bytes pk ps"
      using scans unfolding scans_as_def by blast
    with False show ?thesis by (simp only: r(3)) simp
  qed
  ultimately show ?thesis
    using r(1) by (simp add: open_writer_def Let_def r(3) writer_log_def log ok)
qed

subsection \<open>Sessions\<close>

text \<open>
  How a file may come about under one policy, with how often it was opened again: each step
  goes through the code's own \<open>record\<close>, a failed write is cut off again, and a process may
  die anywhere after the first checkpoint was written, even in the middle of a write.
\<close>

inductive session :: "packing \<Rightarrow> checkpoint_policy \<Rightarrow> run_spec \<Rightarrow> nat \<Rightarrow> run_writer \<Rightarrow> payload list \<Rightarrow>
    run_state list \<Rightarrow> bool" for pk policy sp where
  created: "packing_ok pk (PSpec sp # map PCode cs @ [PState s]) \<Longrightarrow> recordable s \<Longrightarrow>
    create pk None sp cs s policy = Inr w \<Longrightarrow>
    session pk policy sp 0 w (PSpec sp # map PCode cs @ [PState s]) [s]"
| owned: "session pk policy sp c w ps h \<Longrightarrow> session pk policy sp c (owner_on_next_step ow w) ps h"
| recorded: "session pk policy sp c w ps h \<Longrightarrow> recordable nxt \<Longrightarrow>
    list_all (payload_ok pk) (recorded_payloads pk w nxt now evs) \<Longrightarrow>
    record_step pk Wrote nxt now evs w = (w', Inr (Some k)) \<Longrightarrow>
    session pk policy sp c w' (ps @ recorded_payloads pk w nxt now evs) (h @ [stamped (last h) nxt])"
| failed: "session pk policy sp c w ps h \<Longrightarrow>
    list_all (payload_ok pk) (recorded_payloads pk w nxt now evs) \<Longrightarrow>
    record_step pk (Failed n True e) nxt now evs w = (w', res) \<Longrightarrow> session pk policy sp c w' ps h"
| reopened: "session pk policy sp c w ps h \<Longrightarrow> \<forall>p \<in> set ps. hides_none pk (framed pk p) \<Longrightarrow>
    HEADER_LEN \<le> m \<Longrightarrow> m \<le> length (wr_file w) \<Longrightarrow> states_of (kept_log pk m ps) \<noteq> [] \<Longrightarrow>
    open_writer pk None None (take m (wr_file w)) policy = (left, Inr w') \<Longrightarrow>
    session pk policy sp (Suc c) w' (kept_log pk m ps)
      (take (Suc (length (deltas_of (kept_log pk m ps)))) h)"

lemma writer_log_owner [simp]: "writer_log pk (owner_on_next_step ow w) sp ps h = writer_log pk w sp ps h"
  by (simp add: writer_log_def owner_on_next_step_def)

lemma record_changes:
  assumes "recordable (wr_state w)" and "recordable nxt"
    and "record_step pk io nxt now evs w = (w', Inr (Some k))"
  shows "\<not> (evs = [] \<and> nxt = (wr_state w)\<lparr>s_seq := s_seq nxt\<rparr>)"
  using assms delta_empty_iff [OF assms(1,2), of now evs] by (auto simp: record_step_def Let_def)

lemma cut_writer:
  assumes "writer_log pk w sp ps h" and "\<forall>p \<in> set ps. hides_none pk (framed pk p)"
    and "HEADER_LEN \<le> m" and "m \<le> length (wr_file w)" and "states_of (kept_log pk m ps) \<noteq> []"
  shows "\<exists>w'. open_writer pk None None (take m (wr_file w)) policy =
      (log_bytes pk (kept_log pk m ps), Inr w') \<and>
     writer_log pk w' sp (kept_log pk m ps) (take (Suc (length (deltas_of (kept_log pk m ps)))) h) \<and>
     wr_policy w' = policy \<and> wr_owner w' = None \<and> wr_delta_bytes w' = 0 \<and>
     wr_since w' = u32 (s_seq (last (take (Suc (length (deltas_of (kept_log pk m ps)))) h)) -
       s_seq (last (states_of (kept_log pk m ps))))"
proof -
  have log: "run_log sp ps h" "packing_ok pk ps" "wr_file w = log_bytes pk ps"
    using assms(1) by (simp_all add: writer_log_def)
  obtain rest where "ps = kept_log pk m ps @ rest" using kept_log_prefix by blast
  with log(1) have cut: "run_log sp (kept_log pk m ps) (take (Suc (length (deltas_of (kept_log pk m ps)))) h)"
    using log_prefix assms(5) by metis
  have "scans_as pk (take m (wr_file w)) (kept_log pk m ps)"
    "length (log_bytes pk (kept_log pk m ps)) \<le> length (take m (wr_file w))"
    using scans_cut [OF log(2) assms(2,3)] assms(4) log(3) by simp_all
  from opened_log [OF cut packing_ok_kept [OF log(2)] this] show ?thesis by metis
qed

lemma session_log:
  "session pk policy sp c w ps h \<Longrightarrow>
   writer_log pk w sp ps h \<and> wr_policy w = policy \<and> (\<forall>s \<in> set h. recordable s)"
proof (induction rule: session.induct)
  case (created cs s w)
  from create_log [OF created(1), of policy] created(3)
  have "writer_log pk w sp (PSpec sp # map PCode cs @ [PState s]) [s]" by auto
  moreover have "wr_policy w = policy"
    using created(3) by (auto simp: create_def Let_def split: sum.splits)
  ultimately show ?case using created(2) by simp
next
  case (owned c w ps h ow)
  then show ?case by (simp add: owner_on_next_step_def [of ow w] flip: writer_log_owner [of pk ow w])
next
  case (recorded c w ps h nxt now evs w' k)
  then have log: "writer_log pk w sp ps h" and "wr_state w = last h" "h \<noteq> []"
    using log_shape by (auto simp: writer_log_def)
  with recorded have rec: "recordable (wr_state w)" by simp
  from record_step_wrote [OF log this recorded(2,3) record_changes [OF this recorded(2,4)]]
    recorded(4) recorded.IH \<open>wr_state w = last h\<close> recorded(2)
  show ?case by (auto simp: recordable_stamped)
next
  case (failed c w ps h nxt now evs n e w' res)
  then have log: "writer_log pk w sp ps h" by simp
  from record_step_failed [OF this failed(2,3)] failed.IH log show ?case
    by (auto simp: writer_log_def)
next
  case (reopened c w ps h m left w')
  from cut_writer [OF conjunct1 [OF reopened.IH] reopened(2-5), of policy] reopened(6) reopened.IH
  show ?case by (auto dest: in_set_takeD)
qed

subsection \<open>How much a read replays\<close>

text \<open>The steps after the last checkpoint of a log, which are what reading its state replays.\<close>

definition tail_deltas :: "payload list \<Rightarrow> state_delta list" where
  "tail_deltas ps = deltas_of (rev (takeWhile (\<lambda>p. state_of p = None) (rev ps)))"

lemma tail_simps [simp]:
  "tail_deltas (ps @ [PState s]) = []"
  "tail_deltas (ps @ [PDelta d]) = tail_deltas ps @ [d]"
  "tail_deltas (ps @ [POwner ow]) = tail_deltas ps"
  by (simp_all add: tail_deltas_def List.map_filter_def)

lemma tail_seq:
  "run_log sp ps h \<Longrightarrow> s_seq (last h) = s_seq (last (states_of ps)) + length (tail_deltas ps)"
proof (induction rule: run_log.induct)
  case (log_start cs s)
  then show ?case using tail_simps(1) [of "PSpec sp # map PCode cs" s]
    by (simp add: List.map_filter_def)
next
  case (log_step ps h d)
  then show ?case by (simp add: List.map_filter_def)
next
  case (log_checkpoint ps h)
  then show ?case by (simp add: List.map_filter_def)
qed (simp add: List.map_filter_def)

definition most_steps :: "checkpoint_policy \<Rightarrow> nat" where
  "most_steps policy = max 1 (cp_every policy)"

definition tails_within :: "nat \<Rightarrow> payload list \<Rightarrow> bool" where
  "tails_within b ps \<longleftrightarrow> (\<forall>qs rest. ps = qs @ rest \<longrightarrow> length (tail_deltas qs) \<le> b)"

lemma tails_within_snoc:
  "tails_within b (ps @ [p]) \<longleftrightarrow> tails_within b ps \<and> length (tail_deltas (ps @ [p])) \<le> b"
proof
  assume all: "tails_within b (ps @ [p])"
  then have "length (tail_deltas (ps @ [p])) \<le> b" by (auto simp: tails_within_def)
  moreover have "tails_within b ps"
    unfolding tails_within_def
  proof (intro allI impI)
    fix qs rest assume "ps = qs @ rest"
    then have "ps @ [p] = qs @ (rest @ [p])" by simp
    with all show "length (tail_deltas qs) \<le> b" unfolding tails_within_def by blast
  qed
  ultimately show "tails_within b ps \<and> length (tail_deltas (ps @ [p])) \<le> b" by simp
next
  assume one: "tails_within b ps \<and> length (tail_deltas (ps @ [p])) \<le> b"
  show "tails_within b (ps @ [p])"
    unfolding tails_within_def
  proof (intro allI impI)
    fix qs rest assume split: "ps @ [p] = qs @ rest"
    show "length (tail_deltas qs) \<le> b"
    proof (cases rest rule: rev_cases)
      case Nil
      with one split show ?thesis by simp
    next
      case (snoc r x)
      with one split show ?thesis by (auto simp: tails_within_def)
    qed
  qed
qed

lemma tails_within_mono: "tails_within b ps \<Longrightarrow> b \<le> b' \<Longrightarrow> tails_within b' ps"
  unfolding tails_within_def using le_trans by blast

lemma tails_within_prefix: "tails_within b (ps @ qs) \<Longrightarrow> tails_within b ps"
  by (simp add: tails_within_def)

lemma tail_step:
  "tail_deltas (ps @ step_payloads w d chk) =
   (if chk = [] then tail_deltas ps @ [d] else [])" if "length chk \<le> 1"
proof -
  have "tail_deltas (ps @ map POwner (case wr_owner w of Some ow \<Rightarrow> [ow] | None \<Rightarrow> [])) = tail_deltas ps"
    by (cases "wr_owner w") simp_all
  then have one: "tail_deltas ((ps @ map POwner (case wr_owner w of Some ow \<Rightarrow> [ow] | None \<Rightarrow> [])) @ [PDelta d]) =
      tail_deltas ps @ [d]" by (simp only: tail_simps)
  show ?thesis
  proof (cases chk)
    case Nil
    with one show ?thesis by (simp add: step_payloads_def)
  next
    case (Cons s rest)
    with that have "ps @ step_payloads w d chk =
        (ps @ map POwner (case wr_owner w of Some ow \<Rightarrow> [ow] | None \<Rightarrow> []) @ [PDelta d]) @ [PState s]"
      by (simp add: step_payloads_def)
    with Cons show ?thesis by (simp only: tail_simps) simp
  qed
qed

lemma tails_step:
  assumes "tails_within b ps" and "Suc (length (tail_deltas ps)) \<le> b" and "length chk \<le> 1"
  shows "tails_within b (ps @ step_payloads w d chk)"
proof -
  let ?P = "ps @ map POwner (case wr_owner w of Some ow \<Rightarrow> [ow] | None \<Rightarrow> [])"
  have P: "tails_within b ?P" "tail_deltas ?P = tail_deltas ps"
    using assms(1,2) by (cases "wr_owner w"; simp add: tails_within_snoc)+
  then have D: "tails_within b (?P @ [PDelta d])"
    using assms(2) tail_simps(2) [of ?P d] tails_within_snoc [of b ?P "PDelta d"] by simp
  show ?thesis
  proof (cases chk)
    case Nil
    with D show ?thesis by (simp add: step_payloads_def)
  next
    case (Cons s rest)
    with assms(3) have "ps @ step_payloads w d chk = (?P @ [PDelta d]) @ [PState s]"
      by (simp add: step_payloads_def)
    with D show ?thesis using tails_within_snoc [of b "?P @ [PDelta d]" "PState s"] by (simp only: tail_simps) simp
  qed
qed

lemma tails_start: "tails_within b (PSpec sp # map PCode cs @ [PState s]) \<and> tail_deltas (PSpec sp # map PCode cs @ [PState s]) = []"
proof -
  have none: "tail_deltas qs = []" if "\<forall>q \<in> set qs. delta_of q = None" for qs
    using that by (auto simp: tail_deltas_def List.map_filter_def filter_empty_conv dest: set_takeWhileD)
  have "\<forall>q \<in> set (PSpec sp # map PCode cs @ [PState s]). delta_of q = None" by auto
  then show ?thesis using none unfolding tails_within_def
    by (metis le0 list.size(3) set_append Un_iff)
qed

lemma checkpoint_one: "length (checkpoint_now pk w d nxt) \<le> 1"
  by (simp add: checkpoint_now_def split: option.splits)

lemma not_due_yet:
  "checkpoint_now pk w d (Some s) = [] \<Longrightarrow> Suc (wr_since w) < cp_every (wr_policy w) \<and>
   of_nat (wr_delta_bytes w + delta_frame_len pk d) \<le>
     cp_size_ratio (wr_policy w) * of_nat (wr_checkpoint_bytes w)"
  by (auto simp: checkpoint_now_def due_def split: if_splits)

lemma session_tail:
  "session pk policy sp c w ps h \<Longrightarrow> most_steps policy + c < 2 ^ 32 \<Longrightarrow>
   wr_since w = length (tail_deltas ps) \<and> Suc (wr_since w) \<le> most_steps policy + c \<and>
   tails_within (most_steps policy + c) ps"
proof (induction rule: session.induct)
  case (created cs s w)
  then have "wr_since w = 0" by (auto simp: create_def Let_def split: sum.splits)
  with tails_start show ?case by (auto simp: most_steps_def)
next
  case (owned c w ps h ow)
  then show ?case by (simp add: owner_on_next_step_def)
next
  case (recorded c w ps h nxt now evs w' k)
  let ?d = "recorded_step w nxt now evs"
  let ?chk = "checkpoint_now pk w ?d (Some (stamped (wr_state w) nxt))"
  from session_log [OF recorded(1)] have log: "writer_log pk w sp ps h" and pol: "wr_policy w = policy"
    and rec: "recordable (wr_state w)" using log_shape by (auto simp: writer_log_def)
  have ps: "recorded_payloads pk w nxt now evs = step_payloads w ?d ?chk"
    by (simp add: recorded_payloads_def Let_def)
  have IH: "wr_since w = length (tail_deltas ps)" "Suc (wr_since w) \<le> most_steps policy + c"
    "tails_within (most_steps policy + c) ps"
    using recorded.IH recorded.prems by auto
  have since: "wr_since w' = (if ?chk = [] then Suc (wr_since w) else 0)"
    using record_step_wrote [OF log rec recorded(2,3) record_changes [OF rec recorded(2,4)]] recorded(4)
    by (auto simp: Let_def split: if_splits)
  have "?chk = [] \<Longrightarrow> Suc (Suc (wr_since w)) \<le> most_steps policy + c"
    using not_due_yet [of pk w ?d "stamped (wr_state w) nxt"] pol by (simp add: most_steps_def)
  moreover have "tails_within (most_steps policy + c) (ps @ step_payloads w ?d ?chk)"
    using IH by (intro tails_step checkpoint_one) auto
  ultimately show ?case
    using since IH by (simp add: ps tail_step [OF checkpoint_one] most_steps_def)
next
  case (failed c w ps h nxt now evs n e w' res)
  from session_log [OF failed(1)] have "writer_log pk w sp ps h" by blast
  from record_step_failed [OF this failed(2,3)] failed.IH failed.prems show ?case by simp
next
  case (reopened c w ps h m left w')
  let ?K = "kept_log pk m ps"
  let ?h = "take (Suc (length (deltas_of ?K))) h"
  from session_log [OF reopened(1)] have log: "writer_log pk w sp ps h" by blast
  from cut_writer [OF this reopened(2-5), of policy] reopened(6)
  have w': "writer_log pk w' sp ?K ?h" "wr_since w' = u32 (s_seq (last ?h) - s_seq (last (states_of ?K)))"
    by auto
  then have since: "wr_since w' = u32 (length (tail_deltas ?K))"
    using tail_seq [of sp ?K ?h] by (simp add: writer_log_def)
  have IH: "tails_within (most_steps policy + c) ps" using reopened.IH reopened.prems by simp
  then have tails: "tails_within (most_steps policy + c) ?K"
    using kept_log_prefix [of ps pk m] tails_within_prefix by metis
  then have "length (tail_deltas ?K) \<le> most_steps policy + c"
    unfolding tails_within_def by (metis append_Nil2)
  with since tails reopened.prems show ?case
    by (auto simp: u32_def elim: tails_within_mono)
qed

text \<open>In a file never opened again, the bytes of those steps are bounded too.\<close>

definition checkpoint_len :: "packing \<Rightarrow> payload list \<Rightarrow> nat" where
  "checkpoint_len pk ps = length (snd (framed pk (PState (last (states_of ps))))) + FRAME_OVERHEAD"

definition tail_len :: "packing \<Rightarrow> payload list \<Rightarrow> nat" where
  "tail_len pk ps = sum_list (map (delta_frame_len pk) (tail_deltas ps))"

lemma states_step:
  "states_of (ps @ step_payloads w d chk) = states_of ps @ chk"
  by (cases "wr_owner w") (induction chk; simp add: step_payloads_def List.map_filter_def)+

lemma session_bytes:
  "session pk policy sp c w ps h \<Longrightarrow> c = 0 \<Longrightarrow> 0 \<le> cp_size_ratio policy \<Longrightarrow>
   wr_delta_bytes w = tail_len pk ps \<and> wr_checkpoint_bytes w = checkpoint_len pk ps \<and>
   of_nat (tail_len pk ps) \<le> cp_size_ratio policy * of_nat (checkpoint_len pk ps)"
proof (induction rule: session.induct)
  case (created cs s w)
  have "payload_ok pk (PState s)" using created(1) by simp
  then have "wr_delta_bytes w = 0 \<and> wr_checkpoint_bytes w = length (snd (framed pk (PState s))) + FRAME_OVERHEAD"
    using created(3) by (auto simp: create_def frame_for_ok Let_def split: sum.splits)
  then show ?case using tails_start created.prems
    by (simp add: tail_len_def checkpoint_len_def List.map_filter_def)
next
  case (owned c w ps h ow)
  then show ?case by (simp add: owner_on_next_step_def)
next
  case (recorded c w ps h nxt now evs w' k)
  let ?d = "recorded_step w nxt now evs"
  let ?chk = "checkpoint_now pk w ?d (Some (stamped (wr_state w) nxt))"
  from session_log [OF recorded(1)] have log: "writer_log pk w sp ps h" and pol: "wr_policy w = policy"
    and rec: "recordable (wr_state w)" using log_shape by (auto simp: writer_log_def)
  have ps: "recorded_payloads pk w nxt now evs = step_payloads w ?d ?chk"
    by (simp add: recorded_payloads_def Let_def)
  have IH: "wr_delta_bytes w = tail_len pk ps" "wr_checkpoint_bytes w = checkpoint_len pk ps"
    using recorded.IH recorded.prems by auto
  have w': "if ?chk = [] then wr_delta_bytes w' = wr_delta_bytes w + delta_frame_len pk ?d \<and>
        wr_checkpoint_bytes w' = wr_checkpoint_bytes w
      else wr_delta_bytes w' = 0 \<and> wr_checkpoint_bytes w' = frames_len (map (framed pk) (map PState ?chk))"
    using record_step_wrote [OF log rec recorded(2,3) record_changes [OF rec recorded(2,4)]] recorded(4)
    by (auto simp: Let_def split: if_splits)
  show ?case
  proof (cases "?chk = []")
    case True
    have "tail_len pk (ps @ step_payloads w ?d ?chk) = tail_len pk ps + delta_frame_len pk ?d"
      using True by (simp add: tail_len_def tail_step)
    moreover have "checkpoint_len pk (ps @ step_payloads w ?d ?chk) = checkpoint_len pk ps"
      using True by (simp add: checkpoint_len_def states_step)
    moreover have "of_nat (wr_delta_bytes w + delta_frame_len pk ?d) \<le>
        cp_size_ratio policy * of_nat (wr_checkpoint_bytes w)"
      using not_due_yet [OF True] pol by simp
    ultimately show ?thesis using IH w' True by (simp add: ps)
  next
    case False
    then obtain s where s: "?chk = [s]"
      using checkpoint_one [of pk w ?d "Some (stamped (wr_state w) nxt)"] by (cases ?chk) auto
    then have "frames_len (map (framed pk) (map PState ?chk)) =
        length (snd (framed pk (PState s))) + FRAME_OVERHEAD" by (cases "framed pk (PState s)") simp
    with w' False s recorded.prems show ?thesis
      by (simp add: ps tail_len_def checkpoint_len_def states_step tail_step)
  qed
next
  case (failed c w ps h nxt now evs n e w' res)
  from session_log [OF failed(1)] have "writer_log pk w sp ps h" by blast
  from record_step_failed [OF this failed(2,3)] failed.IH failed.prems show ?case by simp
qed simp

end
