(* ===== verification/Run_Tail.thy ===== *)
theory Run_Tail
  imports Run_Session
begin

text \<open>
  A run read from the two ends of its file, \<open>crates/leviath-runtime/src/runfile/tail.rs\<close>: the
  spec at the front, the last checkpoint and the steps after it at the back, and the whole
  reader for any file those do not settle. The widening window the code reads a big file
  through is not modelled: the bytes here are the whole file.
\<close>

record run_file_tail =
  rt_spec :: run_spec
  rt_state :: run_state
  rt_updated_at :: int

lemma frame_before_lt: "frame_before pk bytes i = Inr f \<Longrightarrow> f_offset f < i"
  by (auto simp: frame_before_def FRAME_OVERHEAD_def dest!: frame_at_ref split: option.splits if_splits)

text \<open>Back from the end to the last checkpoint, keeping the steps after it, newest first.\<close>

function walk_back :: "packing \<Rightarrow> byte list \<Rightarrow> nat \<Rightarrow> nat \<Rightarrow> frame_ref list \<Rightarrow>
    (frame_ref \<times> frame_ref list) option" where
  "walk_back pk bytes front i after =
     (if i \<le> front then None
      else case frame_before pk bytes i of
        Inl _ \<Rightarrow> None
      | Inr f \<Rightarrow>
          (case f_kind f of
             StateFrame \<Rightarrow> Some (f, after)
           | DeltaFrame \<Rightarrow> walk_back pk bytes front (f_offset f) (after @ [f])
           | _ \<Rightarrow> walk_back pk bytes front (f_offset f) after))"
  by pat_completeness auto

termination
  by (relation "measure (\<lambda>(_, _, _, i, _). i)") (auto dest: frame_before_lt)

declare walk_back.simps [simp del]

fun replay_tail :: "packing \<Rightarrow> byte list \<Rightarrow> frame_ref list \<Rightarrow> run_state \<Rightarrow> int option \<Rightarrow>
    (run_state \<times> int option) option" where
  "replay_tail pk bytes [] s updated = Some (s, updated)"
| "replay_tail pk bytes (f # fs) s updated =
     (case decode_as as_delta pk bytes f of
        Inl _ \<Rightarrow> None
      | Inr d \<Rightarrow> if d_seq d \<noteq> s_seq s + 1 then None
                else replay_tail pk bytes fs (delta_apply d s) (Some (d_at d)))"

definition checkpoint_taken_at :: "packing \<Rightarrow> byte list \<Rightarrow> run_spec \<Rightarrow> run_state \<Rightarrow> frame_ref \<Rightarrow> int option" where
  "checkpoint_taken_at pk bytes spec s chk =
     (if s_seq s = 0 then Some (spec_created_at spec)
      else case frame_before pk bytes (f_offset chk) of
        Inl _ \<Rightarrow> None
      | Inr f \<Rightarrow>
          if f_kind f \<noteq> DeltaFrame then None
          else case decode_as as_delta pk bytes f of
            Inl _ \<Rightarrow> None
          | Inr d \<Rightarrow> if d_seq d = s_seq s then Some (d_at d) else None)"

definition from_ends :: "packing \<Rightarrow> byte list \<Rightarrow> run_file_tail option" where
  "from_ends pk bytes =
     (case frame_at pk bytes HEADER_LEN of
        Inl _ \<Rightarrow> None
      | Inr first \<Rightarrow>
          if f_kind first \<noteq> SpecFrame then None
          else case decode_as as_spec pk bytes first of
            Inl _ \<Rightarrow> None
          | Inr spec \<Rightarrow>
              (case walk_back pk bytes (frame_end first) (length bytes) [] of
                 None \<Rightarrow> None
               | Some (chk, after) \<Rightarrow>
                   (case decode_as as_state pk bytes chk of
                      Inl _ \<Rightarrow> None
                    | Inr state \<Rightarrow>
                        (case replay_tail pk bytes (rev after) state None of
                           None \<Rightarrow> None
                         | Some (s, updated) \<Rightarrow>
                             (case (case updated of Some u \<Rightarrow> Some u
                                    | None \<Rightarrow> checkpoint_taken_at pk bytes spec s chk) of
                                None \<Rightarrow> None
                              | Some u \<Rightarrow> Some \<lparr>rt_spec = spec, rt_state = s, rt_updated_at = u\<rparr>)))))"

text \<open>What the whole reader says of the same run. A step that does not decode counts as none.\<close>

definition tail_of :: "packing \<Rightarrow> run_reader \<Rightarrow> run_file_error + run_file_tail" where
  "tail_of pk r =
     (case latest_state pk r of
        Inl e \<Rightarrow> Inl e
      | Inr s \<Rightarrow>
          let ds = deltas_between pk r (s_seq s) (s_seq s);
              updated = (if ds \<noteq> [] \<and> list_all (\<lambda>x. \<not> isl x) ds then d_at (projr (last ds))
                         else spec_created_at (rd_spec r))
          in Inr \<lparr>rt_spec = rd_spec r, rt_state = s, rt_updated_at = updated\<rparr>)"

definition from_whole :: "packing \<Rightarrow> byte list \<Rightarrow> run_file_error + run_file_tail" where
  "from_whole pk bytes =
     (case from_ends pk bytes of
        Some t \<Rightarrow> Inr t
      | None \<Rightarrow> (case read_file pk bytes of Inl e \<Rightarrow> Inl e | Inr r \<Rightarrow> tail_of pk r))"

subsection \<open>Walking back over a log\<close>

lemma log_frame_at:
  assumes "packing_ok pk (ps @ p # qs)"
  shows "frame_at pk (log_bytes pk (ps @ p # qs)) (length (log_bytes pk ps)) =
     Inr (ref_at pk (length (log_bytes pk ps)) p) \<and>
     frame_before pk (log_bytes pk (ps @ p # qs)) (length (log_bytes pk (ps @ [p]))) =
     Inr (ref_at pk (length (log_bytes pk ps)) p) \<and>
     decode_frame pk (log_bytes pk (ps @ p # qs)) (ref_at pk (length (log_bytes pk ps)) p) = Inr p"
proof -
  let ?k = "fst (framed pk p)" and ?b = "snd (framed pk p)"
  have B: "log_bytes pk (ps @ p # qs) = log_bytes pk ps @ frame_bytes pk ?k ?b @ frames_bytes pk (map (framed pk) qs)"
    by (cases "framed pk p") (simp add: log_bytes_append)
  have ok: "payload_ok pk p" "zstd_law pk" "length (fingerprint pk) = 32"
    using assms by (simp_all add: packing_ok_def)
  then have "length ?b < 2 ^ 32" by (simp add: payload_ok_def)
  from frame_at_frame [OF this, of pk "log_bytes pk ps" ?k]
  have at: "frame_at pk (log_bytes pk (ps @ p # qs)) (length (log_bytes pk ps)) =
      Inr (ref_at pk (length (log_bytes pk ps)) p)"
    by (simp add: B ref_at_def framed_def)
  have "frame_end (ref_at pk (length (log_bytes pk ps)) p) = length (log_bytes pk (ps @ [p]))"
    by (cases "framed pk p") (simp add: log_bytes_append frame_end_def ref_at_def FRAME_OVERHEAD_def)
  moreover have "HEADER_LEN \<le> length (log_bytes pk ps)"
    using header_length [OF ok(3)] by (simp add: log_bytes_def)
  ultimately have "frame_before pk (log_bytes pk (ps @ p # qs)) (length (log_bytes pk (ps @ [p]))) =
      Inr (ref_at pk (length (log_bytes pk ps)) p)"
    using frame_before_end [OF at] by simp
  moreover have "decode_frame pk (log_bytes pk (ps @ p # qs)) (ref_at pk (length (log_bytes pk ps)) p) = Inr p"
    using decode_holds [OF _ ok(1,2)] holds_frame [of pk "log_bytes pk ps" p "frames_bytes pk (map (framed pk) qs)"]
    by (simp add: B)
  ultimately show ?thesis using at by simp
qed

lemma frames_len_pos: "fs \<noteq> [] \<Longrightarrow> 0 < frames_len fs"
  by (cases fs) (auto simp: FRAME_OVERHEAD_def)

lemma log_length_mono: "qs \<noteq> [] \<Longrightarrow> length (log_bytes pk ps) < length (log_bytes pk (ps @ qs))"
  by (simp add: log_bytes_append frames_len_pos)

text \<open>The steps after the last checkpoint, with the frames that hold them.\<close>

fun delta_refs :: "packing \<Rightarrow> nat \<Rightarrow> payload list \<Rightarrow> frame_ref list" where
  "delta_refs pk i [] = []"
| "delta_refs pk i (p # ps) =
     (if payload_kind p = DeltaFrame then [ref_at pk i p] else []) @
     delta_refs pk (i + length (snd (framed pk p)) + FRAME_OVERHEAD) ps"

lemma delta_refs_snoc:
  "delta_refs pk i (ps @ [p]) = delta_refs pk i ps @
     (if payload_kind p = DeltaFrame then [ref_at pk (i + frames_len (map (framed pk) ps)) p] else [])"
proof (induction pk i ps rule: delta_refs.induct)
  case (2 pk i q ps)
  then show ?case by (cases "framed pk q") (simp add: algebra_simps)
qed simp

lemma walk_back_log:
  assumes "packing_ok pk (pre @ suf @ post)" and "\<forall>p \<in> set suf. payload_kind p \<noteq> StateFrame"
    and "front \<le> length (log_bytes pk pre)"
  shows "walk_back pk (log_bytes pk (pre @ suf @ post)) front (length (log_bytes pk (pre @ suf))) after =
     walk_back pk (log_bytes pk (pre @ suf @ post)) front (length (log_bytes pk pre))
       (after @ rev (delta_refs pk (length (log_bytes pk pre)) suf))"
  using assms(1,2)
proof (induction suf arbitrary: after post rule: rev_induct)
  case (snoc p suf)
  let ?B = "log_bytes pk (pre @ (suf @ [p]) @ post)"
  have split: "pre @ (suf @ [p]) @ post = (pre @ suf) @ p # post" by simp
  have before: "frame_before pk ?B (length (log_bytes pk (pre @ suf @ [p]))) =
      Inr (ref_at pk (length (log_bytes pk (pre @ suf))) p)"
    using log_frame_at [of pk "pre @ suf" p post] snoc.prems(1) by simp
  have "front < length (log_bytes pk (pre @ suf @ [p]))"
    using assms(3) log_length_mono [of "suf @ [p]" pk pre] by simp
  moreover have "f_offset (ref_at pk i p) = i" "f_kind (ref_at pk i p) = payload_kind p" for i
    by (simp_all add: ref_at_def)
  ultimately have "walk_back pk ?B front (length (log_bytes pk (pre @ suf @ [p]))) after =
      walk_back pk ?B front (length (log_bytes pk (pre @ suf)))
        (after @ (if payload_kind p = DeltaFrame then [ref_at pk (length (log_bytes pk (pre @ suf))) p] else []))"
    using before snoc.prems(2)
    by (subst walk_back.simps) (auto split: frame_kind.splits)
  also have "\<dots> = walk_back pk ?B front (length (log_bytes pk pre))
      (after @ rev (delta_refs pk (length (log_bytes pk pre)) (suf @ [p])))"
    using snoc.IH [of "p # post"] snoc.prems
    by (simp add: delta_refs_snoc log_bytes_append)
  finally show ?case .
qed simp

lemma delta_refs_decode:
  assumes "packing_ok pk (pre @ suf @ post)"
  shows "map (decode_as as_delta pk (log_bytes pk (pre @ suf @ post)))
      (delta_refs pk (length (log_bytes pk pre)) suf) = map Inr (deltas_of suf)"
  using assms
proof (induction suf arbitrary: pre)
  case (Cons p suf)
  have "decode_frame pk (log_bytes pk (pre @ p # suf @ post)) (ref_at pk (length (log_bytes pk pre)) p) = Inr p"
    using log_frame_at [of pk pre p "suf @ post"] Cons.prems by simp
  moreover have "length (log_bytes pk (pre @ [p])) =
      length (log_bytes pk pre) + length (snd (framed pk p)) + FRAME_OVERHEAD"
    by (cases "framed pk p") (simp add: log_bytes_append)
  moreover have "(payload_kind p = DeltaFrame) = (\<exists>d. p = PDelta d)" by (cases p) auto
  ultimately show ?case
    using Cons.IH [of "pre @ [p]"] Cons.prems
    by (cases p) (auto simp: decode_as_def map_filter_simps)
qed (simp add: map_filter_simps)

lemma replay_tail_steps:
  assumes "map (decode_as as_delta pk bytes) fs = map Inr ds"
    and "\<forall>k < length ds. d_seq (ds ! k) = s_seq s + Suc k"
  shows "replay_tail pk bytes fs s u =
    Some (fold delta_apply ds s, if ds = [] then u else Some (d_at (last ds)))"
  using assms
proof (induction fs arbitrary: ds s u)
  case (Cons f fs)
  then obtain d ds' where ds: "ds = d # ds'" "decode_as as_delta pk bytes f = Inr d"
    "map (decode_as as_delta pk bytes) fs = map Inr ds'" by auto
  have d: "d_seq d = s_seq s + 1" using Cons.prems(2) ds(1) by force
  have "d_seq (ds' ! k) = s_seq (delta_apply d s) + Suc k" if "k < length ds'" for k
    using Cons.prems(2) [rule_format, of "Suc k"] that d ds(1) by simp
  with Cons.IH [OF ds(3)] ds d show ?case by simp
qed simp

inductive_cases log_cases: "run_log sp ps h"

lemma log_last_state: "run_log sp (ps @ [PState s]) h \<Longrightarrow> s = last h"
  by (erule log_cases) auto

text \<open>A log, split at its last checkpoint.\<close>

lemma log_split:
  assumes "run_log sp ps h"
  obtains pre s suf where "ps = pre @ PState s # suf" and "pre \<noteq> []" and "hd pre = PSpec sp"
    and "\<forall>p \<in> set suf. payload_kind p \<noteq> StateFrame" and "s = h ! length (deltas_of pre)"
    and "deltas_of ps = deltas_of pre @ deltas_of suf"
proof -
  have "\<exists>p \<in> set ps. state_of p \<noteq> None"
    using log_shape [OF assms] by (auto simp: List.map_filter_def filter_empty_conv)
  then obtain pre p suf where ps: "ps = pre @ p # suf" and p: "state_of p \<noteq> None"
    and suf: "\<forall>q \<in> set suf. state_of q = None" using split_list_last_prop [of ps "\<lambda>p. state_of p \<noteq> None"] by blast
  then obtain s where s: "p = PState s" by (cases p) auto
  have "run_log sp ((pre @ [PState s]) @ suf) h" using assms ps s by simp
  from log_prefix [OF this] have "run_log sp (pre @ [PState s]) (take (Suc (length (deltas_of (pre @ [PState s])))) h)"
    by (simp add: List.map_filter_def)
  note prefix = this log_last_state [OF this] log_shape [OF this]
  have D: "deltas_of (pre @ [PState s]) = deltas_of pre" by (simp add: List.map_filter_def)
  let ?n = "length (deltas_of pre)"
  have "length (take (Suc ?n) h) = Suc ?n" using prefix(3) unfolding D by blast
  then have "?n < length h" by simp
  with prefix(2) have "s = h ! ?n" by (simp add: D take_Suc_conv_app_nth)
  moreover have "pre \<noteq> [] \<and> hd pre = PSpec sp"
    using prefix(3) by (cases pre) auto
  moreover have "\<forall>q \<in> set suf. payload_kind q \<noteq> StateFrame"
  proof
    fix q assume "q \<in> set suf"
    with suf have "state_of q = None" by blast
    then show "payload_kind q \<noteq> StateFrame" by (cases q) auto
  qed
  moreover have "deltas_of ps = deltas_of pre @ deltas_of suf"
    by (simp add: ps s List.map_filter_def)
  ultimately show thesis using that [of pre s suf] ps s by simp
qed

lemma tail_of_log:
  assumes "run_log sp ps h" and "packing_ok pk ps"
  shows "\<exists>r. read_file pk (log_bytes pk ps) = Inr r \<and>
     tail_of pk r = Inr \<lparr>rt_spec = sp, rt_state = last h,
       rt_updated_at = (if deltas_of ps = [] then spec_created_at sp else d_at (last (deltas_of ps)))\<rparr>"
proof -
  note scans = scans_whole [OF assms(2)]
  from log_index [OF assms scans] obtain r sfs dfs where r: "read_file pk (log_bytes pk ps) = Inr r"
    "rd_spec r = sp" and dl: "rd_deltas r = map (\<lambda>(d, f). (d_seq d, f)) dfs" "map fst dfs = deltas_of ps"
      "\<forall>(d, f) \<in> set dfs. decode_as as_delta pk (rd_bytes r) f = Inr d" by blast
  from log_read [OF assms scans] r(1) have reads: "reads_as pk r sp h" by auto
  from log_shape [OF assms(1)] have ne: "h \<noteq> []" and len: "length h = Suc (length (deltas_of ps))" by auto
  have seqs: "s_seq (last h) = s_seq (hd h) + length (deltas_of ps)"
    using log_seqs [OF assms(1), of "length (deltas_of ps)"] len ne by (simp add: last_conv_nth)
  have latest: "latest_state pk r = Inr (last h)"
    using reads ne len seqs by (simp add: latest_state_def reads_as_def last_conv_nth)
  have lenD: "length dfs = length (deltas_of ps)" by (metis dl(2) length_map)
  have seqD: "\<forall>k < length dfs. d_seq (fst (dfs ! k)) = s_seq (hd h) + Suc k"
    using log_deltas [OF assms(1)] lenD by (metis dl(2) nth_map)
  let ?n = "length dfs"
  have "map snd (filter (\<lambda>(s, _). s_seq (last h) \<le> s \<and> s \<le> s_seq (last h)) (rd_deltas r)) =
      map snd (filter (\<lambda>(d, f). s_seq (hd h) + (?n - 1) < d_seq d \<and> d_seq d \<le> s_seq (hd h) + ?n) dfs)"
  proof -
    have "(s_seq (last h) \<le> d_seq (fst x) \<and> d_seq (fst x) \<le> s_seq (last h)) =
        (s_seq (hd h) + (?n - 1) < d_seq (fst x) \<and> d_seq (fst x) \<le> s_seq (hd h) + ?n)"
      if "x \<in> set dfs" for x
    proof -
      from that have "?n \<noteq> 0" by auto
      then obtain m where "?n = Suc m" by (cases ?n) auto
      then show ?thesis using seqs lenD by auto
    qed
    then show ?thesis
      by (auto simp: dl(1) filter_map comp_def case_prod_unfold intro!: arg_cong [of _ _ "map snd"] filter_cong)
  qed
  also have "\<dots> = map snd (drop (?n - 1) dfs)"
    using steps_between [OF seqD order_refl] by simp
  finally have "map (\<lambda>(_, f). decode_as as_delta pk (rd_bytes r) f)
      (filter (\<lambda>(s, _). s_seq (last h) \<le> s \<and> s \<le> s_seq (last h)) (rd_deltas r)) =
      map (\<lambda>(_, f). decode_as as_delta pk (rd_bytes r) f) (drop (?n - 1) dfs)"
    by (simp add: case_prod_unfold flip: map_map [of "decode_as as_delta pk (rd_bytes r)" snd, unfolded comp_def])
  also have "\<dots> = map (Inr \<circ> fst) (drop (?n - 1) dfs)"
    using dl(3) by (auto dest!: in_set_dropD)
  finally have ds: "deltas_between pk r (s_seq (last h)) (s_seq (last h)) = map (Inr \<circ> fst) (drop (?n - 1) dfs)"
    by (simp add: deltas_between_def)
  have "tail_of pk r = Inr \<lparr>rt_spec = sp, rt_state = last h,
      rt_updated_at = (if deltas_of ps = [] then spec_created_at sp else d_at (last (deltas_of ps)))\<rparr>"
  proof (cases dfs rule: rev_cases)
    case Nil
    then show ?thesis using dl(2) ds latest r(2) by (simp add: tail_of_def Let_def)
  next
    case (snoc dfs' df)
    then have "deltas_of ps = map fst dfs' @ [fst df]" using dl(2) by auto
    then show ?thesis using snoc ds latest r(2) by (simp add: tail_of_def Let_def)
  qed
  with r(1) show ?thesis by blast
qed

text \<open>What the two ends say of a log: all there is to say, but for the time of a bare checkpoint.\<close>

lemma from_ends_value:
  assumes "run_log sp ps h" and "packing_ok pk ps"
  obtains pre s suf where "ps = pre @ PState s # suf" and "pre \<noteq> []" and "\<forall>p \<in> set suf. payload_kind p \<noteq> StateFrame"
    and "deltas_of ps = deltas_of pre @ deltas_of suf"
    and "from_ends pk (log_bytes pk ps) = map_option (\<lambda>u. \<lparr>rt_spec = sp, rt_state = last h, rt_updated_at = u\<rparr>)
      (if deltas_of suf \<noteq> [] then Some (d_at (last (deltas_of suf)))
       else checkpoint_taken_at pk (log_bytes pk ps) sp (last h) (ref_at pk (length (log_bytes pk pre)) (PState s)))"
proof -
  let ?B = "log_bytes pk ps"
  from assms(1) obtain pre s suf where ps: "ps = pre @ PState s # suf" and pre: "pre \<noteq> []" "hd pre = PSpec sp"
    and suf: "\<forall>p \<in> set suf. payload_kind p \<noteq> StateFrame" and s: "s = h ! length (deltas_of pre)"
    and D: "deltas_of ps = deltas_of pre @ deltas_of suf" by (rule log_split)
  let ?i = "length (log_bytes pk pre)"
  from log_shape [OF assms(1)] have ne: "h \<noteq> []" and len: "length h = Suc (length (deltas_of ps))" by auto
  \<comment> \<open>the spec at the front\<close>
  obtain pre' where pre': "pre = PSpec sp # pre'" using pre by (cases pre) auto
  have H: "length (log_bytes pk []) = HEADER_LEN"
    using assms(2) by (simp add: log_bytes_def packing_ok_def header_length)
  have first: "frame_at pk ?B HEADER_LEN = Inr (ref_at pk HEADER_LEN (PSpec sp))"
    "decode_frame pk ?B (ref_at pk HEADER_LEN (PSpec sp)) = Inr (PSpec sp)"
    using log_frame_at [of pk "[]" "PSpec sp" "pre' @ PState s # suf"] assms(2) H ps pre' by simp_all
  have front: "frame_end (ref_at pk HEADER_LEN (PSpec sp)) \<le> ?i"
    using H by (cases "framed pk (PSpec sp)")
      (simp add: pre' log_bytes_def frame_end_def ref_at_def FRAME_OVERHEAD_def)
  \<comment> \<open>the walk back to the last checkpoint\<close>
  have chk: "frame_before pk ?B (length (log_bytes pk (pre @ [PState s]))) = Inr (ref_at pk ?i (PState s))"
    "decode_frame pk ?B (ref_at pk ?i (PState s)) = Inr (PState s)"
    using log_frame_at [of pk pre "PState s" suf] assms(2) ps by simp_all
  have "?i < length (log_bytes pk (pre @ [PState s]))" by (rule log_length_mono) simp
  with front have lt: "frame_end (ref_at pk HEADER_LEN (PSpec sp)) < length (log_bytes pk (pre @ [PState s]))"
    by simp
  let ?refs = "delta_refs pk (length (log_bytes pk (pre @ [PState s]))) suf"
  have kind: "f_kind (ref_at pk ?i (PState s)) = StateFrame" by (simp add: ref_at_def)
  have walk: "walk_back pk ?B (frame_end (ref_at pk HEADER_LEN (PSpec sp))) (length ?B) [] =
      Some (ref_at pk ?i (PState s), rev ?refs)"
    using walk_back_log [of pk "pre @ [PState s]" suf "[]" _ "[]"] suf assms(2) lt
    by (subst (asm) (2) walk_back.simps) (simp add: ps chk(1) [unfolded ps] kind)
  \<comment> \<open>the steps after it\<close>
  have decs: "map (decode_as as_delta pk ?B) ?refs = map Inr (deltas_of suf)"
    using delta_refs_decode [of pk "pre @ [PState s]" suf "[]"] assms(2) ps by simp
  let ?n = "length (deltas_of pre)"
  have n: "?n < length h" using len D by simp
  have "\<forall>k < length (deltas_of suf). d_seq (deltas_of suf ! k) = s_seq s + Suc k"
  proof (intro allI impI)
    fix k assume k: "k < length (deltas_of suf)"
    have "deltas_of ps ! (?n + k) = deltas_of suf ! k" by (simp add: D)
    with k log_deltas [OF assms(1), of "?n + k"] log_seqs [OF assms(1) n] s
    show "d_seq (deltas_of suf ! k) = s_seq s + Suc k" by (simp add: D)
  qed
  note replay = replay_tail_steps [OF decs this]
  have "fold delta_apply (drop ?n (take (length (deltas_of ps)) (deltas_of ps))) (h ! ?n) = h ! length (deltas_of ps)"
    by (rule log_replay [OF assms(1)]) (simp_all add: D)
  then have reach: "fold delta_apply (deltas_of suf) s = last h"
    using len ne by (simp add: D s last_conv_nth)
  have kind0: "f_kind (ref_at pk HEADER_LEN (PSpec sp)) = SpecFrame" by (simp add: ref_at_def)
  have "from_ends pk ?B =
    (case (case if deltas_of suf = [] then None else Some (d_at (last (deltas_of suf))) of
       Some u \<Rightarrow> Some u | None \<Rightarrow> checkpoint_taken_at pk ?B sp (last h) (ref_at pk ?i (PState s))) of
       None \<Rightarrow> None | Some u \<Rightarrow> Some \<lparr>rt_spec = sp, rt_state = last h, rt_updated_at = u\<rparr>)"
    by (simp add: from_ends_def first kind0 decode_as_def walk chk(2) replay [of None, unfolded reach] del: not_None_eq)
  then have "from_ends pk ?B = map_option (\<lambda>u. \<lparr>rt_spec = sp, rt_state = last h, rt_updated_at = u\<rparr>)
      (if deltas_of suf \<noteq> [] then Some (d_at (last (deltas_of suf)))
       else checkpoint_taken_at pk ?B sp (last h) (ref_at pk ?i (PState s)))"
    by (auto split: option.split)
  with ps pre(1) suf D show thesis using that by blast
qed

text \<open>When the last checkpoint was written: with the step before it, if it was not the first.\<close>

lemma checkpoint_taken_log:
  assumes "run_log sp ps h" and "packing_ok pk ps" and "ps = pre @ PState s # suf" and "deltas_of suf = []" and "pre \<noteq> []"
  shows "checkpoint_taken_at pk (log_bytes pk ps) sp (last h) (ref_at pk (length (log_bytes pk pre)) (PState s)) =
    (if s_seq (last h) = 0 then Some (spec_created_at sp)
     else case last pre of PDelta d \<Rightarrow> if d_seq d = s_seq (last h) then Some (d_at d) else None | _ \<Rightarrow> None)"
proof -
  let ?B = "log_bytes pk ps"
  obtain pre2 p where pre2: "pre = pre2 @ [p]" using assms(5) by (cases pre rule: rev_cases) auto
  have prev: "frame_before pk ?B (length (log_bytes pk pre)) = Inr (ref_at pk (length (log_bytes pk pre2)) p)"
    "decode_frame pk ?B (ref_at pk (length (log_bytes pk pre2)) p) = Inr p"
    using log_frame_at [of pk pre2 p "PState s # suf"] assms(2,3) pre2 by simp_all
  have "f_offset (ref_at pk i (PState s)) = i" "f_kind (ref_at pk j p) = payload_kind p" for i j
    by (simp_all add: ref_at_def)
  with prev show ?thesis by (cases p) (simp_all add: checkpoint_taken_at_def decode_as_def pre2)
qed

text \<open>A checkpoint other than the first is written behind the step it holds the state of.\<close>

definition checkpoints_follow :: "payload list \<Rightarrow> bool" where
  "checkpoints_follow ps \<longleftrightarrow> (\<forall>pre s suf. ps = pre @ PState s # suf \<longrightarrow>
     deltas_of pre = [] \<or> (\<exists>d. last pre = PDelta d))"

lemma checkpoints_follow_prefix: "checkpoints_follow ps \<Longrightarrow> prefix qs ps \<Longrightarrow> checkpoints_follow qs"
  unfolding checkpoints_follow_def prefix_def by (metis append.assoc append_Cons)

text \<open>So the two ends answer for every such log that has a step in it or starts at none.\<close>

lemma from_ends_log:
  assumes "run_log sp ps h" and "packing_ok pk ps" and "checkpoints_follow ps"
  shows "from_ends pk (log_bytes pk ps) =
    (if s_seq (hd h) = 0 \<or> 1 < length h
     then Some \<lparr>rt_spec = sp, rt_state = last h,
       rt_updated_at = (if deltas_of ps = [] then spec_created_at sp else d_at (last (deltas_of ps)))\<rparr>
     else None)"
proof -
  from log_shape [OF assms(1)] have ne: "h \<noteq> []" and len: "length h = Suc (length (deltas_of ps))" by auto
  have last_seq: "s_seq (last h) = s_seq (hd h) + length (deltas_of ps)"
    using log_seqs [OF assms(1), of "length (deltas_of ps)"] len ne by (simp add: last_conv_nth)
  from assms(1,2) obtain pre s suf where ps: "ps = pre @ PState s # suf" "pre \<noteq> []"
    and D: "deltas_of ps = deltas_of pre @ deltas_of suf"
    and ends: "from_ends pk (log_bytes pk ps) = map_option (\<lambda>u. \<lparr>rt_spec = sp, rt_state = last h, rt_updated_at = u\<rparr>)
      (if deltas_of suf \<noteq> [] then Some (d_at (last (deltas_of suf)))
       else checkpoint_taken_at pk (log_bytes pk ps) sp (last h) (ref_at pk (length (log_bytes pk pre)) (PState s)))"
    by (rule from_ends_value)
  show ?thesis
  proof (cases "deltas_of suf = []")
    case False
    then show ?thesis using ends D len by simp
  next
    case none: True
    note taken = checkpoint_taken_log [OF assms(1,2) ps(1) none ps(2)]
    show ?thesis
    proof (cases "deltas_of pre = []")
      case True
      have "(case last pre of PDelta d \<Rightarrow> if d_seq d = s_seq (last h) then Some (d_at d) else None | _ \<Rightarrow> None) = (None :: int option)"
      proof (cases "last pre")
        case (PDelta d)
        then obtain pre2 where "pre = pre2 @ [PDelta d]" using ps(2) by (cases pre rule: rev_cases) auto
        with True show ?thesis by (simp add: List.map_filter_def)
      qed simp_all
      then show ?thesis using ends taken none D True last_seq len by simp
    next
      case False
      then obtain d where "last pre = PDelta d" using assms(3) ps(1) by (auto simp: checkpoints_follow_def)
      moreover from this obtain pre2 where pre2: "pre = pre2 @ [PDelta d]"
        using ps(2) by (cases pre rule: rev_cases) auto
      then have D2: "deltas_of pre = deltas_of pre2 @ [d]" by (simp add: List.map_filter_def)
      moreover have "d_seq d = s_seq (last h)"
        using log_deltas [OF assms(1), of "length (deltas_of pre2)"] D D2 none last_seq by simp
      ultimately show ?thesis using ends taken none D last_seq len by simp
    qed
  qed
qed

end
