(* ===== verification/Run_Properties.thy ===== *)
theory Run_Properties
  imports Run_Tail
begin

text \<open>
  What a run file promises: a recorded step replays exactly, frames read back in both
  directions, a cut file reads up to the cut, a file reads as the history that was recorded,
  and a read of its end replays little.
\<close>

subsection \<open>A small run\<close>

text \<open>
  Two states of a run, a codec whose payloads are their kind and step, and a checksum that
  is no zero, to have the properties at.
\<close>

definition ex_context :: context_state where
  "ex_context = \<lparr>cs_regions = [\<lparr>rs_name = ''task'', rs_max_tokens = 100, rs_current_tokens = 0,
     rs_needs_message_compaction = False, rs_taint = None, rs_entries = []\<rparr>],
     cs_hidden = [], cs_max_tokens = 1000\<rparr>"

definition ex_start :: run_state where
  "ex_start = initial_state ''plan'' ex_context False"

definition ex_later :: run_state where
  "ex_later = ex_start\<lparr>s_status := Active, s_visits := [(''plan'', 1)],
     s_context := ex_context\<lparr>cs_hidden := [''task'']\<rparr>\<rparr>"

definition ex_spec :: run_spec where
  "ex_spec = \<lparr>spec_run_id = ''r1'', spec_code = [], spec_created_at = 1000, spec_rest = JNull\<rparr>"

definition ex_pk :: packing where
  "ex_pk = \<lparr>
     to_stdvec = (\<lambda>p. Inr [kind_byte (payload_kind p),
       (case p of PState s \<Rightarrow> of_nat (s_seq s) | PDelta d \<Rightarrow> of_nat (d_seq d) | _ \<Rightarrow> 0)]),
     from_bytes = (\<lambda>k raw. case k of
         StateFrame \<Rightarrow> Inr (PState (if raw = [5, 0] then ex_start else stamped ex_start ex_later))
       | DeltaFrame \<Rightarrow> Inr (PDelta (delta_between ex_start ex_later 1005 []))
       | _ \<Rightarrow> Inr (PSpec ex_spec)),
     take_seq = (\<lambda>raw. if 2 \<le> length raw then Inr (unat (raw ! 1)) else Inl ''short''),
     take_digest = (\<lambda>_. Inl ''none''),
     zstd_compress = (\<lambda>raw. raw), zstd_size = (\<lambda>_. None), zstd_read = (\<lambda>n raw. Inr (take n raw)),
     crc32 = (\<lambda>_. 0xFFFFFFFF), fingerprint = replicate 32 7\<rparr>"

lemma ex_recordable: "recordable ex_start" "recordable ex_later"
  by (simp_all add: recordable_def regions_distinct_def ex_start_def ex_later_def initial_state_def ex_context_def)

lemma ex_payloads:
  "payload_ok ex_pk (PSpec ex_spec)" "payload_ok ex_pk (PState ex_start)"
  "payload_ok ex_pk (PDelta (delta_between ex_start ex_later 1005 []))"
  "payload_ok ex_pk (PState (stamped ex_start ex_later))"
  by (simp_all add: payload_ok_def raw_of_def ex_pk_def leading_law_def framed_def MAX_PAYLOAD_def
      PEEK_BYTES_def delta_between_def stamped_def ex_start_def initial_state_def)

lemma ex_packing: "packing_ok ex_pk (PSpec ex_spec # map PCode [] @ [PState ex_start])"
  using ex_payloads by (simp add: packing_ok_def zstd_law_def ex_pk_def)

lemma ex_differs: "\<not> (ex_later = ex_start\<lparr>s_seq := s_seq ex_later\<rparr>)"
proof
  assume "ex_later = ex_start\<lparr>s_seq := s_seq ex_later\<rparr>"
  then have "s_status ex_later = s_status (ex_start\<lparr>s_seq := s_seq ex_later\<rparr>)" by (rule arg_cong)
  then show False by (simp add: ex_later_def ex_start_def initial_state_def)
qed

definition ex_log :: "payload list" where
  "ex_log = [PSpec ex_spec, PState ex_start, PDelta (delta_between ex_start ex_later 1005 [])]"

lemma ex_session:
  "\<exists>w. session ex_pk default_policy ex_spec 0 w (PSpec ex_spec # map PCode [] @ [PState ex_start]) [ex_start]
     \<and> wr_state w = ex_start"
proof -
  from create_log [OF ex_packing, of default_policy] obtain w where
    "create ex_pk None ex_spec [] ex_start default_policy = Inr w" "wr_state w = ex_start"
    by (auto simp: writer_log_def)
  with created [OF ex_packing ex_recordable(1)] show ?thesis by blast
qed

lemma whole_len: "whole pk bytes offset = Some (b, len) \<Longrightarrow> u32_at bytes (offset + 1) = Some len"
  by (auto simp: whole_def Let_def split: if_splits option.splits)

lemma short_hides_none:
  "a \<in> {1, 4, 5} \<Longrightarrow> c \<in> {0, 1} \<Longrightarrow> hides_none ex_pk (k, [a, c])"
proof -
  assume a: "a \<in> {1, 4, 5}" and c: "c \<in> {0, 1}"
  let ?F = "frame_bytes ex_pk k [a, c]"
  have F: "?F = [kind_byte k, 2, 0, 0, 0, a, c, 0xFF, 0xFF, 0xFF, 0xFF, 2, 0, 0, 0]"
    by (simp add: frame_bytes_def ex_pk_def le32_def)
  have "whole ex_pk ?F i = None" if "1 \<le> i" for i
  proof (rule ccontr)
    assume "whole ex_pk ?F i \<noteq> None"
    then obtain b len where w: "whole ex_pk ?F i = Some (b, len)" by auto
    from whole_bound [OF w] that have short: "i = 1 \<or> i = 2" "len \<le> 1"
      by (auto simp: F FRAME_OVERHEAD_def)
    with whole_len [OF w] a c show False
      by (auto simp: F u32_at_def get_range_def of_le32_def unat_eq_0)
  qed
  then show ?thesis by (simp add: hides_none_def Let_def)
qed

lemma ex_hides:
  "hides_none ex_pk (framed ex_pk (PSpec ex_spec))" "hides_none ex_pk (framed ex_pk (PState ex_start))"
  "hides_none ex_pk (framed ex_pk (PDelta (delta_between ex_start ex_later 1005 [])))"
proof -
  have "framed ex_pk (PSpec ex_spec) = (SpecFrame, [1, 0])"
    "framed ex_pk (PState ex_start) = (StateFrame, [5, 0])"
    "framed ex_pk (PDelta (delta_between ex_start ex_later 1005 [])) = (DeltaFrame, [4, 1])"
    by (simp_all add: framed_def raw_of_def ex_pk_def delta_between_def ex_start_def initial_state_def)
  then show "hides_none ex_pk (framed ex_pk (PSpec ex_spec))"
    "hides_none ex_pk (framed ex_pk (PState ex_start))"
    "hides_none ex_pk (framed ex_pk (PDelta (delta_between ex_start ex_later 1005 [])))"
    by (simp_all add: short_hides_none)
qed

lemma kept_log_longest:
  assumes "packing_ok pk ps" and "prefix qs ps" and "length (log_bytes pk qs) \<le> m"
  shows "prefix qs (kept_log pk m ps)"
proof -
  from assms(2) obtain rest where ps: "ps = qs @ rest" by (auto simp: prefix_def)
  have "length (header (fingerprint pk)) = HEADER_LEN"
    using assms(1) by (simp add: packing_ok_def header_length)
  with assms(3) have "frames_len (map (framed pk) qs) \<le> m - HEADER_LEN"
    by (simp add: log_bytes_def)
  then have "length qs \<le> length (kept (m - HEADER_LEN) (map (framed pk) ps))"
    by (simp add: ps kept_append)
  then show ?thesis by (simp add: kept_log_def ps)
qed

lemma log_tail_read:
  assumes "run_log sp ps h" and "packing_ok pk ps"
  shows "\<exists>r. read_file pk (log_bytes pk ps) = Inr r \<and>
     last_seq r = fst (last_checkpoint r) + length (tail_deltas ps)"
proof -
  note scans = scans_whole [OF assms(2)]
  from log_read [OF assms scans] obtain r where r: "read_file pk (log_bytes pk ps) = Inr r"
    and "last_seq r = s_seq (last h)" by (auto simp: reads_as_def)
  moreover from log_index [OF assms scans] r obtain sfs :: "(run_state \<times> frame_ref) list" where
    sfs: "rd_states r = map (\<lambda>(s, f). (s_seq s, f)) sfs" "map fst sfs = states_of ps" by auto
  moreover have ne: "sfs \<noteq> []" using sfs(2) log_shape [OF assms(1)] by auto
  then have "fst (last_checkpoint r) = s_seq (last (states_of ps))"
    by (simp add: last_checkpoint_def sfs(1) last_map case_prod_beta flip: sfs(2))
  ultimately show ?thesis using tail_seq [OF assms(1)] by simp
qed

subsection \<open>Steps\<close>

text \<open>
  C7: a recorded step replays exactly. Between any two states of a run, whatever changed
  (regions added, removed, reordered, appended to or rewritten, a ledger grown or cut, any
  other field), applying the recorded delta to the first gives the second, numbered one step
  on; and the delta is empty exactly when nothing changed and nothing happened.
\<close>

theorem step_replays_exactly:
  assumes "recordable p" and "recordable n"
  shows "delta_apply (delta_between p n now evs) p = n\<lparr>s_seq := s_seq p + 1\<rparr> \<and>
         (delta_is_empty (delta_between p n now evs) \<longleftrightarrow> evs = [] \<and> n = p\<lparr>s_seq := s_seq n\<rparr>)"
  using delta_replay [OF assms] delta_empty_iff [OF assms] by (simp add: stamped_def)

theorem step_replays_exactly_witness:
  "delta_apply (delta_between ex_start ex_later 1005 []) ex_start = ex_later\<lparr>s_seq := 1\<rparr> \<and>
   \<not> delta_is_empty (delta_between ex_start ex_later 1005 [])"
  using step_replays_exactly [OF ex_recordable, of 1005 "[]"] ex_differs
  by (simp add: ex_start_def initial_state_def)

text \<open>
  The record of a whole history replays to every state of it. Recording each of a run's
  states against the one before gives as many steps, and replaying the first \<open>k\<close> of them from
  the first state gives the \<open>k\<close>-th, whatever events and times they carry.
\<close>

theorem history_replays:
  assumes "recordable s" and "\<forall>n \<in> set ns. recordable n" and "k \<le> length ns"
  shows "fold delta_apply (take k (recorded (\<lambda>p n. delta_between p n now evs) stamped s ns)) s =
         (s # history stamped s ns) ! k"
  by (rule state_recorder.replay_recorded [OF assms])

theorem history_replays_witness:
  "fold delta_apply (take 2 (recorded (\<lambda>p n. delta_between p n 7 []) stamped ex_start [ex_later, ex_start]))
     ex_start = ex_start\<lparr>s_seq := 2\<rparr>"
  using history_replays [of ex_start "[ex_later, ex_start]" 2 7 "[]"] ex_recordable
  by (simp add: stamped_def ex_start_def initial_state_def)

subsection \<open>Frames\<close>

text \<open>
  C26: frames read back, in both directions. A file of frames whose bodies a 32-bit length
  can name scans to exactly those frames and stops at its end; each frame's reference names
  its own body; and the walk backwards from where each ends finds it again.
\<close>

theorem frames_read_back:
  assumes "fits fs" and "length (header fp) = HEADER_LEN"
  shows "let bytes = header fp @ frames_bytes pk fs; refs = refs_from HEADER_LEN fs in
     scan pk bytes = \<lparr>sc_frames = refs, sc_end = length bytes, sc_stop = StopEnd\<rparr> \<and>
     (\<forall>i < length fs. frame_before pk bytes (frame_end (refs ! i)) = Inr (refs ! i) \<and>
        f_kind (refs ! i) = fst (fs ! i) \<and>
        get_range (f_body (refs ! i)) (f_body (refs ! i) + f_len (refs ! i)) bytes = Some (snd (fs ! i)))"
proof -
  let ?B = "header fp @ frames_bytes pk fs" and ?R = "refs_from HEADER_LEN fs"
  have scan: "scan pk ?B = \<lparr>sc_frames = ?R, sc_end = length ?B, sc_stop = StopEnd\<rparr>"
    using scan_frames_from [OF assms(1), of pk "header fp"] assms(2) by (simp add: scan_def)
  moreover have "frame_before pk ?B (frame_end (?R ! i)) = Inr (?R ! i) \<and> f_kind (?R ! i) = fst (fs ! i) \<and>
      get_range (f_body (?R ! i)) (f_body (?R ! i) + f_len (?R ! i)) ?B = Some (snd (fs ! i))"
    if i: "i < length fs" for i
  proof -
    obtain k body where fi: "fs ! i = (k, body)" by fastforce
    let ?pre = "header fp @ frames_bytes pk (take i fs)"
    have fs: "fs = take i fs @ (k, body) # drop (Suc i) fs" using id_take_nth_drop [OF i] fi by simp
    then have "frames_bytes pk fs = frames_bytes pk (take i fs) @ frame_bytes pk k body @ frames_bytes pk (drop (Suc i) fs)"
      by (metis frames_simps(2,3))
    then have B: "?B = ?pre @ frame_bytes pk k body @ frames_bytes pk (drop (Suc i) fs)" by simp
    have Ri: "?R ! i = \<lparr>f_kind = k, f_offset = length ?pre, f_body = length ?pre + 5, f_len = length body\<rparr>"
      using refs_append [of HEADER_LEN "take i fs" "(k, body) # drop (Suc i) fs"] assms(2) i
      by (simp add: nth_append flip: fs)
    have "length body < 2 ^ 32" using assms(1) fs by (metis frames_simps(8,9))
    from frame_at_frame [OF this, of pk ?pre k] have at: "frame_at pk ?B (length ?pre) = Inr (?R ! i)"
      unfolding B Ri .
    have "HEADER_LEN \<le> length ?pre" using assms(2) by simp
    moreover have "get_range (length ?pre + 5) (length ?pre + 5 + length body) ?B = Some body"
      using get_range_mid [of "?pre @ kind_byte k # le32 (of_nat (length body))" body
        "le32 (crc32 pk (kind_byte k # body)) @
         le32 (of_nat (length body)) @ frames_bytes pk (drop (Suc i) fs)"]
      by (simp add: B frame_bytes_def add.assoc)
    ultimately show ?thesis using frame_before_end [OF at] fi Ri by simp
  qed
  ultimately show ?thesis by (simp add: Let_def)
qed

theorem frames_read_back_witness:
  "scan ex_pk (header (replicate 32 7) @ frames_bytes ex_pk [(SpecFrame, [1, 0]), (StateFrame, [5, 0])]) =
   \<lparr>sc_frames = refs_from 36 [(SpecFrame, [1, 0]), (StateFrame, [5, 0])], sc_end = 66, sc_stop = StopEnd\<rparr>"
  using frames_read_back [where fs = "[(SpecFrame, [1, 0]), (StateFrame, [5, 0])]" and fp = "replicate 32 7"
      and pk = ex_pk]
  by (simp add: Let_def header_def MAGIC_def HEADER_LEN_def FRAME_OVERHEAD_def)

text \<open>
  C29: a cut file reads up to the cut. Cut anywhere after its header, a file of frames scans
  to exactly the frames that end before the cut, no more and no fewer. A cut between two
  frames is the end of the file; any other stops at the first unfinished frame, and counts as
  a torn last write, which a writer may cut off, unless a whole frame lies inside a frame's
  bytes, when it may count as damage at that same frame.
\<close>

theorem cut_reads_up_to_it:
  assumes "fits fs" and "length (header fp) = HEADER_LEN" and "HEADER_LEN \<le> m"
    and "m \<le> length (header fp @ frames_bytes pk fs)"
  shows "let n = HEADER_LEN + frames_len (kept (m - HEADER_LEN) fs);
             sc = scan pk (take m (header fp @ frames_bytes pk fs)) in
     sc_frames sc = refs_from HEADER_LEN (kept (m - HEADER_LEN) fs) \<and> sc_end sc = n \<and> n \<le> m \<and>
     (sc_stop sc = StopEnd \<longleftrightarrow> n = m) \<and>
     (n \<noteq> m \<longrightarrow> sc_stop sc \<in> {StopTorn n, StopCorrupt n}) \<and>
     ((\<forall>f \<in> set fs. hides_none pk f) \<longrightarrow> damage (sc_stop sc) = None)"
proof -
  let ?n = "m - HEADER_LEN"
  have "take m (header fp @ frames_bytes pk fs) = take (length (header fp) + ?n) (header fp @ frames_bytes pk fs)"
    and n: "?n \<le> frames_len fs" using assms(2-4) by simp_all
  moreover have "min HEADER_LEN (length (take m (header fp @ frames_bytes pk fs))) = length (header fp)"
    using assms(2-4) by simp
  ultimately show ?thesis
    using scan_cut_from [OF assms(1) n, of pk "header fp"] assms(2,3) kept_len [of ?n fs]
    by (auto simp: scan_def Let_def damage_def)
qed

theorem cut_reads_up_to_it_witness:
  "sc_stop (scan ex_pk (take 60 (header (replicate 32 7) @
     frames_bytes ex_pk [(SpecFrame, [1, 0]), (StateFrame, [5, 0])]))) = StopTorn 51"
proof -
  have "hides_none ex_pk (SpecFrame, [1, 0])" "hides_none ex_pk (StateFrame, [5, 0])"
    by (simp_all add: short_hides_none)
  with cut_reads_up_to_it [where fs = "[(SpecFrame, [1, 0]), (StateFrame, [5, 0])]" and fp = "replicate 32 7"
      and pk = ex_pk and m = 60]
  show ?thesis by (auto simp: Let_def header_def MAGIC_def HEADER_LEN_def FRAME_OVERHEAD_def damage_def)
qed

subsection \<open>Files\<close>

text \<open>
  C9: a run file is its history. After any steps recorded, writes that failed and were cut
  off, and processes that died and opened the file again, the file reads whole, its reader
  has the spec and every state the run went through at its step number, and the writer goes
  on from the last of them.
\<close>

theorem file_reads_as_its_history:
  assumes "session pk policy sp c w ps h"
  shows "\<exists>r. read_file pk (wr_file w) = Inr r \<and> rd_torn r = 0 \<and> rd_spec r = sp \<and>
     last_seq r = s_seq (last h) \<and> latest_state pk r = Inr (last h) \<and> wr_state w = last h \<and>
     (\<forall>k < length h. s_seq (h ! k) = s_seq (hd h) + k \<and> state_at pk r (s_seq (h ! k)) = Inr (h ! k))"
proof -
  from session_log [OF assms] have log: "run_log sp ps h" "packing_ok pk ps" "wr_file w = log_bytes pk ps"
    "wr_state w = last h" by (simp_all add: writer_log_def)
  from log_read [OF log(1,2) scans_whole [OF log(2)]] obtain r where
    r: "read_file pk (wr_file w) = Inr r" "rd_torn r = 0" "reads_as pk r sp h" by (auto simp: log(3))
  have "h \<noteq> []" using log_shape [OF log(1)] by blast
  then have "latest_state pk r = Inr (last h)"
    using r(3) log_seqs [OF log(1), of "length h - 1"] by (simp add: latest_state_def reads_as_def last_conv_nth)
  with r log log_seqs [OF log(1)] show ?thesis by (auto simp: reads_as_def)
qed

lemma ex_session_step:
  "\<exists>w. session ex_pk default_policy ex_spec 0 w (ex_log @ chk) [ex_start, stamped ex_start ex_later]"
  if "chk = map PState (checkpoint_now ex_pk w0 (delta_between ex_start ex_later 1005 [])
        (Some (stamped ex_start ex_later)))"
    and "session ex_pk default_policy ex_spec 0 w0 (PSpec ex_spec # map PCode [] @ [PState ex_start]) [ex_start]"
    and "wr_state w0 = ex_start" and "wr_owner w0 = None"
  for w0 chk
proof -
  have pays: "recorded_payloads ex_pk w0 ex_later 1005 [] =
      PDelta (delta_between ex_start ex_later 1005 []) # chk"
    using that by (simp add: recorded_payloads_def recorded_step_def step_payloads_def Let_def)
  moreover have "set chk \<subseteq> {PState (stamped ex_start ex_later)}"
    by (auto simp: that(1) checkpoint_now_def split: if_splits)
  ultimately have ok: "list_all (payload_ok ex_pk) (recorded_payloads ex_pk w0 ex_later 1005 [])"
    using ex_payloads by (auto simp: list_all_iff)
  from session_log [OF that(2)] have log: "writer_log ex_pk w0 ex_spec
      (PSpec ex_spec # map PCode [] @ [PState ex_start]) [ex_start]" by blast
  have "recordable (wr_state w0)" using that(3) ex_recordable by simp
  from record_step_wrote [OF log this ex_recordable(2) ok] that(3) ex_differs obtain w1 k where
    "record_step ex_pk Wrote ex_later 1005 [] w0 = (w1, Inr (Some k))" by auto
  from recorded [OF that(2) ex_recordable(2) ok this] show ?thesis
    by (auto simp: pays ex_log_def)
qed

lemma ex_session_one:
  "\<exists>w. session ex_pk default_policy ex_spec 0 w ex_log [ex_start, stamped ex_start ex_later]"
proof -
  from create_log [OF ex_packing, of default_policy] obtain w where
    w: "create ex_pk None ex_spec [] ex_start default_policy = Inr w" "wr_state w = ex_start"
    by (auto simp: writer_log_def)
  moreover from w(1) have own: "wr_owner w = None" by (auto simp: create_def Let_def split: sum.splits)
  note s = created [OF ex_packing ex_recordable(1) w(1)]
  have "checkpoint_now ex_pk w (delta_between ex_start ex_later 1005 [])
      (Some (stamped ex_start ex_later)) = []"
  proof -
    from session_tail [OF s] session_bytes [OF s refl] have "wr_since w = 0" "wr_delta_bytes w = 0"
      "wr_checkpoint_bytes w = 15"
      using tails_start [of 0 ex_spec "[]" ex_start] by (simp_all add: most_steps_def default_policy_def
          tail_len_def checkpoint_len_def List.map_filter_def framed_def raw_of_def ex_pk_def FRAME_OVERHEAD_def)
    moreover have "wr_policy w = default_policy" using session_log [OF s] by blast
    moreover have "\<not> is_finished (stamped ex_start ex_later)"
      by (simp add: is_finished_def stamped_def ex_later_def)
    moreover have "delta_frame_len ex_pk (delta_between ex_start ex_later 1005 []) = 15"
      by (simp add: delta_frame_len_def framed_def raw_of_def ex_pk_def FRAME_OVERHEAD_def)
    ultimately show ?thesis by (simp add: checkpoint_now_def due_def default_policy_def)
  qed
  then show ?thesis using ex_session_step [of "[]" w, OF _ s w(2) own] by simp
qed

theorem file_reads_as_its_history_witness:
  "\<exists>w r. read_file ex_pk (wr_file (w :: run_writer)) = Inr r \<and> state_at ex_pk r 0 = Inr ex_start \<and>
     state_at ex_pk r 1 = Inr (ex_later\<lparr>s_seq := 1\<rparr>)"
proof -
  obtain w where s: "session ex_pk default_policy ex_spec 0 w ex_log [ex_start, stamped ex_start ex_later]"
    using ex_session_one by blast
  have seq: "s_seq ex_start = 0" "s_seq (stamped ex_start ex_later) = 1"
    "stamped ex_start ex_later = ex_later\<lparr>s_seq := 1\<rparr>"
    by (simp_all add: stamped_def ex_start_def initial_state_def)
  from file_reads_as_its_history [OF s] obtain r where r: "read_file ex_pk (wr_file w) = Inr r"
    "\<forall>k < length [ex_start, stamped ex_start ex_later].
       s_seq ([ex_start, stamped ex_start ex_later] ! k) = s_seq (hd [ex_start, stamped ex_start ex_later]) + k \<and>
       state_at ex_pk r (s_seq ([ex_start, stamped ex_start ex_later] ! k)) =
         Inr ([ex_start, stamped ex_start ex_later] ! k)" by blast
  have "state_at ex_pk r 0 = Inr ex_start" using r(2) [rule_format, of 0] seq(1) by simp
  moreover have "state_at ex_pk r 1 = Inr (ex_later\<lparr>s_seq := 1\<rparr>)"
    using r(2) [rule_format, of 1] seq(2,3) by simp
  ultimately show ?thesis using r(1) by (intro exI conjI)
qed


text \<open>
  C8: a crash loses only what was not written. Cut anywhere after its first checkpoint, the
  way a process that dies in the middle of a write leaves it, a run file none of whose frames
  hides a whole frame opens again for writing: the file is left at the longest run of whole frames before the cut, the writer
  stands at the last state recorded there, and the recording goes on from it as before.
\<close>

theorem crash_keeps_the_prefix:
  assumes "session pk policy sp c w ps h" and "\<forall>p \<in> set ps. hides_none pk (framed pk p)"
    and "HEADER_LEN \<le> m" and "m \<le> length (wr_file w)" and "states_of (kept_log pk m ps) \<noteq> []"
  shows "\<exists>w' h'. open_writer pk None None (take m (wr_file w)) policy =
        (log_bytes pk (kept_log pk m ps), Inr w') \<and>
     session pk policy sp (Suc c) w' (kept_log pk m ps) h' \<and>
     prefix h' h \<and> wr_state w' = last h' \<and> wr_file w' = log_bytes pk (kept_log pk m ps) \<and>
     length (wr_file w') \<le> m \<and>
     (\<forall>qs. prefix qs ps \<and> length (log_bytes pk qs) \<le> m \<longrightarrow> prefix qs (kept_log pk m ps))"
proof -
  let ?K = "kept_log pk m ps" and ?h = "take (Suc (length (deltas_of (kept_log pk m ps)))) h"
  from session_log [OF assms(1)] have log: "writer_log pk w sp ps h" by blast
  from cut_writer [OF log assms(2-5)] obtain w' where
    w': "open_writer pk None None (take m (wr_file w)) policy = (log_bytes pk ?K, Inr w')"
      "writer_log pk w' sp ?K ?h" by blast
  have "session pk policy sp (Suc c) w' ?K ?h" by (rule reopened [OF assms w'(1)])
  moreover have "length (log_bytes pk ?K) \<le> m"
    using scans_cut [of pk ps m] assms(2-4) log by (simp add: writer_log_def)
  moreover have "prefix qs ?K" if qs: "prefix qs ps" "length (log_bytes pk qs) \<le> m" for qs
  proof -
    have ok: "packing_ok pk ps" using log by (simp add: writer_log_def)
    show ?thesis using kept_log_longest [OF ok qs] .
  qed
  ultimately show ?thesis
    using w' by (intro exI [of _ w'] exI [of _ ?h]) (auto simp: writer_log_def take_is_prefix)
qed

theorem crash_keeps_the_prefix_witness:
  "\<exists>w w'. open_writer ex_pk None None (take 70 (wr_file (w :: run_writer))) default_policy =
     (log_bytes ex_pk [PSpec ex_spec, PState ex_start], Inr w') \<and> wr_state w' = ex_start"
proof -
  obtain w where s: "session ex_pk default_policy ex_spec 0 w ex_log [ex_start, stamped ex_start ex_later]"
    using ex_session_one by blast
  have len: "length (wr_file w) = 81"
    using session_log [OF s] by (simp add: writer_log_def log_bytes_def header_def MAGIC_def ex_log_def
        framed_def raw_of_def frame_bytes_def ex_pk_def)
  have kept: "kept_log ex_pk 70 ex_log = [PSpec ex_spec, PState ex_start]"
    by (simp add: kept_log_def ex_log_def framed_def raw_of_def ex_pk_def HEADER_LEN_def FRAME_OVERHEAD_def)
  have "\<forall>p \<in> set ex_log. hides_none ex_pk (framed ex_pk p)" using ex_hides by (simp add: ex_log_def)
  from crash_keeps_the_prefix [OF s this, of 70] obtain w' h' where
    w': "open_writer ex_pk None None (take 70 (wr_file w)) default_policy =
        (log_bytes ex_pk [PSpec ex_spec, PState ex_start], Inr w')"
      "session ex_pk default_policy ex_spec (Suc 0) w' [PSpec ex_spec, PState ex_start] h'"
      "prefix h' [ex_start, stamped ex_start ex_later]" "wr_state w' = last h'"
    unfolding kept by (auto simp: len HEADER_LEN_def List.map_filter_def)
  have "run_log ex_spec [PSpec ex_spec, PState ex_start] h'"
    using session_log [OF w'(2)] by (simp add: writer_log_def)
  from log_last_state [of ex_spec "[PSpec ex_spec]" ex_start h'] this w'(4) have "wr_state w' = ex_start" by simp
  with w'(1) show ?thesis by (intro exI conjI)
qed

subsection \<open>Reading\<close>

text \<open>
  C28: a read replays little. Reading the last state of a file replays the steps after its
  last checkpoint: the writer counts exactly those, they stay fewer than the policy's number
  of steps (one more for each time the file was opened again), and in a file never opened
  again their frames are no longer than the policy's share of that checkpoint's.
\<close>

theorem reads_replay_little:
  assumes "session pk policy sp c w ps h" and "most_steps policy + c < 2 ^ 32"
  shows "(\<exists>r. read_file pk (wr_file w) = Inr r \<and>
        last_seq r = fst (last_checkpoint r) + wr_since w) \<and>
     wr_since w < most_steps policy + c \<and>
     (c = 0 \<and> 0 \<le> cp_size_ratio policy \<longrightarrow>
        of_nat (tail_len pk ps) \<le> cp_size_ratio policy * of_nat (checkpoint_len pk ps))"
proof -
  from session_log [OF assms(1)] have log: "run_log sp ps h" "packing_ok pk ps" "wr_file w = log_bytes pk ps"
    by (simp_all add: writer_log_def)
  show ?thesis
    using session_tail [OF assms] session_bytes [OF assms(1)] log_tail_read [OF log(1,2)] log(3) by auto
qed

theorem reads_replay_little_witness:
  "\<exists>w r. read_file ex_pk (wr_file (w :: run_writer)) = Inr r \<and>
     last_seq r = fst (last_checkpoint r) + wr_since w \<and> wr_since w < 64"
proof -
  obtain w where s: "session ex_pk default_policy ex_spec 0 w ex_log [ex_start, stamped ex_start ex_later]"
    using ex_session_one by blast
  from reads_replay_little [OF s] show ?thesis by (auto simp: most_steps_def default_policy_def)
qed

text \<open>In the file of a session every checkpoint but the first follows its step.\<close>

lemma follow_step:
  assumes "checkpoints_follow ps" and "length chk \<le> 1"
  shows "checkpoints_follow (ps @ step_payloads w d chk)"
proof -
  let ?owner = "map POwner (case wr_owner w of Some ow \<Rightarrow> [ow] | None \<Rightarrow> [])"
  have owner: "?owner \<noteq> us @ PState s # suf" for us s suf
  proof
    assume "?owner = us @ PState s # suf"
    then have "PState s \<in> set ?owner" by simp
    then show False by auto
  qed
  have split: "\<exists>d. last pre = PDelta d"
    if "(ps @ ?owner @ [PDelta d]) @ map PState chk = pre @ PState s # suf" and "length ps \<le> length pre" for pre s suf
  proof -
    have "pre = ps @ ?owner @ [PDelta d]"
      using that assms(2) owner by (cases chk) (auto simp: append_eq_append_conv2 append_eq_Cons_conv Cons_eq_append_conv)
    then show ?thesis by simp
  qed
  show ?thesis
    unfolding checkpoints_follow_def
  proof (intro allI impI)
    fix pre s suf
    assume at: "ps @ step_payloads w d chk = pre @ PState s # suf"
    show "deltas_of pre = [] \<or> (\<exists>d. last pre = PDelta d)"
    proof (cases "length ps \<le> length pre")
      case True
      with split at show ?thesis by (auto simp: step_payloads_def)
    next
      case False
      with at obtain us where us: "ps = pre @ us" "us \<noteq> []" "us @ step_payloads w d chk = PState s # suf"
        by (auto simp: append_eq_append_conv2)
      then obtain suf' where "ps = pre @ PState s # suf'" by (cases us) auto
      with assms(1) show ?thesis by (auto simp: checkpoints_follow_def)
    qed
  qed
qed

lemma session_follows: "session pk policy sp c w ps h \<Longrightarrow> checkpoints_follow ps"
proof (induction rule: session.induct)
  case (created cs s w)
  have "deltas_of pre = []" if "PSpec sp # map PCode cs @ [PState s] = pre @ PState x # suf" for pre x suf
  proof -
    have "set pre \<subseteq> set (PSpec sp # map PCode cs @ [PState s])" unfolding that by auto
    then show ?thesis by (auto simp: List.map_filter_def filter_empty_conv)
  qed
  then show ?case by (auto simp: checkpoints_follow_def)
next
  case (recorded c w ps h nxt now evs w' k)
  then show ?case by (auto simp: recorded_payloads_def Let_def intro: follow_step [OF _ checkpoint_one])
next
  case (reopened c w ps h m left w')
  from kept_log_prefix obtain rest where "ps = kept_log pk m ps @ rest" by blast
  with checkpoints_follow_prefix [OF reopened.IH] show ?case by (metis prefixI)
qed simp_all

text \<open>
  C27: reading a run from its two ends is reading it whole. For every file a run's recording can
  leave, the whole reader gives the run's spec, its last state and the time of its last step, or
  of its creation when it has none. The reader of the two ends (the spec at the front, the last
  checkpoint and the steps after it from the back) gives exactly those whenever the run began at
  step zero or has a step in its file, and otherwise nothing; then the whole reader is asked, so
  the listing that uses both never disagrees with the run.
\<close>

theorem ends_read_as_the_whole:
  assumes "session pk policy sp c w ps h"
  shows "\<exists>r t. read_file pk (wr_file w) = Inr r \<and> tail_of pk r = Inr t \<and>
     rt_spec t = sp \<and> rt_state t = wr_state w \<and>
     rt_updated_at t = (if deltas_of ps = [] then spec_created_at sp else d_at (last (deltas_of ps))) \<and>
     from_ends pk (wr_file w) = (if s_seq (hd h) = 0 \<or> 1 < length h then Some t else None) \<and>
     from_whole pk (wr_file w) = Inr t"
proof -
  from session_log [OF assms] have log: "run_log sp ps h" "packing_ok pk ps" "wr_file w = log_bytes pk ps"
    "wr_state w = last h" by (simp_all add: writer_log_def)
  note ends = from_ends_log [OF log(1,2) session_follows [OF assms]]
  from tail_of_log [OF log(1,2)] obtain r where r: "read_file pk (log_bytes pk ps) = Inr r"
    "tail_of pk r = Inr \<lparr>rt_spec = sp, rt_state = last h,
       rt_updated_at = (if deltas_of ps = [] then spec_created_at sp else d_at (last (deltas_of ps)))\<rparr>" by blast
  show ?thesis
    by (intro exI [of _ r] exI conjI, rule r(1) [folded log(3)], rule r(2))
       (simp_all add: log(3,4) ends from_whole_def r)
qed

theorem ends_read_as_the_whole_witness:
  "\<exists>w t. from_ends ex_pk (wr_file (w :: run_writer)) = Some t \<and> rt_spec t = ex_spec \<and>
     rt_state t = ex_later\<lparr>s_seq := 1\<rparr> \<and> rt_updated_at t = 1005"
proof -
  obtain w where s: "session ex_pk default_policy ex_spec 0 w ex_log [ex_start, stamped ex_start ex_later]"
    using ex_session_one by blast
  have "deltas_of ex_log = [delta_between ex_start ex_later 1005 []]" by (simp add: ex_log_def List.map_filter_def)
  with ends_read_as_the_whole [OF s] obtain t where
    t: "from_ends ex_pk (wr_file w) = Some t" "rt_spec t = ex_spec" "rt_state t = wr_state w" "rt_updated_at t = 1005"
    by (auto simp: delta_between_def)
  have "wr_state w = ex_later\<lparr>s_seq := 1\<rparr>"
    using session_log [OF s] by (simp add: writer_log_def stamped_def ex_start_def initial_state_def)
  with t show ?thesis by (intro exI conjI) simp_all
qed

end
