(* ===== verification/Circuit.thy ===== *)
theory Circuit
  imports Prelude "HOL-Library.AList" "HOL-Library.List_Lexorder" "HOL-Library.Char_ord"
begin

text \<open>
  The circuit breaker of each model provider, \<open>crates/leviath-runtime/src/pipeline/circuit.rs\<close>,
  with the kinds of failure it counts (\<open>crates/leviath-providers/src/failure.rs\<close>). The hash
  map of circuits is an association list with distinct keys.
\<close>

subsection \<open>Failures\<close>

datatype unavailable_reason =
  CreditsExhausted | AuthFailed | Forbidden | Unreachable | RouteUnavailable | ModelRetired

datatype failure_kind =
  DnsFailure | ConnectionRefused | TlsFailure | TimedOut | ConnectionDropped | Transport |
  BadRequest | NotFound | ServerError | ModelUnavailable | MalformedResponse

fun provider_was_reached :: "failure_kind \<Rightarrow> bool" where
  "provider_was_reached TimedOut = True"
| "provider_was_reached ConnectionDropped = True"
| "provider_was_reached BadRequest = True"
| "provider_was_reached NotFound = True"
| "provider_was_reached ServerError = True"
| "provider_was_reached ModelUnavailable = True"
| "provider_was_reached MalformedResponse = True"
| "provider_was_reached DnsFailure = False"
| "provider_was_reached ConnectionRefused = False"
| "provider_was_reached TlsFailure = False"
| "provider_was_reached Transport = False"

subsection \<open>Numbers\<close>

text \<open>Saturating \<open>u32\<close> and \<open>i64\<close> arithmetic, and the cast from \<open>u64\<close> to \<open>i64\<close>, which wraps.\<close>

definition u32_limit :: nat where "u32_limit = 2 ^ 32 - 1"

definition u32_saturating_add :: "nat \<Rightarrow> nat \<Rightarrow> nat" where
  "u32_saturating_add a b = min u32_limit (a + b)"

definition u32_saturating_mul :: "nat \<Rightarrow> nat \<Rightarrow> nat" where
  "u32_saturating_mul a b = min u32_limit (a * b)"

definition i64_saturating_sub :: "int \<Rightarrow> int \<Rightarrow> int" where
  "i64_saturating_sub a b = max (- (2 ^ 63)) (min (2 ^ 63 - 1) (a - b))"

definition as_i64 :: "nat \<Rightarrow> int" where
  "as_i64 n = (if int n < 2 ^ 63 then int n else int n - 2 ^ 64)"

subsection \<open>The breaker\<close>

record circuit_policy =
  failures_before_open :: nat
  cooldown_secs :: nat

definition SLOW_FAILURE_MULTIPLIER :: nat where "SLOW_FAILURE_MULTIPLIER = 4"

definition default_circuit_policy :: circuit_policy where
  "default_circuit_policy = \<lparr>failures_before_open = 3, cooldown_secs = 300\<rparr>"

record circuit =
  consecutive_failures :: nat
  opened_at :: "int option"
  c_reason :: unavailable_reason
  c_kind :: "failure_kind option"
  c_error :: "string option"

record provider_circuit_state =
  pcs_provider :: string
  pcs_reason :: unavailable_reason
  pcs_consecutive_failures :: nat
  retry_in_secs :: nat

type_synonym circuits = "(string \<times> circuit) list"

definition threshold_for :: "circuit_policy \<Rightarrow> failure_kind option \<Rightarrow> nat" where
  "threshold_for policy kind =
     (case kind of
        Some k \<Rightarrow> if provider_was_reached k
                  then u32_saturating_mul (failures_before_open policy) SLOW_FAILURE_MULTIPLIER
                  else failures_before_open policy
      | None \<Rightarrow> failures_before_open policy)"

definition record_failure :: "string \<Rightarrow> unavailable_reason \<Rightarrow> failure_kind option \<Rightarrow> int \<Rightarrow>
    circuit_policy \<Rightarrow> circuits \<Rightarrow> circuits \<times> bool" where
  "record_failure provider reason kind now policy cs =
     (let entry = (case map_of cs provider of
            Some c \<Rightarrow> c
          | None \<Rightarrow> \<lparr>consecutive_failures = 0, opened_at = None, c_reason = reason, c_kind = kind,
                     c_error = None\<rparr>);
          counted = entry\<lparr>consecutive_failures := u32_saturating_add (consecutive_failures entry) 1,
                          c_reason := reason, c_kind := kind\<rparr>;
          threshold = threshold_for policy kind
      in if threshold = 0 then (AList.update provider counted cs, False)
         else let was_open = opened_at counted \<noteq> None;
                  stamped = (if threshold \<le> consecutive_failures counted
                             then counted\<lparr>opened_at := Some now\<rparr> else counted)
              in (AList.update provider stamped cs, \<not> was_open \<and> opened_at stamped \<noteq> None))"

definition note_error :: "string \<Rightarrow> string \<Rightarrow> circuits \<Rightarrow> circuits" where
  "note_error provider error cs =
     (case map_of cs provider of
        Some c \<Rightarrow> AList.update provider (c\<lparr>c_error := Some error\<rparr>) cs
      | None \<Rightarrow> cs)"

definition last_failure :: "string \<Rightarrow> circuits \<Rightarrow> circuit option" where
  "last_failure provider cs = map_of cs provider"

definition record_success :: "string \<Rightarrow> circuits \<Rightarrow> circuits" where
  "record_success provider cs = AList.delete provider cs"

definition reset_circuits :: "circuits \<Rightarrow> circuits" where
  "reset_circuits cs = []"

definition forget :: "string \<Rightarrow> circuits \<Rightarrow> circuits" where
  "forget provider cs = AList.delete provider cs"

definition is_open :: "string \<Rightarrow> int \<Rightarrow> circuit_policy \<Rightarrow> circuits \<Rightarrow> bool" where
  "is_open provider now policy cs =
     (case Option.bind (map_of cs provider) opened_at of
        Some since \<Rightarrow> i64_saturating_sub now since < as_i64 (cooldown_secs policy)
      | None \<Rightarrow> False)"

definition open_state :: "int \<Rightarrow> circuit_policy \<Rightarrow> string \<times> circuit \<Rightarrow> provider_circuit_state option" where
  "open_state now policy pc =
     (case opened_at (snd pc) of
        None \<Rightarrow> None
      | Some since \<Rightarrow>
          let elapsed = i64_saturating_sub now since;
              remaining = i64_saturating_sub (as_i64 (cooldown_secs policy)) elapsed in
          if 0 < remaining
          then Some \<lparr>pcs_provider = fst pc, pcs_reason = c_reason (snd pc),
                     pcs_consecutive_failures = consecutive_failures (snd pc),
                     retry_in_secs = nat remaining\<rparr>
          else None)"

definition open_circuits :: "int \<Rightarrow> circuit_policy \<Rightarrow> circuits \<Rightarrow> provider_circuit_state list" where
  "open_circuits now policy cs = sort_key pcs_provider (List.map_filter (open_state now policy) cs)"

subsection \<open>Moving a run off an open provider\<close>

record model_ref =
  mr_provider :: "string option"
  mr_model :: string

definition provider_or_empty :: "model_ref \<Rightarrow> string" where
  "provider_or_empty e = (case mr_provider e of Some p \<Rightarrow> p | None \<Rightarrow> [])"

record stage_inference =
  si_provider_name :: string
  si_model :: string
  si_fallbacks :: "model_ref list"

text \<open>What \<open>rotate_open_circuits\<close> does to one agent that is ready to infer.\<close>

definition rotate_open_circuits :: "circuits \<Rightarrow> circuit_policy \<Rightarrow> int \<Rightarrow> bool \<Rightarrow> stage_inference \<Rightarrow> stage_inference" where
  "rotate_open_circuits cs policy now active si =
     (if \<not> active then si
      else if \<not> is_open (si_provider_name si) now policy cs then si
      else case position (\<lambda>e. \<not> is_open (provider_or_empty e) now policy cs) (si_fallbacks si) of
        None \<Rightarrow> si
      | Some nxt \<Rightarrow>
          let entry = si_fallbacks si ! nxt in
          si\<lparr>si_fallbacks := drain_rest 0 nxt (remove_nth nxt (si_fallbacks si)),
             si_provider_name := provider_or_empty entry,
             si_model := mr_model entry\<rparr>)"

subsection \<open>Streaks\<close>

text \<open>
  What happens to the breaker, and what it stands for: each provider's streak of failures since
  it last succeeded or was forgotten, oldest first. A failure opens the circuit when it is at
  least as many as the threshold for its kind, and the last to do so is when it opened.
\<close>

datatype circuit_event =
  FailureOf string unavailable_reason "failure_kind option" int
| ErrorOf string string
| SuccessOf string
| ResetAll
| Forgotten string

fun circuit_step :: "circuit_policy \<Rightarrow> circuit_event \<Rightarrow> circuits \<Rightarrow> circuits" where
  "circuit_step policy (FailureOf p reason kind now) cs = fst (record_failure p reason kind now policy cs)"
| "circuit_step policy (ErrorOf p error) cs = note_error p error cs"
| "circuit_step policy (SuccessOf p) cs = record_success p cs"
| "circuit_step policy ResetAll cs = reset_circuits cs"
| "circuit_step policy (Forgotten p) cs = forget p cs"

type_synonym streak = "(failure_kind option \<times> int) list"

fun streak_step :: "string \<Rightarrow> circuit_event \<Rightarrow> streak \<Rightarrow> streak" where
  "streak_step p (FailureOf q reason kind now) fs = (if q = p then fs @ [(kind, now)] else fs)"
| "streak_step p (ErrorOf q error) fs = fs"
| "streak_step p (SuccessOf q) fs = (if q = p then [] else fs)"
| "streak_step p ResetAll fs = []"
| "streak_step p (Forgotten q) fs = (if q = p then [] else fs)"

definition streak_of :: "string \<Rightarrow> circuit_event list \<Rightarrow> streak" where
  "streak_of p evs = fold (streak_step p) evs []"

definition opens :: "circuit_policy \<Rightarrow> streak \<Rightarrow> nat \<Rightarrow> bool" where
  "opens policy fs i \<longleftrightarrow> 0 < threshold_for policy (fst (fs ! i)) \<and> threshold_for policy (fst (fs ! i)) \<le> Suc i"

definition opened_by :: "circuit_policy \<Rightarrow> streak \<Rightarrow> int option" where
  "opened_by policy fs =
     (let is = filter (opens policy fs) [0..<length fs] in
      if is = [] then None else Some (snd (fs ! last is)))"

definition stands_for :: "circuit_policy \<Rightarrow> circuit option \<Rightarrow> streak \<Rightarrow> bool" where
  "stands_for policy c fs \<longleftrightarrow>
     (case c of
        None \<Rightarrow> fs = []
      | Some c \<Rightarrow> fs \<noteq> [] \<and> consecutive_failures c = min u32_limit (length fs) \<and>
                   opened_at c = opened_by policy fs)"

lemma opening_snoc:
  "opened_by policy (fs @ [f]) =
     (if 0 < threshold_for policy (fst f) \<and> threshold_for policy (fst f) \<le> Suc (length fs)
      then Some (snd f) else opened_by policy fs)"
proof -
  have same: "filter (opens policy (fs @ [f])) [0..<length fs] = filter (opens policy fs) [0..<length fs]"
    by (rule filter_cong) (auto simp: opens_def nth_append)
  have nths: "(fs @ [f]) ! last (filter (opens policy fs) [0..<length fs]) =
      fs ! last (filter (opens policy fs) [0..<length fs])"
    if "filter (opens policy fs) [0..<length fs] \<noteq> []"
    using last_in_set [OF that] by (auto simp: nth_append)
  show ?thesis
    using nths by (auto simp: opened_by_def Let_def same opens_def [of policy "fs @ [f]" "length fs"])
qed

lemma threshold_limit: "failures_before_open policy \<le> u32_limit \<Longrightarrow> threshold_for policy k \<le> u32_limit"
  by (auto simp: threshold_for_def u32_saturating_mul_def split: option.splits)

lemma record_failure_streak:
  assumes "failures_before_open policy \<le> u32_limit" and "stands_for policy (map_of cs p) fs"
  shows "stands_for policy (map_of (fst (record_failure p reason kind now policy cs)) p) (fs @ [(kind, now)]) \<and>
     (snd (record_failure p reason kind now policy cs) \<longleftrightarrow>
        opened_by policy fs = None \<and> opened_by policy (fs @ [(kind, now)]) \<noteq> None)"
proof -
  have th: "threshold_for policy kind \<le> min u32_limit (Suc n) \<longleftrightarrow> threshold_for policy kind \<le> Suc n" for n
    using threshold_limit [OF assms(1), of kind] by auto
  have count: "u32_saturating_add (min u32_limit n) (Suc 0) = min u32_limit (Suc n)" for n
    by (auto simp: u32_saturating_add_def)
  have zero: "u32_saturating_add 0 (Suc 0) = min u32_limit (Suc 0)"
    by (simp add: u32_saturating_add_def)
  show ?thesis
  proof (cases "map_of cs p")
    case None
    then have "fs = []" using assms(2) by (simp add: stands_for_def)
    moreover have "opened_by policy [] = None" by (simp add: opened_by_def)
    ultimately show ?thesis
      using None th [of 0] opening_snoc [of policy "[]" "(kind, now)"]
      by (auto simp: record_failure_def stands_for_def Let_def update_conv' zero)
  next
    case (Some c)
    then show ?thesis
      using assms(2) th [of "length fs"] opening_snoc [of policy fs "(kind, now)"]
      by (auto simp: record_failure_def stands_for_def Let_def update_conv' count)
  qed
qed

lemma record_failure_other:
  "q \<noteq> p \<Longrightarrow> map_of (fst (record_failure q reason kind now policy cs)) p = map_of cs p"
  by (simp add: record_failure_def Let_def update_conv')

lemma circuit_step_streak:
  assumes "failures_before_open policy \<le> u32_limit" and "stands_for policy (map_of cs p) fs"
  shows "stands_for policy (map_of (circuit_step policy e cs) p) (streak_step p e fs)"
proof (cases e)
  case (FailureOf q reason kind now)
  then show ?thesis
    using record_failure_streak [OF assms, of reason kind now] record_failure_other [of q p] assms(2) by simp
next
  case (ErrorOf q error)
  then show ?thesis using assms(2)
    by (auto simp: note_error_def stands_for_def update_conv' split: option.splits)
next
  case (SuccessOf q)
  then show ?thesis using assms(2) by (auto simp: record_success_def delete_conv' stands_for_def)
next
  case ResetAll
  then show ?thesis by (simp add: reset_circuits_def stands_for_def)
next
  case (Forgotten q)
  then show ?thesis using assms(2) by (auto simp: forget_def delete_conv' stands_for_def)
qed

lemma circuit_streak:
  "failures_before_open policy \<le> u32_limit \<Longrightarrow>
   stands_for policy (map_of (fold (circuit_step policy) evs []) p) (streak_of p evs)"
proof (induction evs rule: rev_induct)
  case Nil
  show ?case by (simp add: streak_of_def stands_for_def)
next
  case (snoc e evs)
  then show ?case using circuit_step_streak by (simp add: streak_of_def)
qed

lemma is_open_stands:
  "stands_for policy (map_of cs p) fs \<Longrightarrow> is_open p now policy cs \<longleftrightarrow>
   (\<exists>since. opened_by policy fs = Some since \<and> i64_saturating_sub now since < as_i64 (cooldown_secs policy))"
  by (auto simp: is_open_def stands_for_def opened_by_def split: option.splits)

lemma opening_Some:
  "opened_by policy fs = Some since \<longleftrightarrow>
   (\<exists>i < length fs. opens policy fs i \<and> (\<forall>j < length fs. i < j \<longrightarrow> \<not> opens policy fs j) \<and> since = snd (fs ! i))"
proof (induction fs rule: rev_induct)
  case Nil
  show ?case by (simp add: opened_by_def)
next
  case (snoc f fs)
  have old: "opens policy (fs @ [f]) i = opens policy fs i" if "i < length fs" for i
    using that by (simp add: opens_def nth_append)
  have new: "opens policy (fs @ [f]) (length fs) \<longleftrightarrow>
      0 < threshold_for policy (fst f) \<and> threshold_for policy (fst f) \<le> Suc (length fs)"
    by (simp add: opens_def)
  show ?case
  proof (cases "opens policy (fs @ [f]) (length fs)")
    case True
    then have "opened_by policy (fs @ [f]) = Some (snd f)" using new by (simp add: opening_snoc)
    moreover have "i = length fs" if "i < Suc (length fs)" "\<forall>j<Suc (length fs). i < j \<longrightarrow> \<not> opens policy (fs @ [f]) j" for i
      using that True by (metis lessI less_antisym)
    ultimately show ?thesis using True by (auto simp: nth_append)
  next
    case False
    then have "opened_by policy (fs @ [f]) = opened_by policy fs" using new unfolding opening_snoc by presburger
    moreover have "P (length fs) \<Longrightarrow> (\<forall>j < Suc (length fs). i < j \<longrightarrow> P j) \<longleftrightarrow>
        (\<forall>j < length fs. i < j \<longrightarrow> P j)" for P and i :: nat
      using less_Suc_eq by auto
    ultimately show ?thesis
      using False snoc old by (simp add: less_Suc_eq nth_append conj_disj_distribR ex_disj_distrib cong: conj_cong)
  qed
qed

lemma set_map_filter: "set (List.map_filter f xs) = {y. \<exists>x \<in> set xs. f x = Some y}"
  by (induction xs) (auto simp: map_filter_simps split: option.splits)

lemma open_circuits_listed:
  assumes "distinct (map fst cs)"
  shows "p \<in> pcs_provider ` set (open_circuits now policy cs) \<longleftrightarrow> is_open p now policy cs"
proof -
  have remaining: "0 < i64_saturating_sub a b \<longleftrightarrow> b < a" for a b
    by (simp add: i64_saturating_sub_def less_max_iff_disj)
  have name: "open_state now policy pc = Some s \<Longrightarrow> pcs_provider s = fst pc" for pc s
    by (auto simp: open_state_def Let_def split: option.splits if_splits)
  have "p \<in> pcs_provider ` set (open_circuits now policy cs) \<longleftrightarrow>
      (\<exists>pc \<in> set cs. \<exists>s. open_state now policy pc = Some s \<and> pcs_provider s = p)"
    by (auto simp: open_circuits_def set_map_filter)
  also have "\<dots> \<longleftrightarrow> (\<exists>c. (p, c) \<in> set cs \<and> open_state now policy (p, c) \<noteq> None)"
  proof
    assume "\<exists>pc \<in> set cs. \<exists>s. open_state now policy pc = Some s \<and> pcs_provider s = p"
    then show "\<exists>c. (p, c) \<in> set cs \<and> open_state now policy (p, c) \<noteq> None"
      using name by (metis option.distinct(1) prod.collapse)
  next
    assume "\<exists>c. (p, c) \<in> set cs \<and> open_state now policy (p, c) \<noteq> None"
    then obtain c s where "(p, c) \<in> set cs" "open_state now policy (p, c) = Some s" by auto
    then show "\<exists>pc \<in> set cs. \<exists>s. open_state now policy pc = Some s \<and> pcs_provider s = p"
      using name [of "(p, c)" s] by (intro bexI [of _ "(p, c)"] exI [of _ s]) simp_all
  qed
  also have "\<dots> \<longleftrightarrow> (\<exists>c. map_of cs p = Some c \<and> open_state now policy (p, c) \<noteq> None)"
    using assms by simp
  also have "\<dots> \<longleftrightarrow> is_open p now policy cs"
    by (cases "map_of cs p") (auto simp: is_open_def open_state_def Let_def remaining split: option.splits)
  finally show ?thesis .
qed

lemma circuits_distinct: "distinct (map fst cs) \<Longrightarrow> distinct (map fst (circuit_step policy e cs))"
  by (cases e) (auto simp: record_failure_def note_error_def record_success_def forget_def reset_circuits_def
      Let_def distinct_update distinct_delete split: option.splits)

lemma reached_distinct: "distinct (map fst (fold (circuit_step policy) evs []))"
proof (induction evs rule: rev_induct)
  case (snoc e evs)
  then show ?case by (simp add: circuits_distinct)
qed simp

subsection \<open>What the breaker promises\<close>

text \<open>
  C18: a provider is taken out of service exactly when its own streak of failures says so.
  Whatever happened before, a provider is skipped when some failure since it last succeeded
  was at least as many as the threshold for its kind, and the last such was less than the
  cooldown ago; nothing that happened to other providers counts, a success or an operator's
  reset ends it at once, and a threshold of zero never opens it. The list shown to the
  operator names exactly the providers that are skipped, and the alert goes out once, on the
  failure that opens the circuit.
\<close>

theorem circuit_opens_by_its_streak:
  assumes "failures_before_open policy \<le> u32_limit"
  shows "let cs = fold (circuit_step policy) evs []; fs = streak_of p evs in
     (is_open p now policy cs \<longleftrightarrow>
        (\<exists>i < length fs. opens policy fs i \<and> (\<forall>j < length fs. i < j \<longrightarrow> \<not> opens policy fs j) \<and>
           i64_saturating_sub now (snd (fs ! i)) < as_i64 (cooldown_secs policy))) \<and>
     (p \<in> pcs_provider ` set (open_circuits now policy cs) \<longleftrightarrow> is_open p now policy cs) \<and>
     (snd (record_failure p reason kind at_time policy cs) \<longleftrightarrow>
        (\<forall>i < length fs. \<not> opens policy fs i) \<and> opens policy (fs @ [(kind, at_time)]) (length fs))"
proof -
  let ?cs = "fold (circuit_step policy) evs []" and ?fs = "streak_of p evs"
  note stands = circuit_streak [OF assms, of evs p]
  have none: "opened_by policy fs = None \<longleftrightarrow> (\<forall>i < length fs. \<not> opens policy fs i)" for fs
    by (auto simp: opened_by_def Let_def filter_empty_conv)
  have "is_open p now policy ?cs \<longleftrightarrow>
      (\<exists>i < length ?fs. opens policy ?fs i \<and> (\<forall>j < length ?fs. i < j \<longrightarrow> \<not> opens policy ?fs j) \<and>
         i64_saturating_sub now (snd (?fs ! i)) < as_i64 (cooldown_secs policy))"
    unfolding is_open_stands [OF stands] opening_Some by blast
  moreover have "snd (record_failure p reason kind at_time policy ?cs) \<longleftrightarrow>
      (\<forall>i < length ?fs. \<not> opens policy ?fs i) \<and> opens policy (?fs @ [(kind, at_time)]) (length ?fs)"
    using record_failure_streak [OF assms stands, of reason kind at_time]
      opening_snoc [of policy ?fs "(kind, at_time)"]
    by (auto simp: none opens_def)
  ultimately show ?thesis
    using open_circuits_listed [OF reached_distinct] by (simp add: Let_def)
qed

theorem circuit_opens_by_its_streak_witness:
  "is_open ''p'' 130 default_circuit_policy (fold (circuit_step default_circuit_policy)
     [FailureOf ''p'' Unreachable None 10, FailureOf ''q'' Unreachable None 11,
      FailureOf ''p'' Unreachable (Some Transport) 20, FailureOf ''p'' Unreachable None 30] [])"
  using circuit_opens_by_its_streak [of default_circuit_policy "[FailureOf ''p'' Unreachable None 10,
      FailureOf ''q'' Unreachable None 11, FailureOf ''p'' Unreachable (Some Transport) 20,
      FailureOf ''p'' Unreachable None 30]" "''p''" 130 Unreachable None 30]
  by (auto simp: Let_def default_circuit_policy_def u32_limit_def streak_of_def opens_def threshold_for_def
      i64_saturating_sub_def as_i64_def intro: exI [of _ 2])

text \<open>
  C37: a run is moved off an open provider to the best one standing. An active run on an open
  provider goes to its first fallback whose circuit is closed and keeps the ones after it, in
  order; with none it stays where it is. A run that is not active, or on a provider in
  service, is left alone. So a run with a closed fallback never stays on an open provider.
\<close>

theorem rotation_finds_the_best_standing:
  "let si' = rotate_open_circuits cs policy now active si; shut = (\<lambda>e. is_open (provider_or_empty e) now policy cs) in
   (\<not> active \<or> \<not> is_open (si_provider_name si) now policy cs \<or> list_all shut (si_fallbacks si) \<longrightarrow> si' = si) \<and>
   (active \<and> is_open (si_provider_name si) now policy cs \<and> \<not> list_all shut (si_fallbacks si) \<longrightarrow>
      \<not> is_open (si_provider_name si') now policy cs \<and>
      (\<exists>skipped e. list_all shut skipped \<and> si_fallbacks si = skipped @ e # si_fallbacks si' \<and>
         si_provider_name si' = provider_or_empty e \<and> si_model si' = mr_model e))"
proof (cases "active \<and> is_open (si_provider_name si) now policy cs \<and>
    \<not> list_all (\<lambda>e. is_open (provider_or_empty e) now policy cs) (si_fallbacks si)")
  case True
  let ?P = "\<lambda>e. \<not> is_open (provider_or_empty e) now policy cs" and ?fs = "si_fallbacks si"
  obtain n where n: "position ?P ?fs = Some n"
    using True by (cases "position ?P ?fs") (auto simp: list_all_iff)
  then have lt: "n < length ?fs" and sat: "?P (?fs ! n)" and before: "\<forall>j < n. \<not> ?P (?fs ! j)"
    using position_Some [of ?P ?fs n] by auto
  have "drain_rest 0 n (remove_nth n ?fs) = drop (Suc n) ?fs"
    using lt by (simp add: drain_rest_def remove_nth_def)
  then have new: "rotate_open_circuits cs policy now True si = si\<lparr>si_fallbacks := drop (Suc n) ?fs,
      si_provider_name := provider_or_empty (?fs ! n), si_model := mr_model (?fs ! n)\<rparr>"
    using True n by (simp add: rotate_open_circuits_def Let_def del: position_None)
  have "list_all (\<lambda>e. is_open (provider_or_empty e) now policy cs) (take n ?fs)"
    using before lt by (auto simp: list_all_length)
  then have "\<exists>skipped e. list_all (\<lambda>e. is_open (provider_or_empty e) now policy cs) skipped \<and>
      ?fs = skipped @ e # drop (Suc n) ?fs \<and>
      provider_or_empty (?fs ! n) = provider_or_empty e \<and> mr_model (?fs ! n) = mr_model e"
    using id_take_nth_drop [OF lt] by blast
  then show ?thesis using True sat by (simp add: Let_def new)
next
  case False
  then have "rotate_open_circuits cs policy now active si = si"
    by (auto simp: rotate_open_circuits_def Let_def list_all_iff dest!: position_Some split: option.splits)
  then show ?thesis using False by (simp add: Let_def)
qed

theorem rotation_finds_the_best_standing_witness:
  "si_provider_name (rotate_open_circuits [(''p'', \<lparr>consecutive_failures = 3, opened_at = Some 10, c_reason = Unreachable,
      c_kind = None, c_error = None\<rparr>)] default_circuit_policy 20 True
      \<lparr>si_provider_name = ''p'', si_model = ''m'',
        si_fallbacks = [\<lparr>mr_provider = Some ''p'', mr_model = ''n''\<rparr>, \<lparr>mr_provider = Some ''q'', mr_model = ''n''\<rparr>]\<rparr>) = ''q''"
proof -
  let ?cs = "[(''p'', \<lparr>consecutive_failures = 3, opened_at = Some 10, c_reason = Unreachable,
      c_kind = None, c_error = None\<rparr>)] :: circuits"
  let ?si = "\<lparr>si_provider_name = ''p'', si_model = ''m'',
      si_fallbacks = [\<lparr>mr_provider = Some ''p'', mr_model = ''n''\<rparr>, \<lparr>mr_provider = Some ''q'', mr_model = ''n''\<rparr>]\<rparr>"
  let ?si' = "rotate_open_circuits ?cs default_circuit_policy 20 True ?si"
  have shut: "is_open ''p'' 20 default_circuit_policy ?cs" "\<not> is_open ''q'' 20 default_circuit_policy ?cs"
    by (simp_all add: is_open_def default_circuit_policy_def i64_saturating_sub_def as_i64_def)
  with rotation_finds_the_best_standing [of ?cs default_circuit_policy 20 True ?si]
  obtain skipped e where "list_all (\<lambda>e. is_open (provider_or_empty e) 20 default_circuit_policy ?cs) skipped"
    "si_fallbacks ?si = skipped @ e # si_fallbacks ?si'" "\<not> is_open (si_provider_name ?si') 20 default_circuit_policy ?cs"
    "si_provider_name ?si' = provider_or_empty e"
    by (auto simp: Let_def provider_or_empty_def)
  with shut show ?thesis
    by (auto simp: provider_or_empty_def Cons_eq_append_conv)
qed

end
