(* ===== verification/Pool.thy ===== *)
theory Pool
  imports Prelude "HOL-Library.AList" "HOL-Library.List_Lexorder" "HOL-Library.Char_ord"
begin

text \<open>
  How many inferences may be in flight to a model and to a provider at once,
  \<open>crates/leviath-runtime/src/inference_pool.rs\<close>. Tokio's counting semaphore is a parameter
  with the laws its documentation states; the semaphores the code shares behind an \<open>Arc\<close> live
  in a store under numbers, so a pool dropped from its map leaves the permits already handed
  out pointing at a semaphore nothing else uses. A hash map is an association list.
\<close>

subsection \<open>Semaphores\<close>

definition UNBOUNDED_PERMITS :: nat where "UNBOUNDED_PERMITS = 2 ^ 61 - 1"

record 's semaphores =
  sem_new :: "nat \<Rightarrow> 's"
  sem_available :: "'s \<Rightarrow> nat"
  sem_try_acquire :: "'s \<Rightarrow> 's option"
  sem_add_permits :: "nat \<Rightarrow> 's \<Rightarrow> 's"
  sem_forget_permits :: "nat \<Rightarrow> 's \<Rightarrow> nat \<times> 's"

definition semaphore_laws :: "'s semaphores \<Rightarrow> bool" where
  "semaphore_laws ops \<longleftrightarrow>
     (\<forall>n \<le> UNBOUNDED_PERMITS. sem_available ops (sem_new ops n) = n) \<and>
     (\<forall>s. sem_try_acquire ops s = None \<longleftrightarrow> sem_available ops s = 0) \<and>
     (\<forall>s s'. sem_try_acquire ops s = Some s' \<longrightarrow> sem_available ops s = Suc (sem_available ops s')) \<and>
     (\<forall>n s. sem_available ops s + n \<le> UNBOUNDED_PERMITS \<longrightarrow>
        sem_available ops (sem_add_permits ops n s) = sem_available ops s + n) \<and>
     (\<forall>n s. fst (sem_forget_permits ops n s) = min n (sem_available ops s) \<and>
        sem_available ops (snd (sem_forget_permits ops n s)) = sem_available ops s - n)"

subsection \<open>Limits\<close>

record pool_config =
  per_model :: "string \<Rightarrow> nat option"
  per_provider :: "string \<Rightarrow> nat option"
  default_limit :: "nat option"

text \<open>\<open>rsplit_once('/')\<close>: what follows the last slash, or the whole id.\<close>

definition bare_model_name :: "string \<Rightarrow> string" where
  "bare_model_name model = rev (takeWhile (\<lambda>c. c \<noteq> CHR ''/'') (rev model))"

definition limit_for :: "pool_config \<Rightarrow> string \<Rightarrow> nat option" where
  "limit_for cfg model =
     (case per_model cfg model of
        Some n \<Rightarrow> Some n
      | None \<Rightarrow>
          (case per_model cfg (bare_model_name model) of
             Some n \<Rightarrow> Some n
           | None \<Rightarrow> default_limit cfg))"

definition provider_limit_for :: "pool_config \<Rightarrow> string \<Rightarrow> nat option" where
  "provider_limit_for cfg provider = per_provider cfg provider"

subsection \<open>Pools\<close>

record pool =
  p_semaphore :: nat
  p_cap :: "nat option"
  p_granted :: nat

record 's pools =
  pl_config :: pool_config
  pl_semaphores :: "(string \<times> pool) list"
  pl_provider_semaphores :: "(string \<times> pool) list"
  pl_store :: "nat \<Rightarrow> 's"
  pl_next :: nat

definition target :: "nat option \<Rightarrow> nat" where
  "target cap = (case cap of Some n \<Rightarrow> n | None \<Rightarrow> UNBOUNDED_PERMITS)"

definition pool_new :: "'s semaphores \<Rightarrow> nat option \<Rightarrow> 's pools \<Rightarrow> pool \<times> 's pools" where
  "pool_new ops cap ps =
     (\<lparr>p_semaphore = pl_next ps, p_cap = cap, p_granted = target cap\<rparr>,
      ps\<lparr>pl_store := (pl_store ps)(pl_next ps := sem_new ops (target cap)), pl_next := Suc (pl_next ps)\<rparr>)"

definition retarget :: "'s semaphores \<Rightarrow> nat option \<Rightarrow> pool \<Rightarrow> 's pools \<Rightarrow> pool \<times> 's pools" where
  "retarget ops cap p ps =
     (let p1 = p\<lparr>p_cap := cap\<rparr>; n = target cap; s = pl_store ps (p_semaphore p) in
      if p_granted p < n then
        (p1\<lparr>p_granted := n\<rparr>,
         ps\<lparr>pl_store := (pl_store ps)(p_semaphore p := sem_add_permits ops (n - p_granted p) s)\<rparr>)
      else if n < p_granted p then
        let (forgot, s') = sem_forget_permits ops (p_granted p - n) s in
        (p1\<lparr>p_granted := p_granted p - forgot\<rparr>, ps\<lparr>pl_store := (pl_store ps)(p_semaphore p := s')\<rparr>)
      else (p1, ps))"

definition in_use :: "'s semaphores \<Rightarrow> 's pools \<Rightarrow> pool \<Rightarrow> nat" where
  "in_use ops ps p = saturating_sub (p_granted p) (sem_available ops (pl_store ps (p_semaphore p)))"

definition pools_new :: "(nat \<Rightarrow> 's) \<Rightarrow> pool_config \<Rightarrow> 's pools" where
  "pools_new store cfg = \<lparr>pl_config = cfg, pl_semaphores = [], pl_provider_semaphores = [],
     pl_store = store, pl_next = 0\<rparr>"

text \<open>The entry of a map, made when it is not there, aimed at the limit of now.\<close>

definition pool_for :: "'s semaphores \<Rightarrow> nat option \<Rightarrow> pool option \<Rightarrow> 's pools \<Rightarrow> pool \<times> 's pools" where
  "pool_for ops cap found ps =
     (let (p, ps1) = (case found of Some p \<Rightarrow> (p, ps) | None \<Rightarrow> pool_new ops cap ps)
      in retarget ops cap p ps1)"

definition semaphore_for :: "'s semaphores \<Rightarrow> string \<Rightarrow> 's pools \<Rightarrow> nat \<times> 's pools" where
  "semaphore_for ops model ps =
     (let (p, ps1) = pool_for ops (limit_for (pl_config ps) model) (map_of (pl_semaphores ps) model) ps
      in (p_semaphore p, ps1\<lparr>pl_semaphores := AList.update model p (pl_semaphores ps1)\<rparr>))"

definition provider_semaphore_for :: "'s semaphores \<Rightarrow> string \<Rightarrow> 's pools \<Rightarrow> nat option \<times> 's pools" where
  "provider_semaphore_for ops provider ps =
     (case provider_limit_for (pl_config ps) provider of
        None \<Rightarrow> (None, ps)
      | Some cap \<Rightarrow>
          let (p, ps1) = pool_for ops (Some cap) (map_of (pl_provider_semaphores ps) provider) ps
          in (Some (p_semaphore p),
              ps1\<lparr>pl_provider_semaphores := AList.update provider p (pl_provider_semaphores ps1)\<rparr>))"

subsection \<open>Permits\<close>

record permit =
  pm_permit :: nat
  pm_provider_permit :: "nat option"

definition take_slot :: "'s semaphores \<Rightarrow> nat \<Rightarrow> 's pools \<Rightarrow> 's pools option" where
  "take_slot ops i ps =
     (case sem_try_acquire ops (pl_store ps i) of
        None \<Rightarrow> None
      | Some s \<Rightarrow> Some (ps\<lparr>pl_store := (pl_store ps)(i := s)\<rparr>))"

definition give_slot :: "'s semaphores \<Rightarrow> nat \<Rightarrow> 's pools \<Rightarrow> 's pools" where
  "give_slot ops i ps = ps\<lparr>pl_store := (pl_store ps)(i := sem_add_permits ops 1 (pl_store ps i))\<rparr>"

text \<open>The provider's slot first and the model's second; a provider slot whose model is full goes straight back.\<close>

definition try_acquire :: "'s semaphores \<Rightarrow> string \<Rightarrow> string \<Rightarrow> 's pools \<Rightarrow> permit option \<times> 's pools" where
  "try_acquire ops provider model ps =
     (let (provider_sem, ps1) = provider_semaphore_for ops provider ps in
      case (case provider_sem of None \<Rightarrow> Some ps1 | Some i \<Rightarrow> take_slot ops i ps1) of
        None \<Rightarrow> (None, ps1)
      | Some ps2 \<Rightarrow>
          let (i, ps3) = semaphore_for ops model ps2 in
          (case take_slot ops i ps3 of
             Some ps4 \<Rightarrow> (Some \<lparr>pm_permit = i, pm_provider_permit = provider_sem\<rparr>, ps4)
           | None \<Rightarrow> (None, case provider_sem of None \<Rightarrow> ps3 | Some j \<Rightarrow> give_slot ops j ps3)))"

definition drop_permit :: "'s semaphores \<Rightarrow> permit \<Rightarrow> 's pools \<Rightarrow> 's pools" where
  "drop_permit ops pm ps =
     (let ps1 = give_slot ops (pm_permit pm) ps in
      case pm_provider_permit pm of None \<Rightarrow> ps1 | Some i \<Rightarrow> give_slot ops i ps1)"

text \<open>
  Every pool of a map moves to its new ceiling. A provider that has lost its limit has its
  pool let go unbounded and dropped from the map.
\<close>

fun retarget_all :: "'s semaphores \<Rightarrow> (string \<Rightarrow> nat option) \<Rightarrow> (string \<times> pool) list \<Rightarrow> 's pools \<Rightarrow>
    (string \<times> pool) list \<times> 's pools" where
  "retarget_all ops limit [] ps = ([], ps)"
| "retarget_all ops limit ((name, p) # rest) ps =
     (let (p', ps1) = retarget ops (limit name) p ps;
          (rest', ps2) = retarget_all ops limit rest ps1
      in ((name, p') # rest', ps2))"

definition reconfigure :: "'s semaphores \<Rightarrow> pool_config \<Rightarrow> 's pools \<Rightarrow> 's pools" where
  "reconfigure ops cfg ps =
     (let ps0 = ps\<lparr>pl_config := cfg\<rparr>;
          (models, ps1) = retarget_all ops (limit_for cfg) (pl_semaphores ps0) ps0;
          (providers, ps2) = retarget_all ops (provider_limit_for cfg) (pl_provider_semaphores ps1) ps1
      in ps2\<lparr>pl_semaphores := models,
             pl_provider_semaphores :=
               filter (\<lambda>(name, _). provider_limit_for cfg name \<noteq> None) providers\<rparr>)"

subsection \<open>Reports\<close>

record pool_occupancy =
  oc_name :: string
  oc_in_use :: nat
  oc_cap :: "nat option"

definition occupancy :: "'s semaphores \<Rightarrow> 's pools \<Rightarrow> pool_occupancy list" where
  "occupancy ops ps = sort_key oc_name (map (\<lambda>(model, p).
     \<lparr>oc_name = model, oc_in_use = in_use ops ps p, oc_cap = p_cap p\<rparr>) (pl_semaphores ps))"

definition provider_occupancy :: "'s semaphores \<Rightarrow> 's pools \<Rightarrow> pool_occupancy list" where
  "provider_occupancy ops ps = sort_key oc_name (map (\<lambda>(provider, p).
     \<lparr>oc_name = provider, oc_in_use = in_use ops ps p, oc_cap = Some (target (p_cap p))\<rparr>)
     (pl_provider_semaphores ps))"

definition is_full :: "pool_occupancy \<Rightarrow> bool" where
  "is_full occ = (case oc_cap occ of Some cap \<Rightarrow> cap \<le> oc_in_use occ | None \<Rightarrow> False)"

subsection \<open>The account every pool keeps\<close>

text \<open>
  The slots handed out and not yet returned, one number of a semaphore for each. A pool keeps
  its account when what its semaphore holds, free and handed out, is what the pool granted.
\<close>

definition keeps_account :: "'s semaphores \<Rightarrow> 's pools \<Rightarrow> nat list \<Rightarrow> pool \<Rightarrow> bool" where
  "keeps_account ops ps held p \<longleftrightarrow>
     p_granted p = sem_available ops (pl_store ps (p_semaphore p)) + count_list held (p_semaphore p) \<and>
     target (p_cap p) \<le> p_granted p \<and> p_granted p \<le> UNBOUNDED_PERMITS \<and> p_semaphore p < pl_next ps"

text \<open>A pool just aimed at its limit has no free slot above it.\<close>

definition settled :: "'s semaphores \<Rightarrow> 's pools \<Rightarrow> pool \<Rightarrow> bool" where
  "settled ops ps p \<longleftrightarrow>
     sem_available ops (pl_store ps (p_semaphore p)) = 0 \<or> p_granted p = target (p_cap p)"

definition same_but :: "nat \<Rightarrow> 's pools \<Rightarrow> 's pools \<Rightarrow> bool" where
  "same_but i ps ps' \<longleftrightarrow> pl_config ps' = pl_config ps \<and> pl_semaphores ps' = pl_semaphores ps \<and>
     pl_provider_semaphores ps' = pl_provider_semaphores ps \<and> pl_next ps \<le> pl_next ps' \<and>
     (\<forall>j. j \<noteq> i \<longrightarrow> pl_store ps' j = pl_store ps j)"

lemma keeps_account_frame:
  "keeps_account ops ps held p \<Longrightarrow> pl_store ps' (p_semaphore p) = pl_store ps (p_semaphore p) \<Longrightarrow>
   pl_next ps \<le> pl_next ps' \<Longrightarrow> keeps_account ops ps' held p"
  by (simp add: keeps_account_def)

lemma forget_leaves:
  "(t :: nat) < a + c \<Longrightarrow> forgot = min (a + c - t) a \<Longrightarrow> b = a - (a + c - t) \<Longrightarrow>
   a + c - forgot = b + c \<and> t \<le> a + c - forgot \<and> (b = 0 \<or> a + c - forgot = t)"
  by (cases "a + c - t \<le> a") (auto simp: min_def)

lemma retarget_account:
  assumes laws: "semaphore_laws ops" and "target cap \<le> UNBOUNDED_PERMITS"
    and "p_granted p = sem_available ops (pl_store ps (p_semaphore p)) + count_list held (p_semaphore p)"
    and "p_granted p \<le> UNBOUNDED_PERMITS" and "p_semaphore p < pl_next ps"
    and "retarget ops cap p ps = (p', ps')"
  shows "keeps_account ops ps' held p' \<and> settled ops ps' p' \<and> p_cap p' = cap \<and>
     p_semaphore p' = p_semaphore p \<and> p_granted p' \<le> max (p_granted p) (target cap) \<and>
     pl_next ps' = pl_next ps \<and> same_but (p_semaphore p) ps ps'"
proof -
  let ?s = "pl_store ps (p_semaphore p)"
  have add: "sem_available ops (sem_add_permits ops n ?s) = sem_available ops ?s + n"
    if "sem_available ops ?s + n \<le> UNBOUNDED_PERMITS" for n
    using laws that by (simp add: semaphore_laws_def)
  have forget: "fst (sem_forget_permits ops n ?s) = min n (sem_available ops ?s)"
    "sem_available ops (snd (sem_forget_permits ops n ?s)) = sem_available ops ?s - n" for n
    using laws by (simp_all add: semaphore_laws_def)
  consider "p_granted p < target cap" | "target cap < p_granted p" | "p_granted p = target cap" by linarith
  then show ?thesis
  proof cases
    case 1
    then show ?thesis
      using assms add [of "target cap - p_granted p"]
      by (auto simp: retarget_def Let_def keeps_account_def settled_def same_but_def)
  next
    case 2
    obtain forgot s' where f: "sem_forget_permits ops (p_granted p - target cap) ?s = (forgot, s')"
      by fastforce
    with forget [of "p_granted p - target cap"]
    have fg: "forgot = min (p_granted p - target cap) (sem_available ops ?s)"
      and s': "sem_available ops s' = sem_available ops ?s - (p_granted p - target cap)" by simp_all
    have left: "p_granted p - forgot = sem_available ops s' + count_list held (p_semaphore p)"
      "target cap \<le> p_granted p - forgot" "sem_available ops s' = 0 \<or> p_granted p - forgot = target cap"
      using forget_leaves [OF 2 [unfolded assms(3)] fg [unfolded assms(3)] s' [unfolded assms(3)]]
      unfolding assms(3) by blast+
    have p': "p' = p\<lparr>p_cap := cap, p_granted := p_granted p - forgot\<rparr>"
      "ps' = ps\<lparr>pl_store := (pl_store ps)(p_semaphore p := s')\<rparr>"
      using 2 f assms(6) by (auto simp: retarget_def Let_def)
    have "p_granted p - forgot \<le> UNBOUNDED_PERMITS" using assms(4) by simp
    with left show ?thesis
      unfolding p' using assms(5) by (simp add: keeps_account_def settled_def same_but_def)
  next
    case 3
    then show ?thesis
      using assms by (auto simp: retarget_def Let_def keeps_account_def settled_def same_but_def)
  qed
qed

lemma pool_for_account:
  assumes laws: "semaphore_laws ops" and cap: "target cap \<le> UNBOUNDED_PERMITS"
    and found: "case found of Some p \<Rightarrow> keeps_account ops ps held p | None \<Rightarrow> \<forall>i \<in> set held. i < pl_next ps"
    and "pool_for ops cap found ps = (p', ps')"
  shows "keeps_account ops ps' held p' \<and> settled ops ps' p' \<and> p_cap p' = cap \<and>
     p_semaphore p' = (case found of Some p \<Rightarrow> p_semaphore p | None \<Rightarrow> pl_next ps) \<and>
     p_granted p' \<le> max (case found of Some p \<Rightarrow> p_granted p | None \<Rightarrow> 0) (target cap) \<and>
     same_but (p_semaphore p') ps ps'"
proof (cases found)
  case None
  let ?ps = "snd (pool_new ops cap ps)" and ?p = "fst (pool_new ops cap ps)"
  have "sem_available ops (sem_new ops (target cap)) = target cap"
    using laws cap by (simp add: semaphore_laws_def)
  moreover have "count_list held (pl_next ps) = 0"
    using found None by (auto simp: count_list_0_iff)
  moreover have "retarget ops cap ?p ?ps = (p', ps')"
    using assms(4) None by (simp add: pool_for_def pool_new_def)
  ultimately show ?thesis
    using retarget_account [OF laws cap, of ?p ?ps held p' ps'] cap None
    by (auto simp: pool_new_def same_but_def)
next
  case (Some p)
  then have r: "retarget ops cap p ps = (p', ps')" using assms(4) by (simp add: pool_for_def)
  have "p_granted p = sem_available ops (pl_store ps (p_semaphore p)) + count_list held (p_semaphore p)"
    "p_granted p \<le> UNBOUNDED_PERMITS" "p_semaphore p < pl_next ps"
    using found Some by (simp_all add: keeps_account_def)
  from retarget_account [OF laws cap this r] Some show ?thesis by simp
qed

subsection \<open>The account of all pools\<close>

text \<open>A pool by its name: a model's, or a provider's.\<close>

fun pool_at :: "'s pools \<Rightarrow> string + string \<Rightarrow> pool option" where
  "pool_at ps (Inl model) = map_of (pl_semaphores ps) model"
| "pool_at ps (Inr provider) = map_of (pl_provider_semaphores ps) provider"

fun limit_at :: "pool_config \<Rightarrow> string + string \<Rightarrow> nat option" where
  "limit_at cfg (Inl model) = limit_for cfg model"
| "limit_at cfg (Inr provider) = provider_limit_for cfg provider"

definition config_ok :: "pool_config \<Rightarrow> bool" where
  "config_ok cfg \<longleftrightarrow> (\<forall>k. target (limit_at cfg k) \<le> UNBOUNDED_PERMITS)"

definition pools_ok :: "'s semaphores \<Rightarrow> nat list \<Rightarrow> 's pools \<Rightarrow> bool" where
  "pools_ok ops held ps \<longleftrightarrow> config_ok (pl_config ps) \<and> (\<forall>i \<in> set held. i < pl_next ps) \<and>
     distinct (map fst (pl_semaphores ps)) \<and> distinct (map fst (pl_provider_semaphores ps)) \<and>
     (\<forall>k p. pool_at ps k = Some p \<longrightarrow> keeps_account ops ps held p \<and> p_cap p = limit_at (pl_config ps) k) \<and>
     (\<forall>k p k' p'. pool_at ps k = Some p \<longrightarrow> pool_at ps k' = Some p' \<longrightarrow>
        p_semaphore p = p_semaphore p' \<longrightarrow> k = k')"

lemma pools_okD:
  assumes "pools_ok ops held ps"
  shows "config_ok (pl_config ps)" and "\<forall>i \<in> set held. i < pl_next ps"
    and "pool_at ps k = Some p \<Longrightarrow> keeps_account ops ps held p"
    and "pool_at ps k = Some p \<Longrightarrow> p_cap p = limit_at (pl_config ps) k"
    and "pool_at ps k = Some p \<Longrightarrow> pool_at ps k' = Some p' \<Longrightarrow> p_semaphore p = p_semaphore p' \<Longrightarrow> k = k'"
  using assms unfolding pools_ok_def by blast+

text \<open>Any pool aimed at its limit and put back keeps the account of them all.\<close>

lemma pools_ok_put:
  assumes ok: "pools_ok ops held ps" and laws: "semaphore_laws ops"
    and pf: "pool_for ops (limit_at (pl_config ps) k) (pool_at ps k) ps = (p', ps1)"
    and ps': "pool_at ps' = (pool_at ps1)(k \<mapsto> p')" "pl_config ps' = pl_config ps1"
      "pl_store ps' = pl_store ps1" "pl_next ps' = pl_next ps1"
    and dist: "distinct (map fst (pl_semaphores ps'))" "distinct (map fst (pl_provider_semaphores ps'))"
  shows "pools_ok ops held ps' \<and> settled ops ps' p' \<and> pool_at ps' k = Some p' \<and>
     (\<forall>q. q \<noteq> k \<longrightarrow> pool_at ps' q = pool_at ps q) \<and>
     pl_config ps' = pl_config ps \<and> pl_next ps \<le> pl_next ps' \<and>
     (case pool_at ps k of Some p \<Rightarrow> p_semaphore p' = p_semaphore p | None \<Rightarrow> p_semaphore p' = pl_next ps) \<and>
     p_granted p' \<le> max (case pool_at ps k of Some p \<Rightarrow> p_granted p | None \<Rightarrow> 0) (target (limit_at (pl_config ps) k))"
proof -
  have cap: "target (limit_at (pl_config ps) k) \<le> UNBOUNDED_PERMITS"
    using pools_okD(1) [OF ok] by (simp add: config_ok_def)
  have "case pool_at ps k of Some p \<Rightarrow> keeps_account ops ps held p | None \<Rightarrow> \<forall>i \<in> set held. i < pl_next ps"
    using pools_okD(2,3) [OF ok] by (auto split: option.splits)
  note pa = pool_for_account [OF laws cap this pf]
  have lists: "pool_at ps1 = pool_at ps"
  proof (rule ext)
    fix q
    have "pl_semaphores ps1 = pl_semaphores ps" "pl_provider_semaphores ps1 = pl_provider_semaphores ps"
      using pa by (simp_all add: same_but_def)
    then show "pool_at ps1 q = pool_at ps q" by (cases q) simp_all
  qed
  have other: "keeps_account ops ps' held p \<and> p_semaphore p \<noteq> p_semaphore p'"
    if q: "pool_at ps q = Some p" "q \<noteq> k" for q p
  proof -
    have acc: "keeps_account ops ps held p" using pools_okD(3) [OF ok] q(1) .
    moreover have "p_semaphore p \<noteq> p_semaphore p'"
    proof (cases "pool_at ps k")
      case None
      with acc pa show ?thesis by (simp add: keeps_account_def)
    next
      case (Some p0)
      with pools_okD(5) [OF ok q(1) Some] pa q(2) show ?thesis by fastforce
    qed
    ultimately show ?thesis
      using pa by (auto simp: same_but_def ps' intro: keeps_account_frame)
  qed
  have mine: "keeps_account ops ps' held p'"
    using pa by (auto simp: ps' intro: keeps_account_frame)
  have "settled ops ps' p'" using conjunct1 [OF conjunct2 [OF pa]] unfolding settled_def ps' .
  moreover have "pools_ok ops held ps'"
    unfolding pools_ok_def
  proof (intro conjI allI impI)
    show "config_ok (pl_config ps')" using pa pools_okD(1) [OF ok] by (simp add: ps' same_but_def)
    show "\<forall>i \<in> set held. i < pl_next ps'"
      using pa pools_okD(2) [OF ok] by (auto simp: ps' same_but_def)
  next
    fix q p assume "pool_at ps' q = Some p"
    then have "q = k \<and> p = p' \<or> q \<noteq> k \<and> pool_at ps q = Some p"
      by (auto simp: ps'(1) lists split: if_splits)
    then show "keeps_account ops ps' held p" "p_cap p = limit_at (pl_config ps') q"
      using other mine pa pools_okD(4) [OF ok] by (auto simp: ps' same_but_def)
  next
    fix q p q' r
    assume "pool_at ps' q = Some p" "pool_at ps' q' = Some r" and same: "p_semaphore p = p_semaphore r"
    then have q: "q = k \<and> p = p' \<or> q \<noteq> k \<and> pool_at ps q = Some p"
      "q' = k \<and> r = p' \<or> q' \<noteq> k \<and> pool_at ps q' = Some r"
      by (auto simp: ps'(1) lists split: if_splits)
    then show "q = q'" using other same pools_okD(5) [OF ok] by metis
  qed (use dist in simp_all)
  ultimately show ?thesis
    using pa by (auto simp: ps' lists same_but_def split: option.splits)
qed

lemma pool_at_put [simp]:
  "pool_at (ps\<lparr>pl_semaphores := AList.update m p (pl_semaphores ps)\<rparr>) = (pool_at ps)(Inl m \<mapsto> p)"
  "pool_at (ps\<lparr>pl_provider_semaphores := AList.update m p (pl_provider_semaphores ps)\<rparr>) = (pool_at ps)(Inr m \<mapsto> p)"
proof -
  show "pool_at (ps\<lparr>pl_semaphores := AList.update m p (pl_semaphores ps)\<rparr>) = (pool_at ps)(Inl m \<mapsto> p)"
  proof (rule ext)
    fix k show "pool_at (ps\<lparr>pl_semaphores := AList.update m p (pl_semaphores ps)\<rparr>) k = ((pool_at ps)(Inl m \<mapsto> p)) k"
      by (cases k) (simp_all add: update_conv')
  qed
  show "pool_at (ps\<lparr>pl_provider_semaphores := AList.update m p (pl_provider_semaphores ps)\<rparr>) = (pool_at ps)(Inr m \<mapsto> p)"
  proof (rule ext)
    fix k show "pool_at (ps\<lparr>pl_provider_semaphores := AList.update m p (pl_provider_semaphores ps)\<rparr>) k = ((pool_at ps)(Inr m \<mapsto> p)) k"
      by (cases k) (simp_all add: update_conv')
  qed
qed

text \<open>What looking a pool up leaves, whichever map it is in.\<close>

definition looked_up :: "'s semaphores \<Rightarrow> nat list \<Rightarrow> string + string \<Rightarrow> nat \<Rightarrow> 's pools \<Rightarrow> 's pools \<Rightarrow> bool" where
  "looked_up ops held k i ps ps' \<longleftrightarrow> pools_ok ops held ps' \<and> pl_config ps' = pl_config ps \<and>
     pl_next ps \<le> pl_next ps' \<and> (\<forall>q. q \<noteq> k \<longrightarrow> pool_at ps' q = pool_at ps q) \<and>
     (\<exists>p'. pool_at ps' k = Some p' \<and> settled ops ps' p' \<and> p_semaphore p' = i \<and>
        (case pool_at ps k of Some p \<Rightarrow> i = p_semaphore p | None \<Rightarrow> i = pl_next ps) \<and>
        p_granted p' \<le> max (case pool_at ps k of Some p \<Rightarrow> p_granted p | None \<Rightarrow> 0) (target (limit_at (pl_config ps) k)))"

lemma semaphore_for_ok:
  assumes "pools_ok ops held ps" and "semaphore_laws ops" and "semaphore_for ops m ps = (i, ps')"
  shows "looked_up ops held (Inl m) i ps ps'"
proof -
  obtain p ps1 where pf: "pool_for ops (limit_for (pl_config ps) m) (map_of (pl_semaphores ps) m) ps = (p, ps1)"
    by fastforce
  then have ps': "ps' = ps1\<lparr>pl_semaphores := AList.update m p (pl_semaphores ps1)\<rparr>" "i = p_semaphore p"
    using assms(3) by (simp_all add: semaphore_for_def)
  have keep: "pl_semaphores ps1 = pl_semaphores ps" "pl_provider_semaphores ps1 = pl_provider_semaphores ps"
    using pf by (auto simp: pool_for_def retarget_def pool_new_def Let_def split: option.splits if_splits prod.splits)
  have "distinct (map fst (pl_semaphores ps'))" "distinct (map fst (pl_provider_semaphores ps'))"
    using assms(1) by (simp_all add: ps' keep pools_ok_def distinct_update)
  from pools_ok_put [OF assms(1,2), of "Inl m" p ps1 ps', OF _ _ _ _ _ this] pf show ?thesis
    by (simp add: looked_up_def ps')
qed

lemma provider_semaphore_for_ok:
  assumes "pools_ok ops held ps" and "semaphore_laws ops"
    and "provider_semaphore_for ops q ps = (Some i, ps')"
  shows "looked_up ops held (Inr q) i ps ps' \<and> provider_limit_for (pl_config ps) q \<noteq> None"
proof -
  obtain cap where cap: "provider_limit_for (pl_config ps) q = Some cap"
    using assms(3) by (auto simp: provider_semaphore_for_def split: option.splits)
  obtain p ps1 where pf: "pool_for ops (Some cap) (map_of (pl_provider_semaphores ps) q) ps = (p, ps1)"
    by fastforce
  then have ps': "ps' = ps1\<lparr>pl_provider_semaphores := AList.update q p (pl_provider_semaphores ps1)\<rparr>"
    "i = p_semaphore p"
    using assms(3) cap by (simp_all add: provider_semaphore_for_def)
  have keep: "pl_semaphores ps1 = pl_semaphores ps" "pl_provider_semaphores ps1 = pl_provider_semaphores ps"
    using pf by (auto simp: pool_for_def retarget_def pool_new_def Let_def split: option.splits if_splits prod.splits)
  have "distinct (map fst (pl_semaphores ps'))" "distinct (map fst (pl_provider_semaphores ps'))"
    using assms(1) by (simp_all add: ps' keep pools_ok_def distinct_update)
  from pools_ok_put [OF assms(1,2), of "Inr q" p ps1 ps', OF _ _ _ _ _ this] pf cap show ?thesis
    by (simp add: looked_up_def ps')
qed

lemma provider_semaphore_for_None:
  "provider_semaphore_for ops q ps = (None, ps') \<Longrightarrow> ps' = ps \<and> provider_limit_for (pl_config ps) q = None"
  by (auto simp: provider_semaphore_for_def split: option.splits prod.splits)

end
