(* ===== verification/Pool_Run.thy ===== *)
theory Pool_Run
  imports Pool
begin

text \<open>
  The pools over a daemon's life: lookups, slots taken and returned, and new limits, in any
  order and from any number of threads, each step being what the code does under one lock or
  one call of a semaphore.
\<close>

subsection \<open>Aiming all pools\<close>

lemma retarget_all_account:
  assumes "semaphore_laws ops" and "\<forall>name \<in> fst ` set ms. target (limit name) \<le> UNBOUNDED_PERMITS"
    and "\<forall>p \<in> snd ` set ms. keeps_account ops ps held p" and "distinct (map (p_semaphore \<circ> snd) ms)"
    and "retarget_all ops limit ms ps = (ms', ps')"
  shows "map fst ms' = map fst ms \<and> (\<exists>st. ps' = ps\<lparr>pl_store := st\<rparr>) \<and>
     (\<forall>i. i \<notin> (p_semaphore \<circ> snd) ` set ms \<longrightarrow> pl_store ps' i = pl_store ps i) \<and>
     list_all2 (\<lambda>(_, p) (name, p'). keeps_account ops ps' held p' \<and> p_cap p' = limit name \<and>
        p_semaphore p' = p_semaphore p \<and> p_granted p' \<le> max (p_granted p) (target (limit name))) ms ms'"
  using assms(2-)
proof (induction ms arbitrary: ps ms')
  case Nil
  then show ?case by (auto intro: exI [of _ "pl_store ps"])
next
  case (Cons np rest)
  obtain name p where np: "np = (name, p)" by fastforce
  obtain p' ps1 where r: "retarget ops (limit name) p ps = (p', ps1)" by fastforce
  obtain rest' where rest: "retarget_all ops limit rest ps1 = (rest', ps')" "ms' = (name, p') # rest'"
    using Cons.prems(4) by (auto simp: np r split: prod.splits)
  have acc: "keeps_account ops ps held p" using Cons.prems(2) by (simp add: np)
  have U: "target (limit name) \<le> UNBOUNDED_PERMITS" using Cons.prems(1) by (simp add: np)
  have pf: "pool_for ops (limit name) (Some p) ps = (p', ps1)" using r by (simp add: pool_for_def)
  have acc': "case Some p of Some p \<Rightarrow> keeps_account ops ps held p | None \<Rightarrow> \<forall>i \<in> set held. i < pl_next ps"
    using acc by simp
  have one: "keeps_account ops ps1 held p'" "p_cap p' = limit name" "p_semaphore p' = p_semaphore p"
    "p_granted p' \<le> max (p_granted p) (target (limit name))" "same_but (p_semaphore p') ps ps1"
    using pool_for_account [OF assms(1) U acc' pf] unfolding option.case by blast+
  have store: "ps1 = ps\<lparr>pl_store := pl_store ps1\<rparr>"
    using r by (auto simp: retarget_def Let_def split: if_splits prod.splits)
  have others: "\<forall>q \<in> snd ` set rest. keeps_account ops ps1 held q"
  proof
    fix q assume q: "q \<in> snd ` set rest"
    then have "p_semaphore q \<noteq> p_semaphore p'" using Cons.prems(3) one(3) by (simp add: np) force
    moreover have "keeps_account ops ps held q" using Cons.prems(2) q by (auto simp: np)
    ultimately show "keeps_account ops ps1 held q"
      using one(5) by (auto simp: same_but_def intro: keeps_account_frame)
  qed
  have "\<forall>name \<in> fst ` set rest. target (limit name) \<le> UNBOUNDED_PERMITS" "distinct (map (p_semaphore \<circ> snd) rest)"
    using Cons.prems(1,3) by (simp_all add: o_def)
  from Cons.IH [OF this(1) others this(2) rest(1)]
  have IH: "map fst rest' = map fst rest" "\<exists>st. ps' = ps1\<lparr>pl_store := st\<rparr>"
    "\<forall>i. i \<notin> (p_semaphore \<circ> snd) ` set rest \<longrightarrow> pl_store ps' i = pl_store ps1 i"
    "list_all2 (\<lambda>(_, p) (name, p'). keeps_account ops ps' held p' \<and> p_cap p' = limit name \<and>
        p_semaphore p' = p_semaphore p \<and> p_granted p' \<le> max (p_granted p) (target (limit name))) rest rest'"
    by simp_all
  have "p_semaphore p \<notin> (p_semaphore \<circ> snd) ` set rest" using Cons.prems(3) by (simp add: np)
  with IH(2,3) one(1,3) have "keeps_account ops ps' held p'"
    by (auto intro: keeps_account_frame)
  moreover have "\<exists>st. ps' = ps\<lparr>pl_store := st\<rparr>"
    using IH(2) store by (metis (no_types, lifting) pools.update_convs(4) pools.surjective)
  ultimately show ?case
    using IH one by (auto simp: np rest(2) same_but_def)
qed

subsection \<open>Slots\<close>

lemma store_pool_at [simp]:
  "pool_at (ps\<lparr>pl_store := st\<rparr>) = pool_at ps" "pool_at (ps\<lparr>pl_config := cfg\<rparr>) = pool_at ps"
proof -
  show "pool_at (ps\<lparr>pl_store := st\<rparr>) = pool_at ps"
  proof (rule ext)
    fix k show "pool_at (ps\<lparr>pl_store := st\<rparr>) k = pool_at ps k" by (cases k) simp_all
  qed
  show "pool_at (ps\<lparr>pl_config := cfg\<rparr>) = pool_at ps"
  proof (rule ext)
    fix k show "pool_at (ps\<lparr>pl_config := cfg\<rparr>) k = pool_at ps k" by (cases k) simp_all
  qed
qed

lemma pools_ok_store:
  assumes "pools_ok ops held ps" and "\<forall>i \<in> set held'. i < pl_next ps"
    and "\<And>k p. pool_at ps k = Some p \<Longrightarrow> keeps_account ops (ps\<lparr>pl_store := st\<rparr>) held' p"
  shows "pools_ok ops held' (ps\<lparr>pl_store := st\<rparr>)"
  using assms unfolding pools_ok_def store_pool_at by simp

lemma take_slot_ok:
  assumes "pools_ok ops held ps" and "semaphore_laws ops" and "take_slot ops i ps = Some ps'" and "i < pl_next ps"
  shows "pools_ok ops (i # held) ps' \<and> pool_at ps' = pool_at ps \<and> pl_config ps' = pl_config ps \<and>
     pl_next ps' = pl_next ps \<and> (\<forall>j. j \<noteq> i \<longrightarrow> pl_store ps' j = pl_store ps j)"
proof -
  obtain s where s: "sem_try_acquire ops (pl_store ps i) = Some s" "ps' = ps\<lparr>pl_store := (pl_store ps)(i := s)\<rparr>"
    using assms(3) by (auto simp: take_slot_def split: option.splits)
  then have "sem_available ops (pl_store ps i) = Suc (sem_available ops s)"
    using assms(2) by (simp add: semaphore_laws_def)
  then have "keeps_account ops ps' (i # held) p" if "keeps_account ops ps held p" for p
    using that by (auto simp: s keeps_account_def)
  then have "pools_ok ops (i # held) ps'"
    unfolding s(2) using assms(1,4) pools_okD(2,3) [OF assms(1)]
    by (intro pools_ok_store [OF assms(1)]) auto
  then show ?thesis by (simp add: s(2))
qed

lemma take_slot_None:
  "semaphore_laws ops \<Longrightarrow> take_slot ops i ps = None \<longleftrightarrow> sem_available ops (pl_store ps i) = 0"
  by (auto simp: take_slot_def semaphore_laws_def split: option.splits)

lemma count_remove1: "i \<in> set xs \<Longrightarrow> count_list xs i = Suc (count_list (remove1 i xs) i)"
  by (induction xs) auto

lemma count_remove1_other: "j \<noteq> i \<Longrightarrow> count_list (remove1 i xs) j = count_list xs j"
  by (induction xs) auto

lemma give_slot_ok:
  assumes "pools_ok ops held ps" and laws: "semaphore_laws ops" and "i \<in> set held"
  shows "pools_ok ops (remove1 i held) (give_slot ops i ps) \<and> pool_at (give_slot ops i ps) = pool_at ps \<and>
     pl_config (give_slot ops i ps) = pl_config ps"
proof -
  have "keeps_account ops (give_slot ops i ps) (remove1 i held) p" if p: "keeps_account ops ps held p" for p
  proof (cases "p_semaphore p = i")
    case True
    have "count_list held i = Suc (count_list (remove1 i held) i)" using count_remove1 [OF assms(3)] .
    moreover from this p True have "sem_available ops (pl_store ps i) + 1 \<le> UNBOUNDED_PERMITS"
      by (simp add: keeps_account_def)
    then have "sem_available ops (sem_add_permits ops 1 (pl_store ps i)) = sem_available ops (pl_store ps i) + 1"
      using laws by (simp add: semaphore_laws_def)
    ultimately show ?thesis using p True by (simp add: keeps_account_def give_slot_def)
  next
    case False
    then show ?thesis using p by (simp add: keeps_account_def give_slot_def count_remove1_other)
  qed
  then have "pools_ok ops (remove1 i held) (give_slot ops i ps)"
    unfolding give_slot_def using pools_okD(2,3) [OF assms(1)]
    by (intro pools_ok_store [OF assms(1)]) (use set_remove1_subset in fastforce)+
  then show ?thesis by (simp add: give_slot_def)
qed

subsection \<open>New limits\<close>

lemma pool_ids_distinct:
  assumes "pools_ok ops held ps"
  shows "distinct (map (p_semaphore \<circ> snd) (pl_semaphores ps))"
    and "distinct (map (p_semaphore \<circ> snd) (pl_provider_semaphores ps))"
    and "(p_semaphore \<circ> snd) ` set (pl_semaphores ps) \<inter> (p_semaphore \<circ> snd) ` set (pl_provider_semaphores ps) = {}"
proof -
  have dist: "distinct (map fst (pl_semaphores ps))" "distinct (map fst (pl_provider_semaphores ps))"
    using assms by (simp_all add: pools_ok_def)
  have at: "pool_at ps (Inl n) = Some p" if "(n, p) \<in> set (pl_semaphores ps)" for n p
    using that dist(1) by simp
  have at': "pool_at ps (Inr n) = Some p" if "(n, p) \<in> set (pl_provider_semaphores ps)" for n p
    using that dist(2) by simp
  have "inj_on (p_semaphore \<circ> snd) (set (pl_semaphores ps))"
  proof (rule inj_onI, clarsimp)
    fix n p n' p' assume np: "(n, p) \<in> set (pl_semaphores ps)" "(n', p') \<in> set (pl_semaphores ps)"
      and "p_semaphore p = p_semaphore p'"
    then have "n = n'" using pools_okD(5) [OF assms at [OF np(1)] at [OF np(2)]] by simp
    then show "n = n' \<and> p = p'" using at [OF np(1)] at [OF np(2)] by simp
  qed
  then show "distinct (map (p_semaphore \<circ> snd) (pl_semaphores ps))"
    using dist(1) by (simp add: distinct_map)
  have "inj_on (p_semaphore \<circ> snd) (set (pl_provider_semaphores ps))"
  proof (rule inj_onI, clarsimp)
    fix n p n' p' assume np: "(n, p) \<in> set (pl_provider_semaphores ps)" "(n', p') \<in> set (pl_provider_semaphores ps)"
      and "p_semaphore p = p_semaphore p'"
    then have "n = n'" using pools_okD(5) [OF assms at' [OF np(1)] at' [OF np(2)]] by simp
    then show "n = n' \<and> p = p'" using at' [OF np(1)] at' [OF np(2)] by simp
  qed
  then show "distinct (map (p_semaphore \<circ> snd) (pl_provider_semaphores ps))"
    using dist(2) by (simp add: distinct_map)
  show "(p_semaphore \<circ> snd) ` set (pl_semaphores ps) \<inter> (p_semaphore \<circ> snd) ` set (pl_provider_semaphores ps) = {}"
    using pools_okD(5) [OF assms at at'] by fastforce
qed

lemma retarget_all_lookup:
  assumes "map fst ms' = map fst ms" and "list_all2 (\<lambda>(_, p) (name, p'). P name p p') ms ms'"
    and "map_of ms' n = Some p'"
  shows "\<exists>p. map_of ms n = Some p \<and> P n p p'"
  using assms(2,1,3)
proof (induction rule: list_all2_induct)
  case (Cons np ms np' ms')
  then show ?case by (cases np; cases np') (auto split: if_splits)
qed simp

lemma reconfigure_ok:
  assumes ok: "pools_ok ops held ps" and laws: "semaphore_laws ops" and cfg: "config_ok cfg"
  shows "pools_ok ops held (reconfigure ops cfg ps) \<and> pl_config (reconfigure ops cfg ps) = cfg \<and>
     (\<forall>k p'. pool_at (reconfigure ops cfg ps) k = Some p' \<longrightarrow>
        (\<exists>p. pool_at ps k = Some p \<and> p_semaphore p' = p_semaphore p \<and>
             p_granted p' \<le> max (p_granted p) (target (limit_at cfg k)))) \<and>
     (\<forall>m. pool_at ps (Inl m) \<noteq> None \<longrightarrow> pool_at (reconfigure ops cfg ps) (Inl m) \<noteq> None)"
proof -
  let ?M = "pl_semaphores ps" and ?P = "pl_provider_semaphores ps" and ?ps = "ps\<lparr>pl_config := cfg\<rparr>"
  obtain ms ps1 where m: "retarget_all ops (limit_for cfg) ?M ?ps = (ms, ps1)" by fastforce
  obtain qs ps2 where q: "retarget_all ops (provider_limit_for cfg) ?P ps1 = (qs, ps2)" by fastforce
  let ?Q = "filter (\<lambda>(name, _). provider_limit_for cfg name \<noteq> None) qs"
  have dist: "distinct (map fst ?M)" "distinct (map fst ?P)" using ok by (simp_all add: pools_ok_def)
  note ids = pool_ids_distinct [OF ok]
  have U: "\<forall>name \<in> fst ` set ?M. target (limit_for cfg name) \<le> UNBOUNDED_PERMITS"
    "\<forall>name \<in> fst ` set ?P. target (provider_limit_for cfg name) \<le> UNBOUNDED_PERMITS"
    using cfg [unfolded config_ok_def] limit_at.simps by metis+
  have acc: "\<forall>p \<in> snd ` set ?M. keeps_account ops ?ps held p" "\<forall>p \<in> snd ` set ?P. keeps_account ops ?ps held p"
  proof -
    have "keeps_account ops ?ps held p" if "keeps_account ops ps held p" for p
      using that by (rule keeps_account_frame) simp_all
    then show "\<forall>p \<in> snd ` set ?M. keeps_account ops ?ps held p" "\<forall>p \<in> snd ` set ?P. keeps_account ops ?ps held p"
      using pools_okD(3) [OF ok, of "Inl _"] pools_okD(3) [OF ok, of "Inr _"] dist by auto
  qed
  from retarget_all_account [OF laws U(1) acc(1) ids(1) m]
  have M: "map fst ms = map fst ?M" "\<exists>st. ps1 = ?ps\<lparr>pl_store := st\<rparr>"
    "\<forall>i. i \<notin> (p_semaphore \<circ> snd) ` set ?M \<longrightarrow> pl_store ps1 i = pl_store ?ps i"
    and MA: "list_all2 (\<lambda>(_, p) (name, p'). keeps_account ops ps1 held p' \<and> p_cap p' = limit_for cfg name \<and>
        p_semaphore p' = p_semaphore p \<and> p_granted p' \<le> max (p_granted p) (target (limit_for cfg name))) ?M ms"
    by blast+
  have "\<forall>p \<in> snd ` set ?P. keeps_account ops ps1 held p"
  proof
    fix p assume p: "p \<in> snd ` set ?P"
    then have "p_semaphore p \<notin> (p_semaphore \<circ> snd) ` set ?M" using ids(3) by (force simp: image_iff)
    with M(2,3) acc(2) p show "keeps_account ops ps1 held p"
      by (auto intro: keeps_account_frame)
  qed
  from retarget_all_account [OF laws U(2) this ids(2) q]
  have Q: "map fst qs = map fst ?P" "\<exists>st. ps2 = ps1\<lparr>pl_store := st\<rparr>"
    "\<forall>i. i \<notin> (p_semaphore \<circ> snd) ` set ?P \<longrightarrow> pl_store ps2 i = pl_store ps1 i"
    and QA: "list_all2 (\<lambda>(_, p) (name, p'). keeps_account ops ps2 held p' \<and> p_cap p' = provider_limit_for cfg name \<and>
        p_semaphore p' = p_semaphore p \<and> p_granted p' \<le> max (p_granted p) (target (provider_limit_for cfg name))) ?P qs"
    by blast+
  let ?R = "reconfigure ops cfg ps"
  have R: "?R = ps2\<lparr>pl_semaphores := ms, pl_provider_semaphores := ?Q\<rparr>"
    using m q M(2) by (auto simp: reconfigure_def)
  have next_id: "pl_next ?R = pl_next ps" "pl_config ?R = cfg" "pl_store ?R = pl_store ps2"
    using M(2) Q(2) by (auto simp: R)
  have look: "\<exists>p. pool_at ps k = Some p \<and> keeps_account ops ?R held p' \<and> p_cap p' = limit_at cfg k \<and>
      p_semaphore p' = p_semaphore p \<and> p_granted p' \<le> max (p_granted p) (target (limit_at cfg k))"
    if at: "pool_at ?R k = Some p'" for k p'
  proof (cases k)
    case (Inl n)
    then have "map_of ms n = Some p'" using at by (simp add: R)
    from retarget_all_lookup [OF M(1) MA this] obtain p where
      p: "map_of ?M n = Some p" "keeps_account ops ps1 held p'" "p_cap p' = limit_for cfg n"
        "p_semaphore p' = p_semaphore p" "p_granted p' \<le> max (p_granted p) (target (limit_for cfg n))" by blast
    have "p_semaphore p' \<notin> (p_semaphore \<circ> snd) ` set ?P"
      using ids(3) p(1,4) by (force dest: map_of_SomeD)
    then have "keeps_account ops ?R held p'"
      using p(2) Q(2,3) by (auto simp: R intro: keeps_account_frame)
    with p Inl show ?thesis by simp
  next
    case (Inr n)
    then have "(n, p') \<in> set ?Q" using map_of_SomeD [of ?Q n p'] at by (simp add: R)
    then have "map_of qs n = Some p'" using Q(1) dist(2) by (auto intro: map_of_is_SomeI simp del: map_map)
    from retarget_all_lookup [OF Q(1) QA this] obtain p where
      p: "map_of ?P n = Some p" "keeps_account ops ps2 held p'" "p_cap p' = provider_limit_for cfg n"
        "p_semaphore p' = p_semaphore p" "p_granted p' \<le> max (p_granted p) (target (provider_limit_for cfg n))" by blast
    then have "keeps_account ops ?R held p'" by (auto simp: R intro: keeps_account_frame)
    with p Inr show ?thesis by simp
  qed
  have "distinct (map fst ?Q)"
    using dist(2) Q(1) by (metis (no_types, lifting) distinct_map_filter)
  then have "pools_ok ops held ?R"
    unfolding pools_ok_def next_id
  proof (intro conjI allI impI)
    show "distinct (map fst (pl_semaphores ?R))" "distinct (map fst (pl_provider_semaphores ?R))"
      using \<open>distinct (map fst ?Q)\<close> dist(1) M(1) by (simp_all add: R)
    show "\<forall>i \<in> set held. i < pl_next ps" using pools_okD(2) [OF ok] .
  next
    fix k p k' p'
    assume "pool_at ?R k = Some p" "pool_at ?R k' = Some p'" "p_semaphore p = p_semaphore p'"
    then show "k = k'" using look pools_okD(5) [OF ok] by metis
  qed (use look cfg in blast)+
  moreover have "pool_at ?R (Inl m) \<noteq> None" if "pool_at ps (Inl m) \<noteq> None" for m
  proof -
    have "fst ` set ms = fst ` set ?M" using M(1) by (metis list.set_map)
    with that show ?thesis by (simp add: R map_of_eq_None_iff del: not_None_eq)
  qed
  ultimately show ?thesis using look next_id by blast
qed

subsection \<open>Runs\<close>

text \<open>
  Which configurations have been served, and which slots are out. A thread that has looked a
  pool up may take a slot of its semaphore at any later time.
\<close>

inductive pool_run :: "'s semaphores \<Rightarrow> pool_config list \<Rightarrow> nat list \<Rightarrow> 's pools \<Rightarrow> bool" for ops where
  started: "config_ok cfg \<Longrightarrow> pool_run ops [cfg] [] (pools_new store cfg)"
| looked: "pool_run ops cfgs held ps \<Longrightarrow> semaphore_for ops m ps = (i, ps') \<Longrightarrow> pool_run ops cfgs held ps'"
| looked_provider: "pool_run ops cfgs held ps \<Longrightarrow> provider_semaphore_for ops q ps = (found, ps') \<Longrightarrow>
    pool_run ops cfgs held ps'"
| taken: "pool_run ops cfgs held ps \<Longrightarrow> i < pl_next ps \<Longrightarrow> take_slot ops i ps = Some ps' \<Longrightarrow>
    pool_run ops cfgs (i # held) ps'"
| given: "pool_run ops cfgs held ps \<Longrightarrow> i \<in> set held \<Longrightarrow> pool_run ops cfgs (remove1 i held) (give_slot ops i ps)"
| reconfigured: "pool_run ops cfgs held ps \<Longrightarrow> config_ok cfg \<Longrightarrow> pool_run ops (cfg # cfgs) held (reconfigure ops cfg ps)"

definition within_limits :: "pool_config list \<Rightarrow> 's pools \<Rightarrow> bool" where
  "within_limits cfgs ps \<longleftrightarrow> pl_config ps \<in> set cfgs \<and>
     (\<forall>k p. pool_at ps k = Some p \<longrightarrow> (\<exists>cfg \<in> set cfgs. p_granted p \<le> target (limit_at cfg k)))"

lemma looked_up_ok: "looked_up ops held k i ps ps' \<Longrightarrow> pools_ok ops held ps'"
  by (simp add: looked_up_def)

lemma within_looked:
  assumes "within_limits cfgs ps" and "looked_up ops held k i ps ps'"
  shows "within_limits cfgs ps'"
proof -
  obtain p' where p': "pool_at ps' k = Some p'"
    "p_granted p' \<le> max (case pool_at ps k of Some p \<Rightarrow> p_granted p | None \<Rightarrow> 0) (target (limit_at (pl_config ps) k))"
    using assms(2) by (auto simp: looked_up_def)
  have "\<exists>cfg \<in> set cfgs. p_granted p' \<le> target (limit_at cfg k)"
  proof (cases "p_granted p' \<le> target (limit_at (pl_config ps) k)")
    case True
    then show ?thesis using assms(1) by (auto simp: within_limits_def)
  next
    case False
    with p'(2) obtain p where "pool_at ps k = Some p" "p_granted p' \<le> p_granted p"
      by (cases "pool_at ps k") auto
    then show ?thesis using assms(1) le_trans unfolding within_limits_def by blast
  qed
  then show ?thesis
    using assms p'(1) unfolding within_limits_def looked_up_def by (metis option.inject)
qed

lemma pools_new_ok: "config_ok cfg \<Longrightarrow> pools_ok ops [] (pools_new store cfg)"
proof -
  have "pool_at (pools_new store cfg) k = None" for k
    by (cases k) (simp_all add: pools_new_def)
  then show "config_ok cfg \<Longrightarrow> ?thesis" by (simp add: pools_ok_def pools_new_def)
qed

lemma pool_run_ok:
  "pool_run ops cfgs held ps \<Longrightarrow> semaphore_laws ops \<Longrightarrow> pools_ok ops held ps \<and> within_limits cfgs ps"
proof (induction rule: pool_run.induct)
  case (started cfg store)
  have "pool_at (pools_new store cfg) k = None" for k
    by (cases k) (simp_all add: pools_new_def)
  then show ?case using pools_new_ok [OF started(1)] by (simp add: within_limits_def pools_new_def)
next
  case (looked cfgs held ps m i ps')
  then have ok: "pools_ok ops held ps" "within_limits cfgs ps" by auto
  from semaphore_for_ok [OF ok(1) looked.prems looked.hyps(2)] within_looked [OF ok(2)]
  show ?case using looked_up_ok by blast
next
  case (looked_provider cfgs held ps q found ps')
  then have ok: "pools_ok ops held ps" "within_limits cfgs ps" by auto
  show ?case
  proof (cases found)
    case None
    then show ?thesis using ok looked_provider.hyps(2) provider_semaphore_for_None by metis
  next
    case (Some i)
    with provider_semaphore_for_ok [OF ok(1) looked_provider.prems] looked_provider.hyps(2) within_looked [OF ok(2)]
    show ?thesis using looked_up_ok by blast
  qed
next
  case (taken cfgs held ps i ps')
  then show ?case using take_slot_ok [of ops held ps i ps'] by (simp add: within_limits_def)
next
  case (given cfgs held ps i)
  then show ?case using give_slot_ok [of ops held ps i] by (simp add: within_limits_def)
next
  case (reconfigured cfgs held ps cfg)
  then have ok: "pools_ok ops held ps" "within_limits cfgs ps" by auto
  note re = reconfigure_ok [OF ok(1) reconfigured.prems reconfigured.hyps(2)]
  have "\<exists>c \<in> set (cfg # cfgs). p_granted p' \<le> target (limit_at c k)"
    if "pool_at (reconfigure ops cfg ps) k = Some p'" for k p'
  proof -
    from re have "\<forall>k p'. pool_at (reconfigure ops cfg ps) k = Some p' \<longrightarrow>
        (\<exists>p. pool_at ps k = Some p \<and> p_semaphore p' = p_semaphore p \<and>
             p_granted p' \<le> max (p_granted p) (target (limit_at cfg k)))" by (elim conjE)
    from this [rule_format, OF that] obtain p where
      "pool_at ps k = Some p" "p_granted p' \<le> max (p_granted p) (target (limit_at cfg k))" by (elim exE conjE)
    then show ?thesis using ok(2) unfolding within_limits_def
      by (metis (no_types, lifting) le_trans list.set_intros max_def)
  qed
  then show ?case using re by (simp add: within_limits_def)
qed

subsection \<open>Room\<close>

definition in_flight :: "'s pools \<Rightarrow> nat list \<Rightarrow> string + string \<Rightarrow> nat" where
  "in_flight ps held k = (case pool_at ps k of None \<Rightarrow> 0 | Some p \<Rightarrow> count_list held (p_semaphore p))"

definition full :: "'s pools \<Rightarrow> nat list \<Rightarrow> string + string \<Rightarrow> bool" where
  "full ps held k \<longleftrightarrow> target (limit_at (pl_config ps) k) \<le> in_flight ps held k"

definition slots :: "permit \<Rightarrow> nat list" where
  "slots pm = pm_permit pm # (case pm_provider_permit pm of Some i \<Rightarrow> [i] | None \<Rightarrow> [])"

lemma in_flight_in_use:
  "pools_ok ops held ps \<Longrightarrow> pool_at ps k = Some p \<Longrightarrow> in_use ops ps p = in_flight ps held k"
  using pools_okD(3) [of ops held ps k p] by (simp add: in_use_def in_flight_def keeps_account_def)

text \<open>A looked-up pool has a free slot exactly when fewer than its limit are in flight.\<close>

lemma looked_up_room:
  assumes "pools_ok ops held ps" and "looked_up ops held k i ps ps'"
  shows "i < pl_next ps'" and "in_flight ps' held k = in_flight ps held k"
    and "sem_available ops (pl_store ps' i) = 0 \<longleftrightarrow> full ps held k"
    and "\<exists>p. pool_at ps' k = Some p \<and> p_semaphore p = i"
proof -
  obtain p' where p': "pool_at ps' k = Some p'" "settled ops ps' p'" "p_semaphore p' = i"
    "case pool_at ps k of Some p \<Rightarrow> i = p_semaphore p | None \<Rightarrow> i = pl_next ps"
    and cfg: "pl_config ps' = pl_config ps"
    using assms(2) by (auto simp: looked_up_def)
  have acc: "keeps_account ops ps' held p'" and cap: "p_cap p' = limit_at (pl_config ps) k"
    using pools_okD(3,4) [OF looked_up_ok [OF assms(2)] p'(1)] cfg by simp_all
  show fl: "in_flight ps' held k = in_flight ps held k"
  proof (cases "pool_at ps k")
    case None
    then have "i \<notin> set held" using pools_okD(2) [OF assms(1)] p'(4) by auto
    with None show ?thesis by (simp add: in_flight_def p'(1,3) count_list_0_iff)
  next
    case (Some p)
    with p'(3,4) show ?thesis by (simp add: in_flight_def p'(1))
  qed
  have "in_flight ps' held k = count_list held i" by (simp add: in_flight_def p'(1,3))
  with fl acc cap p'(2,3) show "sem_available ops (pl_store ps' i) = 0 \<longleftrightarrow> full ps held k"
    by (auto simp: keeps_account_def settled_def full_def)
  show "i < pl_next ps'" using acc p'(3) by (simp add: keeps_account_def)
  show "\<exists>p. pool_at ps' k = Some p \<and> p_semaphore p = i" using p'(1,3) by blast
qed

text \<open>Taking a slot counts in its own pool and in no other.\<close>

lemma in_flight_take:
  assumes "pools_ok ops held ps" and "pool_at ps k = Some p" and "p_semaphore p = i"
  shows "in_flight ps (i # held) k = Suc (in_flight ps held k)"
    and "k' \<noteq> k \<Longrightarrow> in_flight ps (i # held) k' = in_flight ps held k'"
proof -
  show "in_flight ps (i # held) k = Suc (in_flight ps held k)" using assms(2,3) by (simp add: in_flight_def)
  show "in_flight ps (i # held) k' = in_flight ps held k'" if "k' \<noteq> k"
    using pools_okD(5) [OF assms(1,2)] assms(3) that by (auto simp: in_flight_def split: option.splits)
qed

lemma looked_up_other:
  "looked_up ops held k i ps ps' \<Longrightarrow> q \<noteq> k \<Longrightarrow> in_flight ps' held q = in_flight ps held q"
  by (simp add: looked_up_def in_flight_def)

lemma looked_up_config: "looked_up ops held k i ps ps' \<Longrightarrow> pl_config ps' = pl_config ps"
  by (simp add: looked_up_def)

text \<open>One slot of one pool, from looking it up to taking it.\<close>

lemma slot_of_pool:
  assumes "pools_ok ops held ps" and "semaphore_laws ops" and "looked_up ops held k i ps ps1"
  shows "case take_slot ops i ps1 of
      None \<Rightarrow> full ps held k
    | Some ps2 \<Rightarrow> \<not> full ps held k \<and> pools_ok ops (i # held) ps2 \<and> pl_config ps2 = pl_config ps \<and>
        (\<exists>p. pool_at ps2 k = Some p \<and> p_semaphore p = i) \<and>
        in_flight ps2 (i # held) k = Suc (in_flight ps held k) \<and>
        (\<forall>q. q \<noteq> k \<longrightarrow> in_flight ps2 (i # held) q = in_flight ps held q)"
proof (cases "take_slot ops i ps1")
  case None
  then have "full ps held k" using take_slot_None [OF assms(2), of i ps1] looked_up_room(3) [OF assms(1,3)] by simp
  with None show ?thesis by simp
next
  case (Some ps2)
  note ok1 = looked_up_ok [OF assms(3)]
  from looked_up_room(4) [OF assms(1,3)] obtain p where p: "pool_at ps1 k = Some p" "p_semaphore p = i" by blast
  from take_slot_ok [OF ok1 assms(2) Some looked_up_room(1) [OF assms(1,3)]]
  have t: "pools_ok ops (i # held) ps2" "pool_at ps2 = pool_at ps1" "pl_config ps2 = pl_config ps1" by auto
  have "in_flight ps2 xs q = in_flight ps1 xs q" for xs q by (simp add: in_flight_def t(2))
  then show ?thesis
    using Some t p in_flight_take [OF ok1 p] looked_up_room(2,3) [OF assms(1,3)] looked_up_other [OF assms(3)]
      looked_up_config [OF assms(3)] take_slot_None [OF assms(2), of i ps1]
    by auto
qed

end
