(* ===== verification/Pool_Properties.thy ===== *)
theory Pool_Properties
  imports Pool_Run
begin

text \<open>
  What the inference pools promise: never more in flight than a limit served, and an acquire that
  succeeds exactly when both pools have room.
\<close>

definition ex_sems :: "nat semaphores" where
  "ex_sems = \<lparr>sem_new = (\<lambda>n. n), sem_available = (\<lambda>s. s),
     sem_try_acquire = (\<lambda>s. if s = 0 then None else Some (s - 1)), sem_add_permits = (\<lambda>n s. s + n),
     sem_forget_permits = (\<lambda>n s. (min n s, s - n))\<rparr>"

lemma ex_sems_laws: "semaphore_laws ex_sems"
  by (auto simp: semaphore_laws_def ex_sems_def)

definition ex_limits :: pool_config where
  "ex_limits = \<lparr>per_model = [''m'' \<mapsto> 2], per_provider = [''p'' \<mapsto> 1], default_limit = Some 4\<rparr>"

lemma ex_limits_ok: "config_ok ex_limits"
proof -
  have "target (limit_at ex_limits k) \<le> UNBOUNDED_PERMITS" for k
    by (cases k) (auto simp: ex_limits_def limit_for_def provider_limit_for_def target_def UNBOUNDED_PERMITS_def
        split: option.splits)
  then show ?thesis by (simp add: config_ok_def)
qed

text \<open>
  C13: never more in flight than a limit that was served. Whatever the order in which threads
  look pools up, take slots and return them, and however often the limits change, the
  inferences in flight in a pool are at most a limit some configuration served so far gave it
  (so a limit never raised is never passed), and the occupancy reported is exactly them.
\<close>

theorem in_flight_stays_within_a_limit:
  assumes "pool_run ops cfgs held ps" and "semaphore_laws ops"
  shows "(\<exists>cfg \<in> set cfgs. in_flight ps held k \<le> target (limit_at cfg k)) \<and>
     (\<forall>p. pool_at ps k = Some p \<longrightarrow> in_use ops ps p = in_flight ps held k)"
proof -
  have ok: "pools_ok ops held ps" and within: "within_limits cfgs ps" using pool_run_ok [OF assms] by auto
  have "\<exists>cfg \<in> set cfgs. in_flight ps held k \<le> target (limit_at cfg k)"
  proof (cases "pool_at ps k")
    case None
    then show ?thesis using within by (auto simp: in_flight_def within_limits_def)
  next
    case (Some p)
    then obtain cfg where "cfg \<in> set cfgs" "p_granted p \<le> target (limit_at cfg k)"
      using within by (auto simp: within_limits_def)
    moreover have "in_flight ps held k \<le> p_granted p"
      using pools_okD(3) [OF ok Some] Some by (simp add: in_flight_def keeps_account_def)
    ultimately show ?thesis using le_trans by blast
  qed
  then show ?thesis using in_flight_in_use [OF ok] by blast
qed

lemma ex_two_taken:
  "\<exists>ps. pool_run ex_sems [ex_limits] [0, 0] ps \<and> map_of (pl_semaphores ps) ''m'' = Some \<lparr>p_semaphore = 0, p_cap = Some 2, p_granted = 2\<rparr>"
proof -
  let ?ps = "pools_new (\<lambda>_. 0) ex_limits :: nat pools"
  let ?ps1 = "snd (semaphore_for ex_sems ''m'' ?ps)"
  have s: "semaphore_for ex_sems ''m'' ?ps = (0, ?ps1)" "pl_next ?ps1 = 1" "pl_store ?ps1 0 = 2"
    "map_of (pl_semaphores ?ps1) ''m'' = Some \<lparr>p_semaphore = 0, p_cap = Some 2, p_granted = 2\<rparr>"
    by (simp_all add: semaphore_for_def pools_new_def pool_for_def pool_new_def retarget_def limit_for_def
        ex_limits_def ex_sems_def target_def)
  let ?ps2 = "?ps1\<lparr>pl_store := (pl_store ?ps1)(0 := 1)\<rparr>"
  let ?ps3 = "?ps2\<lparr>pl_store := (pl_store ?ps2)(0 := 0)\<rparr>"
  have t: "take_slot ex_sems 0 ?ps1 = Some ?ps2" "take_slot ex_sems 0 ?ps2 = Some ?ps3"
    by (simp_all add: take_slot_def s(3)) (simp_all add: ex_sems_def)
  have "pool_run ex_sems [ex_limits] [0, 0] ?ps3"
    using taken [OF taken [OF looked [OF started [OF ex_limits_ok] s(1)] _ t(1)] _ t(2)] s(2) by simp
  with s(4) show ?thesis by (intro exI [of _ ?ps3]) simp
qed

theorem in_flight_stays_within_a_limit_witness:
  "\<exists>ps p. map_of (pl_semaphores ps) ''m'' = Some p \<and> in_use ex_sems ps p = 2 \<and>
     in_flight ps [0, 0] (Inl ''m'') \<le> 2"
proof -
  obtain ps where run: "pool_run ex_sems [ex_limits] [0, 0] ps"
    and p: "map_of (pl_semaphores ps) ''m'' = Some \<lparr>p_semaphore = 0, p_cap = Some 2, p_granted = 2\<rparr>"
    using ex_two_taken by blast
  from in_flight_stays_within_a_limit [OF run ex_sems_laws, of "Inl ''m''"] p
  have "in_flight ps [0, 0] (Inl ''m'') \<le> 2"
    "in_use ex_sems ps \<lparr>p_semaphore = 0, p_cap = Some 2, p_granted = 2\<rparr> = in_flight ps [0, 0] (Inl ''m'')"
    by (simp_all add: ex_limits_def limit_for_def target_def)
  moreover have "in_flight ps [0, 0] (Inl ''m'') = 2" using p by (simp add: in_flight_def numeral_2_eq_2)
  ultimately show ?thesis using p by (intro exI [of _ ps]) simp
qed

text \<open>
  C36: an acquire succeeds exactly when there is room. It is refused only when the model, or
  the provider where one has a limit, has as many in flight as the limits of now allow, and
  then holds nothing; granted, it counts once against each of the two and against nothing
  else, and neither passes its limit.
\<close>

theorem acquire_when_there_is_room:
  assumes "pool_run ops cfgs held ps" and "semaphore_laws ops"
  shows "let gated = (provider_limit_for (pl_config ps) q \<noteq> None) in
     case try_acquire ops q m ps of
       (None, ps') \<Rightarrow> (full ps held (Inl m) \<or> gated \<and> full ps held (Inr q)) \<and> pools_ok ops held ps'
     | (Some pm, ps') \<Rightarrow> \<not> full ps held (Inl m) \<and> \<not> (gated \<and> full ps held (Inr q)) \<and>
         pools_ok ops (slots pm @ held) ps' \<and>
         in_flight ps' (slots pm @ held) (Inl m) = Suc (in_flight ps held (Inl m)) \<and>
         in_flight ps' (slots pm @ held) (Inr q) =
           in_flight ps held (Inr q) + (if gated then 1 else 0) \<and>
         (\<forall>k. k \<noteq> Inl m \<and> k \<noteq> Inr q \<longrightarrow> in_flight ps' (slots pm @ held) k = in_flight ps held k)"
proof -
  have ok: "pools_ok ops held ps" using pool_run_ok [OF assms] by blast
  note laws = assms(2)
  obtain found ps1 where pf: "provider_semaphore_for ops q ps = (found, ps1)" by fastforce
  show ?thesis
  proof (cases found)
    case None
    with pf provider_semaphore_for_None have g: "ps1 = ps" "provider_limit_for (pl_config ps) q = None" by auto
    obtain i ps3 where s: "semaphore_for ops m ps = (i, ps3)" by fastforce
    note look = semaphore_for_ok [OF ok laws s]
    show ?thesis
      using slot_of_pool [OF ok laws look] looked_up_ok [OF look] pf None g s
      by (auto simp: try_acquire_def slots_def split: option.splits)
  next
    case (Some j)
    with provider_semaphore_for_ok [OF ok laws] pf
    have look: "looked_up ops held (Inr q) j ps ps1" and g: "provider_limit_for (pl_config ps) q \<noteq> None" by auto
    note one = slot_of_pool [OF ok laws look]
    show ?thesis
    proof (cases "take_slot ops j ps1")
      case None
      then show ?thesis using one looked_up_ok [OF look] pf Some g by (simp add: try_acquire_def)
    next
      case t: (Some ps2)
      with one have two: "\<not> full ps held (Inr q)" "pools_ok ops (j # held) ps2" "pl_config ps2 = pl_config ps"
        "in_flight ps2 (j # held) (Inr q) = Suc (in_flight ps held (Inr q))"
        "\<forall>k. k \<noteq> Inr q \<longrightarrow> in_flight ps2 (j # held) k = in_flight ps held k" by simp_all
      then have same: "full ps2 (j # held) (Inl m) = full ps held (Inl m)" by (simp add: full_def)
      obtain i ps3 where s: "semaphore_for ops m ps2 = (i, ps3)" by fastforce
      note look3 = semaphore_for_ok [OF two(2) laws s]
      note three = slot_of_pool [OF two(2) laws look3]
      show ?thesis
      proof (cases "take_slot ops i ps3")
        case None
        have "pools_ok ops held (give_slot ops j ps3)"
          using give_slot_ok [OF looked_up_ok [OF look3] laws, of j] by simp
        with None three same show ?thesis using pf Some t s by (simp add: try_acquire_def)
      next
        case (Some ps4)
        with three two same g \<open>found = Some j\<close> pf t s show ?thesis
          by (simp add: try_acquire_def slots_def)
      qed
    qed
  qed
qed

theorem acquire_when_there_is_room_witness:
  "fst (try_acquire ex_sems ''p'' ''m'' (pools_new (\<lambda>_. 0) ex_limits)) \<noteq> None"
proof -
  have run: "pool_run ex_sems [ex_limits] [] (pools_new (\<lambda>_. 0) ex_limits :: nat pools)"
    by (rule started [OF ex_limits_ok])
  have "\<not> full (pools_new (\<lambda>_. 0) ex_limits :: nat pools) [] (Inl ''m'')"
    "\<not> full (pools_new (\<lambda>_. 0) ex_limits :: nat pools) [] (Inr ''p'')"
    by (simp_all add: full_def in_flight_def pools_new_def ex_limits_def limit_for_def provider_limit_for_def target_def)
  with acquire_when_there_is_room [OF run ex_sems_laws, of "''p''" "''m''"]
  show ?thesis by (auto simp: Let_def split: prod.splits option.splits)
qed

end
