(* ===== verification/Shell_Lex.thy ===== *)
theory Shell_Lex
  imports Prelude "HOL-Library.Sublist"
begin

text \<open>
  Splitting a shell line into its commands, \<open>crates/leviath-cli/src/shell_keys.rs\<close>. A
  character is one of the first 256 code points. The loop inside double quotes and the one
  outside are one function with a flag, and a command substitution is read by the same
  function, on the shorter text inside its parentheses.
\<close>

subsection \<open>Characters\<close>

abbreviation quote_char :: char where "quote_char \<equiv> CHR 0x27"
abbreviation dquote_char :: char where "dquote_char \<equiv> CHR 0x22"
abbreviation backtick :: char where "backtick \<equiv> CHR 0x60"
abbreviation backslash :: char where "backslash \<equiv> CHR 0x5C"
abbreviation newline :: char where "newline \<equiv> CHR 0x0A"
abbreviation tab :: char where "tab \<equiv> CHR 0x09"

definition is_whitespace :: "char \<Rightarrow> bool" where
  "is_whitespace c \<longleftrightarrow> (of_char c :: nat) \<in> {9, 10, 11, 12, 13, 32, 133, 160}"

definition is_ascii_digit :: "char \<Rightarrow> bool" where
  "is_ascii_digit c \<longleftrightarrow> 48 \<le> (of_char c :: nat) \<and> (of_char c :: nat) \<le> 57"

subsection \<open>The pieces of a line\<close>

record word =
  w_text :: string
  w_literal :: bool
  w_quoted :: bool

record segment =
  sg_words :: "word list"
  sg_writes :: "word list"
  sg_reads :: "word list"

datatype swallow = SwallowWrite | SwallowRead | SwallowOther | SwallowDup

record heredoc =
  h_delimiter :: string
  h_literal :: bool
  h_strip_tabs :: bool

record lexer =
  lx_segments :: "segment list"
  lx_current :: "word list"
  lx_writes :: "word list"
  lx_reads :: "word list"
  lx_word :: string
  lx_in_word :: bool
  lx_literal :: bool
  lx_quoted :: bool
  lx_swallow :: "swallow option"
  lx_pending_heredocs :: "heredoc list"

definition lexer_default :: lexer where
  "lexer_default = \<lparr>lx_segments = [], lx_current = [], lx_writes = [], lx_reads = [], lx_word = [],
     lx_in_word = False, lx_literal = False, lx_quoted = False, lx_swallow = None,
     lx_pending_heredocs = []\<rparr>"

definition begin_word :: "lexer \<Rightarrow> lexer" where
  "begin_word lx = (if lx_in_word lx then lx
     else lx\<lparr>lx_in_word := True, lx_literal := True, lx_quoted := False\<rparr>)"

definition push_char :: "char \<Rightarrow> lexer \<Rightarrow> lexer" where
  "push_char c lx = lx\<lparr>lx_word := lx_word lx @ [c]\<rparr>"

definition discard_word :: "lexer \<Rightarrow> lexer" where
  "discard_word lx = lx\<lparr>lx_word := [], lx_in_word := False, lx_literal := True, lx_quoted := False\<rparr>"

definition is_descriptor :: "string \<Rightarrow> bool" where
  "is_descriptor text \<longleftrightarrow> text = ''-'' \<or> (text \<noteq> [] \<and> list_all is_ascii_digit text)"

definition end_word :: "lexer \<Rightarrow> lexer" where
  "end_word lx =
     (if lx_in_word lx then
        let w = \<lparr>w_text = lx_word lx, w_literal = lx_literal lx, w_quoted = lx_quoted lx\<rparr>;
            lx1 = lx\<lparr>lx_word := [], lx_swallow := None\<rparr> in
        discard_word
          (case lx_swallow lx of
             Some SwallowWrite \<Rightarrow> lx1\<lparr>lx_writes := lx_writes lx1 @ [w]\<rparr>
           | Some SwallowRead \<Rightarrow> lx1\<lparr>lx_reads := lx_reads lx1 @ [w]\<rparr>
           | Some SwallowOther \<Rightarrow> lx1
           | Some SwallowDup \<Rightarrow>
               if is_descriptor (w_text w) then lx1 else lx1\<lparr>lx_writes := lx_writes lx1 @ [w]\<rparr>
           | None \<Rightarrow> lx1\<lparr>lx_current := lx_current lx1 @ [w]\<rparr>)
      else discard_word lx)"

definition end_segment :: "lexer \<Rightarrow> lexer" where
  "end_segment lx =
     lx\<lparr>lx_swallow := None,
       lx_segments := lx_segments lx @
         [\<lparr>sg_words = lx_current lx, sg_writes = lx_writes lx, sg_reads = lx_reads lx\<rparr>],
       lx_current := [], lx_writes := [], lx_reads := []\<rparr>"

subsection \<open>Quotes, substitutions and heredocs\<close>

text \<open>The text up to a closing character, and what follows it.\<close>

fun take_until :: "char \<Rightarrow> string \<Rightarrow> (string \<times> string) option" where
  "take_until q [] = None"
| "take_until q (c # cs) =
     (if c = q then Some ([], cs)
      else map_option (\<lambda>(text, rest). (c # text, rest)) (take_until q cs))"

fun take_substitution :: "nat \<Rightarrow> string \<Rightarrow> (string \<times> string) option" where
  "take_substitution depth [] = None"
| "take_substitution depth (c # cs) =
     (if c = CHR ''('' then map_option (\<lambda>(inner, rest). (c # inner, rest)) (take_substitution (Suc depth) cs)
      else if c = CHR '')'' then
        (case depth of
           0 \<Rightarrow> Some ([], cs)
         | Suc d \<Rightarrow> map_option (\<lambda>(inner, rest). (c # inner, rest)) (take_substitution d cs))
      else map_option (\<lambda>(inner, rest). (c # inner, rest)) (take_substitution depth cs))"

text \<open>What follows a dollar: nothing or arithmetic, which run nothing, or a substitution.\<close>

datatype dollar = Expands string | Substitutes string string

definition next_is :: "char \<Rightarrow> string \<Rightarrow> bool" where
  "next_is c cs \<longleftrightarrow> cs \<noteq> [] \<and> hd cs = c"

definition split_dollar :: "string \<Rightarrow> dollar option" where
  "split_dollar cs =
     (if \<not> next_is (CHR ''('') cs then Some (Expands cs)
      else if next_is (CHR ''('') (tl cs) then
        (case take_substitution 0 (tl (tl cs)) of
           None \<Rightarrow> None
         | Some (_, rest) \<Rightarrow> if next_is (CHR '')'') rest then Some (Expands (tl rest)) else None)
      else map_option (\<lambda>(inner, rest). Substitutes inner rest) (take_substitution 0 (tl cs)))"

lemma take_until_shorter: "take_until q cs = Some (inner, rest) \<Longrightarrow> length inner + length rest < length cs"
  by (induction cs arbitrary: inner) (auto split: if_splits)

lemma take_substitution_shorter:
  "take_substitution depth cs = Some (inner, rest) \<Longrightarrow> length inner + length rest < length cs"
  by (induction depth cs arbitrary: inner rule: take_substitution.induct)
     (auto split: if_splits nat.splits)

lemma next_is_Cons [simp]: "next_is c [] = False" "next_is c (d # cs) = (d = c)"
  by (auto simp: next_is_def)

lemma split_dollar_shorter:
  "split_dollar cs = Some (Expands rest) \<Longrightarrow> length rest \<le> length cs"
  "split_dollar cs = Some (Substitutes inner rest) \<Longrightarrow> length inner + length rest < length cs"
proof -
  show "split_dollar cs = Some (Expands rest) \<Longrightarrow> length rest \<le> length cs"
    by (auto simp: split_dollar_def dest!: take_substitution_shorter split: if_splits option.splits)
  show "split_dollar cs = Some (Substitutes inner rest) \<Longrightarrow> length inner + length rest < length cs"
    by (auto simp: split_dollar_def dest!: take_substitution_shorter split: if_splits option.splits)
qed

text \<open>
  The word after \<open><<\<close> that ends a heredoc, with its quoting, and the lines up to it. A
  closing quote or a delimiter that never comes makes the whole line unreadable.
\<close>

definition ends_delimiter :: "char \<Rightarrow> bool" where
  "ends_delimiter c \<longleftrightarrow> is_whitespace c \<or> c \<in> set '';&|()<>''"

function take_delimiter :: "bool \<Rightarrow> string \<Rightarrow> string \<Rightarrow> bool \<Rightarrow> (string \<times> bool \<times> string) option" where
  "take_delimiter escapes [] d literal = Some (d, literal, [])"
| "take_delimiter escapes (c # cs) d literal =
     (if c = quote_char \<or> c = dquote_char then
        (case take_until c cs of
           None \<Rightarrow> None
         | Some (inner, rest) \<Rightarrow> take_delimiter escapes rest (d @ inner) True)
      else if c = backslash \<and> escapes then
        (case cs of [] \<Rightarrow> None | e # rest \<Rightarrow> take_delimiter escapes rest (d @ [e]) True)
      else if ends_delimiter c then Some (d, literal, c # cs)
      else take_delimiter escapes cs (d @ [c]) literal)"
  by pat_completeness auto
termination
  by (relation "measure (\<lambda>(_, cs, _, _). length cs)") (auto dest!: take_until_shorter)

definition take_heredoc_delimiter :: "bool \<Rightarrow> bool \<Rightarrow> string \<Rightarrow> (heredoc \<times> string) option" where
  "take_heredoc_delimiter escapes strip_tabs cs =
     (case take_delimiter escapes cs [] False of
        None \<Rightarrow> None
      | Some (d, literal, rest) \<Rightarrow>
          if d = [] then None
          else Some (\<lparr>h_delimiter = d, h_literal = literal, h_strip_tabs = strip_tabs\<rparr>, rest))"

text \<open>One line of a body, whether it ended, and what follows it.\<close>

definition take_line :: "string \<Rightarrow> string \<times> bool \<times> string" where
  "take_line cs = (case take_until newline cs of
     Some (line, rest) \<Rightarrow> (line, True, rest) | None \<Rightarrow> (cs, False, []))"

definition substitutes_in :: "string \<Rightarrow> bool" where
  "substitutes_in line \<longleftrightarrow> backtick \<in> set line \<or> sublist ''$('' line"

definition heredoc_ends :: "heredoc \<Rightarrow> string \<Rightarrow> bool" where
  "heredoc_ends h line \<longleftrightarrow>
     (if h_strip_tabs h then dropWhile (\<lambda>c. c = tab) line else line) = h_delimiter h"

function take_heredoc_body :: "heredoc \<Rightarrow> string \<Rightarrow> string option" where
  "take_heredoc_body h cs =
     (case take_line cs of (line, line_ended, rest) \<Rightarrow>
       if heredoc_ends h line then Some rest
       else if \<not> h_literal h \<and> substitutes_in line then None
       else if \<not> line_ended then None
       else take_heredoc_body h rest)"
  by pat_completeness auto
termination
  by (relation "measure (\<lambda>(_, cs). length cs)")
     (auto simp: take_line_def dest!: take_until_shorter split: option.splits)

declare take_heredoc_body.simps [simp del]

fun take_bodies :: "heredoc list \<Rightarrow> string \<Rightarrow> string option" where
  "take_bodies [] cs = Some cs"
| "take_bodies (h # hs) cs = (case take_heredoc_body h cs of None \<Rightarrow> None | Some rest \<Rightarrow> take_bodies hs rest)"

lemma take_delimiter_shorter:
  "take_delimiter escapes cs d literal = Some (d', literal', rest) \<Longrightarrow> length rest \<le> length cs"
proof (induction escapes cs d literal rule: take_delimiter.induct)
  case (2 escapes c cs d literal)
  then show ?case
    by (auto split: if_splits option.splits list.splits dest!: take_until_shorter) (fastforce+)?
qed simp

lemma take_heredoc_body_shorter: "take_heredoc_body h cs = Some rest \<Longrightarrow> length rest \<le> length cs"
proof (induction h cs rule: take_heredoc_body.induct)
  case (1 h cs)
  obtain line ended rest' where l: "take_line cs = (line, ended, rest')" by (cases "take_line cs") auto
  then have shorter: "length rest' \<le> length cs"
    by (auto simp: take_line_def dest!: take_until_shorter split: option.splits)
  moreover from "1.prems" l have "rest = rest' \<or> \<not> heredoc_ends h line \<and>
      \<not> (\<not> h_literal h \<and> substitutes_in line) \<and> ended \<and> take_heredoc_body h rest' = Some rest"
    by (subst (asm) take_heredoc_body.simps) (auto split: if_splits)
  ultimately show ?case using "1.IH" [of line "(ended, rest')" ended rest'] l by fastforce
qed

lemma take_bodies_shorter: "take_bodies hs cs = Some rest \<Longrightarrow> length rest \<le> length cs"
  by (induction hs cs rule: take_bodies.induct)
     (auto dest!: take_heredoc_body_shorter split: option.splits)

subsection \<open>The lexer\<close>

text \<open>What a redirect operator takes with it, and what the word after it is for.\<close>

definition skip :: "bool \<Rightarrow> string \<Rightarrow> string" where
  "skip found cs = (if found then tl cs else cs)"

definition take_redirect :: "char \<Rightarrow> string \<Rightarrow> swallow \<times> string" where
  "take_redirect c cs =
     (let cs1 = skip (next_is c cs) cs;
          cs2 = skip (c = CHR ''>'' \<and> next_is (CHR ''|'') cs1) cs1;
          dup = next_is (CHR ''&'') cs2;
          cs3 = skip dup cs2;
          read_write = (c = CHR ''<'' \<and> next_is (CHR ''>'') cs3)
      in (if c = CHR ''>'' \<and> dup then SwallowDup
          else if dup then SwallowOther
          else if c = CHR ''>'' \<or> read_write then SwallowWrite
          else SwallowRead,
          skip read_write cs3))"

text \<open>A descriptor number written in front of an operator is part of it.\<close>

definition before_operator :: "lexer \<Rightarrow> lexer" where
  "before_operator lx =
     discard_word (if list_all is_ascii_digit (lx_word lx) then lx else end_word lx)"

definition open_heredoc :: "bool \<Rightarrow> string \<Rightarrow> (heredoc \<times> string) option" where
  "open_heredoc escapes cs =
     (let strip_tabs = next_is (CHR ''-'') cs;
          cs1 = dropWhile (\<lambda>c. c = CHR '' '' \<or> c = tab) (skip strip_tabs cs)
      in take_heredoc_delimiter escapes strip_tabs cs1)"

definition is_separator :: "char \<Rightarrow> bool" where
  "is_separator c \<longleftrightarrow> c = CHR '';'' \<or> c = CHR ''&'' \<or> c = CHR ''|'' \<or> c = newline \<or> c = CHR ''('' \<or> c = CHR '')''"

definition after_dollar :: "bool \<Rightarrow> lexer \<Rightarrow> lexer" where
  "after_dollar in_quotes lx = (if in_quotes then lx else begin_word lx)\<lparr>lx_literal := False\<rparr>"

text \<open>The end of the input: the last word, the last command, and no heredoc left open.\<close>

definition finish :: "lexer \<Rightarrow> segment list option" where
  "finish lx = (let lx' = end_segment (end_word lx) in
     if lx_pending_heredocs lx' \<noteq> [] then None else Some (lx_segments lx'))"

text \<open>
  One turn of the loop: it fails, or goes on with what is left, or first reads the commands
  inside a substitution.
\<close>

datatype turn = Fails | Next bool lexer string | Inner string bool lexer string

definition separator_turn :: "lexer \<Rightarrow> char \<Rightarrow> string \<Rightarrow> turn" where
  "separator_turn lx c cs =
     (let cs1 = skip ((c = CHR ''&'' \<or> c = CHR ''|'') \<and> next_is c cs) cs;
          lx1 = end_segment (end_word lx) in
      if c = newline then
        (case take_bodies (lx_pending_heredocs lx1) cs1 of
           None \<Rightarrow> Fails
         | Some rest \<Rightarrow> Next False (lx1\<lparr>lx_pending_heredocs := []\<rparr>) rest)
      else Next False lx1 cs1)"

definition quoted_turn :: "bool \<Rightarrow> lexer \<Rightarrow> char \<Rightarrow> string \<Rightarrow> turn" where
  "quoted_turn escapes lx c cs =
     (if c = dquote_char then Next False lx cs
      else if c = backslash \<and> escapes then
        (case cs of
           [] \<Rightarrow> Fails
         | e # rest \<Rightarrow>
             Next True (push_char e (if e \<in> {CHR ''$'', dquote_char, backslash, backtick} then lx
                                     else push_char backslash lx)) rest)
      else Next True (push_char c lx) cs)"

definition plain_turn :: "bool \<Rightarrow> lexer \<Rightarrow> char \<Rightarrow> string \<Rightarrow> turn" where
  "plain_turn escapes lx c cs =
     (if c = quote_char then
        (case take_until quote_char cs of
           None \<Rightarrow> Fails
         | Some (inner, rest) \<Rightarrow>
             let lx1 = (begin_word lx)\<lparr>lx_quoted := True\<rparr> in
             Next False (lx1\<lparr>lx_word := lx_word lx1 @ inner\<rparr>) rest)
      else if c = dquote_char then Next True ((begin_word lx)\<lparr>lx_quoted := True\<rparr>) cs
      else if c = backslash then
        (if escapes then
           (case cs of [] \<Rightarrow> Fails | e # rest \<Rightarrow> Next False (push_char e (begin_word lx)) rest)
         else Next False (push_char backslash (begin_word lx)) cs)
      else if c = CHR ''<'' \<and> next_is (CHR ''<'') cs then
        (if \<not> escapes then Fails
         else case open_heredoc escapes (tl cs) of
           None \<Rightarrow> Fails
         | Some (h, rest) \<Rightarrow>
             let lx1 = before_operator lx in
             Next False (lx1\<lparr>lx_pending_heredocs := lx_pending_heredocs lx1 @ [h]\<rparr>) rest)
      else if c = CHR ''>'' \<or> c = CHR ''<'' then
        (let (sw, rest) = take_redirect c cs in
         Next False ((before_operator lx)\<lparr>lx_swallow := Some sw\<rparr>) rest)
      else if c = CHR ''&'' \<and> next_is (CHR ''>'') cs then
        Next False ((end_word lx)\<lparr>lx_swallow := Some SwallowWrite\<rparr>) (tl cs)
      else if is_separator c then separator_turn lx c cs
      else if is_whitespace c then Next False (end_word lx) cs
      else Next False (push_char c (begin_word lx)) cs)"

definition lex_turn :: "bool \<Rightarrow> bool \<Rightarrow> lexer \<Rightarrow> char \<Rightarrow> string \<Rightarrow> turn" where
  "lex_turn escapes in_quotes lx c cs =
     (if c = CHR ''$'' then
        (case split_dollar cs of
           None \<Rightarrow> Fails
         | Some (Expands rest) \<Rightarrow> Next in_quotes (after_dollar in_quotes lx) rest
         | Some (Substitutes inner rest) \<Rightarrow> Inner inner in_quotes (after_dollar in_quotes lx) rest)
      else if c = backtick then Fails
      else if in_quotes then quoted_turn escapes lx c cs
      else plain_turn escapes lx c cs)"

lemma skip_shorter: "length (skip b cs) \<le> length cs"
  by (simp add: skip_def)

lemma take_redirect_shorter: "take_redirect c cs = (sw, rest) \<Longrightarrow> length rest \<le> length cs"
  by (auto simp: take_redirect_def Let_def skip_def)

lemma open_heredoc_shorter:
  assumes "open_heredoc escapes cs = Some (h, rest)"
  shows "length rest \<le> length cs"
proof -
  let ?d = "dropWhile (\<lambda>c. c = CHR '' '' \<or> c = tab) (skip (next_is (CHR ''-'') cs) cs)"
  have "length rest \<le> length ?d"
    using assms by (auto simp: open_heredoc_def take_heredoc_delimiter_def Let_def dest!: take_delimiter_shorter
        split: option.splits if_splits)
  also have "\<dots> \<le> length (skip (next_is (CHR ''-'') cs) cs)" by (rule length_dropWhile_le)
  also have "\<dots> \<le> length cs" by (rule skip_shorter)
  finally show ?thesis .
qed

lemma separator_turn_shorter: "separator_turn lx c cs = Next q lx1 rest \<Longrightarrow> length rest \<le> length cs"
  by (auto simp: separator_turn_def Let_def skip_def dest!: take_bodies_shorter split: if_splits option.splits)

lemma lex_turn_shorter:
  "lex_turn escapes in_quotes lx c cs = Next q lx1 rest \<Longrightarrow> length rest < Suc (length cs)"
  "lex_turn escapes in_quotes lx c cs = Inner inner q lx1 rest \<Longrightarrow> length inner + length rest < Suc (length cs)"
proof -
  have quoted: "quoted_turn escapes lx c cs = Next q lx1 rest \<Longrightarrow> length rest \<le> length cs" for c
    by (auto simp: quoted_turn_def split: if_splits list.splits)
  have plain: "length rest \<le> length cs" if "plain_turn escapes lx c cs = Next q lx1 rest" for c
  proof -
    have "open_heredoc escapes (tl cs) = Some (h, rest) \<Longrightarrow> length rest \<le> length cs" for h
      using open_heredoc_shorter [of escapes "tl cs" h rest] by simp
    with that show ?thesis
      by (auto simp: plain_turn_def Let_def dest!: take_until_shorter take_redirect_shorter [OF sym [THEN sym]]
          separator_turn_shorter split: if_splits list.splits option.splits prod.splits)
  qed
  show "lex_turn escapes in_quotes lx c cs = Next q lx1 rest \<Longrightarrow> length rest < Suc (length cs)"
    using quoted [of c] plain [of c]
    by (auto simp: lex_turn_def dest!: split_dollar_shorter(1) split: if_splits option.splits dollar.splits)
  show "lex_turn escapes in_quotes lx c cs = Inner inner q lx1 rest \<Longrightarrow> length inner + length rest < Suc (length cs)"
    by (auto simp: lex_turn_def quoted_turn_def plain_turn_def separator_turn_def Let_def
        dest!: split_dollar_shorter(2) split: if_splits option.splits dollar.splits list.splits prod.splits)
qed

function lex_chars :: "bool \<Rightarrow> bool \<Rightarrow> lexer \<Rightarrow> string \<Rightarrow> segment list option" where
  "lex_chars escapes in_quotes lx [] = (if in_quotes then None else finish lx)"
| "lex_chars escapes in_quotes lx (c # cs) =
     (case lex_turn escapes in_quotes lx c cs of
        Fails \<Rightarrow> None
      | Next q lx1 rest \<Rightarrow> lex_chars escapes q lx1 rest
      | Inner inner q lx1 rest \<Rightarrow>
          (case lex_chars escapes False lexer_default inner of
             None \<Rightarrow> None
           | Some segs \<Rightarrow> lex_chars escapes q (lx1\<lparr>lx_segments := lx_segments lx1 @ segs\<rparr>) rest))"
  by pat_completeness auto

termination
  by (relation "measure (\<lambda>(_, _, _, cs). length cs)") (auto dest!: lex_turn_shorter)

declare lex_chars.simps(2) [simp del]

definition tokenize_for :: "string \<Rightarrow> bool \<Rightarrow> segment list option" where
  "tokenize_for command escapes = lex_chars escapes False lexer_default command"

end
