(* ===== verification/Shell_Keys.thy ===== *)
theory Shell_Keys
  imports Shell_Lex "HOL-Library.List_Lexorder" "HOL-Library.Char_ord"
begin

text \<open>
  The keys a shell line's commands are remembered under, and what covers them,
  \<open>crates/leviath-cli/src/shell_keys.rs\<close>. A set the code keeps in order is a sorted list
  without duplicates. Whether the shell reads a backslash as an escape, which the code fixes
  by platform, is an argument.
\<close>

subsection \<open>Words that are not programs\<close>

definition KEY_PREFIX :: string where "KEY_PREFIX = ''shell:''"

definition PREFIX_KEYWORDS :: "string list" where
  "PREFIX_KEYWORDS =
     [''if'', ''elif'', ''then'', ''else'', ''do'', ''while'', ''until'', ''!'', ''{'', ''}'']"

definition INERT_KEYWORDS :: "string list" where
  "INERT_KEYWORDS =
     [''for'', ''in'', ''case'', ''esac'', ''fi'', ''done'', ''select'', ''break'', ''continue'',
      ''return'', ''shift'', ''exit'', ''jobs'', ''disown'', ''wait'', ''set'', ''umask'']"

definition ENV_BINDING :: "string list" where
  "ENV_BINDING = [''export'', ''unset'', ''local'', ''readonly'', ''declare'', ''typeset'']"

definition CODE_INSTALLING :: "string list" where
  "CODE_INSTALLING = [''function'', ''trap'', ''alias'', ''unalias'']"

definition ESCAPE_FLAGS :: "(string \<times> string list) list" where
  "ESCAPE_FLAGS = [(''git'', [''--output''])]"

definition carries_escape_flag :: "string \<Rightarrow> word list \<Rightarrow> bool" where
  "carries_escape_flag program words =
     list_ex (\<lambda>(name, flags). name = program \<and>
       list_ex (\<lambda>w. list_ex (\<lambda>f. prefix f (w_text w)) flags) (drop 1 words)) ESCAPE_FLAGS"

definition UNREADABLE_PROGRAMS :: "string list" where
  "UNREADABLE_PROGRAMS = [''eval'', ''source'', ''.'']"

definition NEVER_FOLD :: "string list" where
  "NEVER_FOLD = [''cd'', ''echo'', ''printf'']"

subsection \<open>Writes\<close>

datatype write_target = Discarded | WritePath string | UnreadableTarget

definition DISCARDING_TARGETS :: "string list" where
  "DISCARDING_TARGETS = [''/dev/null'', ''/dev/stdout'', ''/dev/stderr'']"

definition NULL_DEVICE_NAMES :: "string list" where
  "NULL_DEVICE_NAMES = [''NUL'']"

definition NETWORK_TARGET_PREFIXES :: "string list" where
  "NETWORK_TARGET_PREFIXES = [''/dev/tcp/'', ''/dev/udp/'']"

definition eq_ignore_ascii_case :: "string \<Rightarrow> string \<Rightarrow> bool" where
  "eq_ignore_ascii_case s t \<longleftrightarrow> to_ascii_lowercase s = to_ascii_lowercase t"

definition classify_write :: "word \<Rightarrow> write_target" where
  "classify_write t =
     (if \<not> w_literal t then UnreadableTarget
      else if List.member DISCARDING_TARGETS (w_text t) \<or> prefix ''/dev/fd/'' (w_text t) \<or>
              list_ex (eq_ignore_ascii_case (w_text t)) NULL_DEVICE_NAMES then Discarded
      else if list_ex (\<lambda>p. prefix p (w_text t)) NETWORK_TARGET_PREFIXES then UnreadableTarget
      else WritePath (w_text t))"

definition write_key :: "string \<Rightarrow> string" where
  "write_key path = CHR ''>'' # path"

subsection \<open>What a segment runs\<close>

definition env_key :: "string \<Rightarrow> string" where
  "env_key name = ''env:'' @ name"

definition is_ascii_alphabetic :: "char \<Rightarrow> bool" where
  "is_ascii_alphabetic c \<longleftrightarrow> (65 \<le> (of_char c :: nat) \<and> (of_char c :: nat) \<le> 90) \<or>
     (97 \<le> (of_char c :: nat) \<and> (of_char c :: nat) \<le> 122)"

definition is_variable_name :: "string \<Rightarrow> bool" where
  "is_variable_name name \<longleftrightarrow> name \<noteq> [] \<and> (is_ascii_alphabetic (hd name) \<or> hd name = CHR ''_'') \<and>
     list_all (\<lambda>c. is_ascii_alphabetic c \<or> is_ascii_digit c \<or> c = CHR ''_'') name"

text \<open>The keys of the names a binding builtin touches, or nothing when one cannot be read.\<close>

fun binding_keys :: "word list \<Rightarrow> string list \<Rightarrow> string list option" where
  "binding_keys [] out = Some out"
| "binding_keys (arg # args) out =
     (if prefix ''-'' (w_text arg) \<or> prefix ''+'' (w_text arg) then binding_keys args out
      else if \<not> w_literal arg then None
      else let name = (case split_once (CHR ''='') (w_text arg) of Some (n, _) \<Rightarrow> n | None \<Rightarrow> w_text arg) in
        if \<not> is_variable_name name then None
        else binding_keys args (out @ [env_key name]))"

definition assignment_name :: "word \<Rightarrow> string option" where
  "assignment_name w =
     (case split_once (CHR ''='') (w_text w) of
        None \<Rightarrow> None
      | Some (name, _) \<Rightarrow> if is_variable_name name then Some name else None)"

datatype stripped = StripNothing "string list" | StripUnreadable | StripProgram "string list" "word list"

fun strip_from :: "string list \<Rightarrow> word list \<Rightarrow> stripped" where
  "strip_from env_keys [] = StripNothing env_keys"
| "strip_from env_keys (w # rest) =
     (if List.member INERT_KEYWORDS (w_text w) then StripNothing env_keys
      else if List.member CODE_INSTALLING (w_text w) then StripUnreadable
      else if List.member ENV_BINDING (w_text w) then
        (case binding_keys rest env_keys of Some keys \<Rightarrow> StripNothing keys | None \<Rightarrow> StripUnreadable)
      else if List.member PREFIX_KEYWORDS (w_text w) then strip_from env_keys rest
      else case assignment_name w of
        Some name \<Rightarrow> strip_from (env_keys @ [env_key name]) rest
      | None \<Rightarrow>
          if \<not> w_literal w \<or> List.member UNREADABLE_PROGRAMS (w_text w) then StripUnreadable
          else if carries_escape_flag (w_text w) (w # rest) then StripUnreadable
          else StripProgram env_keys (w # rest))"

definition strip_to_program :: "word list \<Rightarrow> stripped" where
  "strip_to_program words = strip_from [] words"

definition folds_into_key :: "string \<Rightarrow> word \<Rightarrow> bool" where
  "folds_into_key program arg \<longleftrightarrow> w_literal arg \<and> \<not> w_quoted arg \<and> \<not> List.member NEVER_FOLD program \<and>
     w_text arg \<noteq> [] \<and> \<not> prefix ''-'' (w_text arg) \<and> \<not> is_ascii_digit (hd (w_text arg))"

definition program_keys :: "string list \<Rightarrow> word list \<Rightarrow> string list" where
  "program_keys keys rest =
     (let program = hd rest in
      case tl rest of
        arg # _ \<Rightarrow> if folds_into_key (w_text program) arg
                   then keys @ [w_text program @ '' '' @ w_text arg] else keys @ [w_text program]
      | [] \<Rightarrow> keys @ [w_text program])"

datatype segment_key = SegKeys "string list" | NothingRuns | Unreadable

definition from_keys :: "string list \<Rightarrow> segment_key" where
  "from_keys keys = (if keys = [] then NothingRuns else SegKeys keys)"

definition segment_key :: "word list \<Rightarrow> segment_key" where
  "segment_key words =
     (case strip_to_program words of
        StripNothing keys \<Rightarrow> from_keys keys
      | StripUnreadable \<Rightarrow> Unreadable
      | StripProgram env_keys rest \<Rightarrow> SegKeys (program_keys env_keys rest))"

subsection \<open>The keys of a line\<close>

text \<open>The keys of each segment and each write, or nothing at the first that cannot be read.\<close>

fun write_keys :: "word list \<Rightarrow> string list option" where
  "write_keys [] = Some []"
| "write_keys (t # ts) =
     (case classify_write t of
        Discarded \<Rightarrow> write_keys ts
      | WritePath path \<Rightarrow> map_option (\<lambda>ks. (KEY_PREFIX @ write_key path) # ks) (write_keys ts)
      | UnreadableTarget \<Rightarrow> None)"

fun collect_keys :: "segment list \<Rightarrow> string list option" where
  "collect_keys [] = Some []"
| "collect_keys (s # ss) =
     (case segment_key (sg_words s) of
        Unreadable \<Rightarrow> None
      | sk \<Rightarrow>
          (case write_keys (sg_writes s) of
             None \<Rightarrow> None
           | Some written \<Rightarrow>
               map_option (\<lambda>ks. (case sk of SegKeys found \<Rightarrow> map (\<lambda>k. KEY_PREFIX @ k) found | _ \<Rightarrow> [])
                                @ written @ ks) (collect_keys ss)))"

definition keys_from_segments :: "segment list \<Rightarrow> string list" where
  "keys_from_segments segments =
     (case collect_keys segments of None \<Rightarrow> [] | Some ks \<Rightarrow> sort (remdups ks))"

definition command_keys :: "bool \<Rightarrow> string \<Rightarrow> string list" where
  "command_keys escapes command =
     (case tokenize_for command escapes of None \<Rightarrow> [] | Some segments \<Rightarrow> keys_from_segments segments)"

subsection \<open>What covers a line\<close>

definition program_of :: "string \<Rightarrow> string" where
  "program_of key = (case split_once (CHR '' '') key of Some (program, _) \<Rightarrow> program | None \<Rightarrow> key)"

definition uncovered_keys :: "string list \<Rightarrow> (string \<Rightarrow> bool) \<Rightarrow> (string \<Rightarrow> bool) \<Rightarrow> string list" where
  "uncovered_keys keys safe granted =
     filter (\<lambda>k. \<not> (safe k \<or> safe (program_of k) \<or> granted k)) keys"

definition all_covered :: "string list \<Rightarrow> (string \<Rightarrow> bool) \<Rightarrow> (string \<Rightarrow> bool) \<Rightarrow> bool" where
  "all_covered keys safe granted \<longleftrightarrow> keys \<noteq> [] \<and> uncovered_keys keys safe granted = []"

definition is_valid_prefix :: "bool \<Rightarrow> string \<Rightarrow> bool" where
  "is_valid_prefix escapes entry \<longleftrightarrow>
     \<not> prefix ''>'' entry \<and> command_keys escapes entry = [KEY_PREFIX @ entry]"

subsection \<open>Where a line writes\<close>

definition writes_a_file :: "bool \<Rightarrow> string \<Rightarrow> bool" where
  "writes_a_file escapes command =
     (case tokenize_for command escapes of
        None \<Rightarrow> True
      | Some segments \<Rightarrow> list_ex (\<lambda>s. list_ex (\<lambda>t. classify_write t \<noteq> Discarded) (sg_writes s)) segments)"

datatype write_targets = KnownTargets "string list" | UnreadableTargets

definition write_targets_for :: "string \<Rightarrow> bool \<Rightarrow> write_targets" where
  "write_targets_for command escapes =
     (case tokenize_for command escapes of
        None \<Rightarrow> if List.member command (CHR ''>'') then UnreadableTargets else KnownTargets []
      | Some segments \<Rightarrow> KnownTargets
          (List.map_filter (\<lambda>t. case classify_write t of WritePath p \<Rightarrow> Some p | _ \<Rightarrow> None)
            (concat (map sg_writes segments))))"

definition write_target_paths :: "bool \<Rightarrow> string \<Rightarrow> string list" where
  "write_target_paths escapes command =
     (case write_targets_for command escapes of KnownTargets paths \<Rightarrow> paths | UnreadableTargets \<Rightarrow> [])"

subsection \<open>A line as rules match it\<close>

record matchable_segment =
  ms_words :: "string list"
  ms_opaque :: bool
  ms_writes :: bool

definition matchable :: "segment \<Rightarrow> matchable_segment option" where
  "matchable s =
     (let writes = list_ex (\<lambda>t. classify_write t \<noteq> Discarded) (sg_writes s) in
      case strip_to_program (sg_words s) of
        StripNothing keys \<Rightarrow> if keys = [] \<and> \<not> writes then None
          else Some \<lparr>ms_words = [], ms_opaque = True, ms_writes = writes\<rparr>
      | StripUnreadable \<Rightarrow> Some \<lparr>ms_words = [], ms_opaque = True, ms_writes = writes\<rparr>
      | StripProgram env_keys words \<Rightarrow> Some
          \<lparr>ms_words = map w_text words,
           ms_opaque = (env_keys \<noteq> [] \<or> list_ex (\<lambda>w. \<not> w_literal w) words), ms_writes = writes\<rparr>)"

definition matchable_segments :: "string \<Rightarrow> bool \<Rightarrow> matchable_segment list option" where
  "matchable_segments command escapes =
     (case tokenize_for command escapes of
        None \<Rightarrow> None
      | Some segments \<Rightarrow> Some (List.map_filter matchable segments))"

end
