(* ===== verification/Tool_Policy.thy ===== *)
theory Tool_Policy
  imports Region Shell_Keys
begin

text \<open>
  What policy a tool call runs under, \<open>crates/leviath-cli/src/tools.rs\<close>, the names a tool
  answers to, \<open>crates/leviath-tools/src/context.rs\<close>, the write ceilings,
  \<open>crates/leviath-core/src/write_limits.rs\<close>, and the permission tables of
  \<open>crates/leviath-cli/src/config/mod.rs\<close>. A permission table is a map from tool names.
\<close>

subsection \<open>The names of a tool\<close>

definition TOOL_ALIASES :: "(string \<times> string) list" where
  "TOOL_ALIASES = [(''bash'', ''shell''), (''install_tool'', ''install_global_tool'')]"

definition canonical_tool_name :: "string \<Rightarrow> string" where
  "canonical_tool_name name = (case map_of TOOL_ALIASES name of Some canonical \<Rightarrow> canonical | None \<Rightarrow> name)"

text \<open>The first of each name, as the closure that remembers the names it has \<open>seen\<close> keeps them.\<close>

fun first_seen :: "string list \<Rightarrow> string list \<Rightarrow> string list" where
  "first_seen seen [] = []"
| "first_seen seen (s # ss) =
     (if List.member seen s then first_seen seen ss else s # first_seen (seen @ [s]) ss)"

definition tool_name_spellings :: "string \<Rightarrow> string list" where
  "tool_name_spellings name =
     (let canonical = canonical_tool_name name in
      first_seen [] (name # canonical # map fst (filter (\<lambda>(_, c). c = canonical) TOOL_ALIASES)))"

definition SUBAGENT_TOOLS :: "string list" where
  "SUBAGENT_TOOLS = [''spawn_agent'', ''check_agent'', ''wait_for_agent'', ''send_to_agent'',
     ''kill_agent'', ''spawn_schema'', ''describe_blueprint'', ''validate_spawn'', ''run_history'']"

definition is_subagent_tool :: "string \<Rightarrow> bool" where
  "is_subagent_tool name = List.member SUBAGENT_TOOLS name"

definition SPAWN_RAW_GRAPH_PERMISSION :: string where
  "SPAWN_RAW_GRAPH_PERMISSION = ''spawn_raw_graph''"

definition OUTSIDE_WORKDIR_PERMISSION :: string where
  "OUTSIDE_WORKDIR_PERMISSION = ''outside_workdir''"

subsection \<open>Policies\<close>

datatype tool_policy = PolicyAllow | PolicyAsk | PolicyDeny

type_synonym permissions = "string \<Rightarrow> tool_policy option"
type_synonym declared_permissions = "string \<Rightarrow> string option"

definition restrictiveness :: "tool_policy \<Rightarrow> nat" where
  "restrictiveness p = (case p of PolicyAllow \<Rightarrow> 0 | PolicyAsk \<Rightarrow> 1 | PolicyDeny \<Rightarrow> 2)"

definition stricter :: "tool_policy \<Rightarrow> tool_policy \<Rightarrow> tool_policy" where
  "stricter a b = (if restrictiveness b > restrictiveness a then b else a)"

text \<open>What a tool nobody configured gets, by the arms of the code's match.\<close>

definition read_only_tools :: "string list" where
  "read_only_tools = [''read_file'', ''read_files'', ''list_dir'', ''search_files'', ''glob'']"

definition context_and_checklist_tools :: "string list" where
  "context_and_checklist_tools = [''context_write'', ''context_append'', ''context_read'',
     ''context_delete'', ''context_list'', ''context_attach'', ''context_export'',
     ''todo_add'', ''todo_done'', ''todo_note'']"

definition environment_tools :: "string list" where
  "environment_tools = [''current_time'', ''system_info'', ''locale_info'', ''environment_info'',
     ''which_command'', ''runtime_info'']"

definition mutating_tools :: "string list" where
  "mutating_tools = [''write_file'', ''edit_file'', ''shell'', ''install_self_tool'', ''install_global_tool'']"

definition asking_tools :: "string list" where
  "asking_tools = [''ask_user_text'', ''ask_user_choice'', ''ask_user_confirm'', ''edit_document'']"

definition default_tool_policy :: "string \<Rightarrow> bool \<Rightarrow> tool_policy" where
  "default_tool_policy tool_name is_builtin =
     (let name = canonical_tool_name tool_name in
      if List.member read_only_tools name then PolicyAllow
      else if List.member context_and_checklist_tools name then PolicyAllow
      else if List.member environment_tools name then PolicyAllow
      else if List.member mutating_tools name then PolicyAsk
      else if List.member SUBAGENT_TOOLS name then PolicyAllow
      else if name = SPAWN_RAW_GRAPH_PERMISSION then PolicyAsk
      else if name = OUTSIDE_WORKDIR_PERMISSION then PolicyAsk
      else if List.member asking_tools name then PolicyAllow
      else PolicyAsk)"

text \<open>
  A blueprint's word as a policy. No character outside ASCII has one of these letters as its
  lower case, so the ASCII mapping reads the same words.
\<close>

definition parse_policy_str :: "string \<Rightarrow> tool_policy" where
  "parse_policy_str s =
     (let w = to_ascii_lowercase s in
      if w = ''allow'' then PolicyAllow else if w = ''deny'' then PolicyDeny else PolicyAsk)"

definition by_any_spelling :: "(string \<Rightarrow> 'v option) \<Rightarrow> string \<Rightarrow> 'v option" where
  "by_any_spelling m tool_name =
     (case List.map_filter m (tool_name_spellings tool_name) of [] \<Rightarrow> None | v # _ \<Rightarrow> Some v)"

definition BLUEPRINT_LOOSENABLE :: "string list" where
  "BLUEPRINT_LOOSENABLE = [''web_search'', ''web_fetch'']"

definition blueprint_loosenable :: "string \<Rightarrow> bool" where
  "blueprint_loosenable tool_name = list_ex (List.member BLUEPRINT_LOOSENABLE) (tool_name_spellings tool_name)"

text \<open>What the layers below the launch flags settle on, then what a flag makes of it.\<close>

definition configured_policy :: "string \<Rightarrow> bool \<Rightarrow> declared_permissions \<Rightarrow> declared_permissions \<Rightarrow>
    permissions \<Rightarrow> bool \<Rightarrow> tool_policy" where
  "configured_policy tool_name is_builtin stage agent global may_loosen =
     (let ceiling = by_any_spelling global tool_name;
          blueprint = map_option parse_policy_str
            (case by_any_spelling stage tool_name of Some s \<Rightarrow> Some s | None \<Rightarrow> by_any_spelling agent tool_name)
      in case (blueprint, ceiling) of
        (Some b, Some c) \<Rightarrow> stricter b c
      | (Some b, None) \<Rightarrow>
          let d = default_tool_policy tool_name is_builtin in
          if may_loosen \<or> blueprint_loosenable tool_name then b else stricter b d
      | (None, Some c) \<Rightarrow> c
      | (None, None) \<Rightarrow> default_tool_policy tool_name is_builtin)"

definition resolve_policy :: "string \<Rightarrow> bool \<Rightarrow> permissions \<Rightarrow> declared_permissions \<Rightarrow>
    declared_permissions \<Rightarrow> permissions \<Rightarrow> bool \<Rightarrow> tool_policy" where
  "resolve_policy tool_name is_builtin launch stage agent global may_loosen =
     (let configured = configured_policy tool_name is_builtin stage agent global may_loosen in
      if configured = PolicyDeny then PolicyDeny
      else case (case by_any_spelling launch tool_name of Some p \<Rightarrow> Some p | None \<Rightarrow> launch ''*'') of
        Some p \<Rightarrow> p
      | None \<Rightarrow> configured)"

definition launch_allows :: "permissions \<Rightarrow> string \<Rightarrow> bool" where
  "launch_allows launch tool_name \<longleftrightarrow> by_any_spelling launch tool_name = Some PolicyAllow"

text \<open>
  The table a run's calls answer to: the machine's, the agent's own over it, and the setting
  for lines that leave the working directory.
\<close>

record permission_config =
  pc_tool_permissions :: permissions
  pc_agent_tool_permissions :: "string \<Rightarrow> permissions option"
  pc_outside_denied :: bool

definition permissions_for_agent :: "permission_config \<Rightarrow> string option \<Rightarrow> permissions" where
  "permissions_for_agent cfg agent =
     (let merged = (case agent of None \<Rightarrow> pc_tool_permissions cfg
            | Some name \<Rightarrow>
                (case pc_agent_tool_permissions cfg name of
                   None \<Rightarrow> pc_tool_permissions cfg
                 | Some per_agent \<Rightarrow> (\<lambda>k. case per_agent k of Some p \<Rightarrow> Some p | None \<Rightarrow> pc_tool_permissions cfg k)))
      in if pc_outside_denied cfg then merged(OUTSIDE_WORKDIR_PERMISSION := Some PolicyDeny) else merged)"

subsection \<open>What a call does\<close>

text \<open>The string under a key of a call's arguments.\<close>

definition str_arg :: "json \<Rightarrow> string \<Rightarrow> string option" where
  "str_arg arguments key = (case json_get arguments key of Some (JStr s) \<Rightarrow> Some s | _ \<Rightarrow> None)"

definition shell_command :: "string \<Rightarrow> json \<Rightarrow> string option" where
  "shell_command tool_name arguments =
     (if canonical_tool_name tool_name = ''shell'' then str_arg arguments ''command'' else None)"

definition clamp_by_effect :: "bool \<Rightarrow> string \<Rightarrow> json \<Rightarrow> tool_policy \<Rightarrow> tool_policy \<Rightarrow> tool_policy" where
  "clamp_by_effect escapes tool_name arguments policy write_policy =
     (case shell_command tool_name arguments of
        None \<Rightarrow> policy
      | Some command \<Rightarrow> if writes_a_file escapes command then stricter policy write_policy else policy)"

definition spawns_a_raw_graph :: "string \<Rightarrow> json \<Rightarrow> bool" where
  "spawns_a_raw_graph tool_name arguments \<longleftrightarrow> tool_name = ''spawn_agent'' \<and>
     (case json_get arguments ''source'' of None \<Rightarrow> False | Some s \<Rightarrow> json_get s ''graph'' \<noteq> None)"

definition clamp_raw_graph :: "string \<Rightarrow> json \<Rightarrow> tool_policy \<Rightarrow> tool_policy \<Rightarrow> tool_policy" where
  "clamp_raw_graph tool_name arguments policy raw_policy =
     (if spawns_a_raw_graph tool_name arguments then stricter policy raw_policy else policy)"

definition session_approval_keys :: "bool \<Rightarrow> string \<Rightarrow> json \<Rightarrow> string list" where
  "session_approval_keys escapes tool_name arguments =
     (if spawns_a_raw_graph tool_name arguments then [SPAWN_RAW_GRAPH_PERMISSION]
      else if canonical_tool_name tool_name \<noteq> ''shell'' then [tool_name]
      else case str_arg arguments ''command'' of None \<Rightarrow> [] | Some command \<Rightarrow> command_keys escapes command)"

text \<open>\<open>str::len\<close>, the bytes of UTF-8: a character past ASCII, of the first 256, takes two.\<close>

definition utf8_len :: "string \<Rightarrow> nat" where
  "utf8_len s = sum_list (map (\<lambda>c. if (of_char c :: nat) < 128 then 1 else 2) s)"

lemma utf8_len_ascii: "list_all (\<lambda>c. (of_char c :: nat) < 128) s \<Longrightarrow> utf8_len s = length s"
  by (induction s) (simp_all add: utf8_len_def)

definition declared_write_bytes :: "string \<Rightarrow> json \<Rightarrow> nat option" where
  "declared_write_bytes tool_name arguments =
     (let name = canonical_tool_name tool_name;
          field = (if name = ''write_file'' then Some ''content''
            else if name = ''edit_file'' then Some ''new_str''
            else if name = ''install_self_tool'' \<or> name = ''install_global_tool'' then Some ''source''
            else None)
      in case field of None \<Rightarrow> None | Some f \<Rightarrow> map_option utf8_len (str_arg arguments f))"

subsection \<open>The write ceilings\<close>

definition MIN_FREE_BYTES :: nat where "MIN_FREE_BYTES = 1024 * 1024 * 1024"

record write_limits =
  wl_per_call :: "nat option"
  wl_per_run :: "nat option"

datatype write_verdict = WriteAllowed | OutOfSpace nat nat | CallTooLarge nat nat | RunTooLarge nat nat

definition write_refusal :: "write_verdict \<Rightarrow> string option" where
  "write_refusal v = (case v of
     WriteAllowed \<Rightarrow> None
   | OutOfSpace available required \<Rightarrow> Some (''[denied] Refusing to write: only '' @ show_nat available @
       '' bytes are free on this filesystem and '' @ show_nat required @
       '' must remain. This is not a limit you can raise - the machine is nearly out of disk. '' @
       ''Free some space, or write somewhere with room.'')
   | CallTooLarge bytes limit \<Rightarrow> Some (''[denied] This call would write '' @ show_nat bytes @
       '' bytes, over the '' @ show_nat limit @ ''-byte per-call limit. Write less in one go, or raise '' @
       ''`[limits] max_tool_call_write_bytes` in the Leviath config (deleting the line removes the limit).'')
   | RunTooLarge written limit \<Rightarrow> Some (''[denied] This run has written '' @ show_nat written @
       '' bytes, over its '' @ show_nat limit @ ''-byte budget. Raise `[limits] max_run_write_bytes` in the '' @
       ''Leviath config, or delete the line to remove the limit.''))"

definition over :: "nat option \<Rightarrow> nat \<Rightarrow> bool" where
  "over limit n = (case limit of None \<Rightarrow> False | Some l \<Rightarrow> l < n)"

definition check_write :: "write_limits \<Rightarrow> nat \<Rightarrow> nat \<Rightarrow> nat option \<Rightarrow> write_verdict" where
  "check_write limits already_written bytes available =
     (let total = saturating_add already_written bytes in
      if available \<noteq> None \<and> saturating_sub (the available) bytes < MIN_FREE_BYTES
      then OutOfSpace (the available) MIN_FREE_BYTES
      else if over (wl_per_call limits) bytes then CallTooLarge bytes (the (wl_per_call limits))
      else if over (wl_per_run limits) total then RunTooLarge total (the (wl_per_run limits))
      else WriteAllowed)"

text \<open>\<open>available\<close> is the free space the file system reports, when it does.\<close>

definition write_budget_refusal :: "bool \<Rightarrow> string \<Rightarrow> json \<Rightarrow> write_limits \<Rightarrow> nat option \<Rightarrow> nat \<Rightarrow> string option" where
  "write_budget_refusal escapes tool_name arguments limits available written =
     (let declared = declared_write_bytes tool_name arguments;
          writes_something = (declared \<noteq> None \<or>
            (case shell_command tool_name arguments of Some command \<Rightarrow> writes_a_file escapes command | None \<Rightarrow> False))
      in if \<not> writes_something then None
         else write_refusal (check_write limits written (case declared of Some n \<Rightarrow> n | None \<Rightarrow> 0) available))"

subsection \<open>Policies, ordered\<close>

text \<open>The stricter of two policies is their maximum in the order of restrictiveness.\<close>

lemma restrictiveness_eq: "restrictiveness a = restrictiveness b \<longleftrightarrow> a = b"
  by (cases a; cases b; simp add: restrictiveness_def)

instantiation tool_policy :: linorder
begin

definition less_eq_tool_policy :: "tool_policy \<Rightarrow> tool_policy \<Rightarrow> bool" where
  "less_eq_tool_policy a b \<longleftrightarrow> restrictiveness a \<le> restrictiveness b"

definition less_tool_policy :: "tool_policy \<Rightarrow> tool_policy \<Rightarrow> bool" where
  "less_tool_policy a b \<longleftrightarrow> restrictiveness a < restrictiveness b"

instance
  by standard (auto simp: less_eq_tool_policy_def less_tool_policy_def restrictiveness_eq)

end

lemma stricter_max: "stricter a b = max a b"
  by (simp add: stricter_def max_def less_eq_tool_policy_def restrictiveness_eq)

lemma deny_greatest [simp]: "PolicyDeny \<le> p \<longleftrightarrow> p = PolicyDeny" "p \<le> PolicyDeny"
  by (cases p; simp add: less_eq_tool_policy_def restrictiveness_def)+

lemma allow_least [simp]: "PolicyAllow \<le> p" "p \<le> PolicyAllow \<longleftrightarrow> p = PolicyAllow"
  by (cases p; simp add: less_eq_tool_policy_def restrictiveness_def)+

lemma stricter_deny [simp]: "stricter PolicyDeny p = PolicyDeny" "stricter p PolicyDeny = PolicyDeny"
  by (cases p; simp add: stricter_def restrictiveness_def)+

text \<open>Every spelling of a tool has the others' spellings.\<close>

lemma set_first_seen: "set (first_seen seen ss) = set ss - set seen"
  by (induction seen ss rule: first_seen.induct) auto

lemma set_spellings: "set (tool_name_spellings name) =
    {name, canonical_tool_name name} \<union> {a. (a, canonical_tool_name name) \<in> set TOOL_ALIASES}"
proof -
  have "fst ` {x \<in> set TOOL_ALIASES. case x of (_, c) \<Rightarrow> c = canonical} = {a. (a, canonical) \<in> set TOOL_ALIASES}"
    for canonical by force
  then show ?thesis by (auto simp: tool_name_spellings_def Let_def set_first_seen)
qed

lemma canonical_cases:
  "canonical_tool_name name = (if name = ''bash'' then ''shell''
     else if name = ''install_tool'' then ''install_global_tool'' else name)"
  by (simp add: canonical_tool_name_def TOOL_ALIASES_def)

lemma canonical_idem [simp]: "canonical_tool_name (canonical_tool_name name) = canonical_tool_name name"
  by (simp add: canonical_cases)

lemma spellings_same_tool: "s \<in> set (tool_name_spellings name) \<longleftrightarrow> canonical_tool_name s = canonical_tool_name name"
  by (auto simp: set_spellings canonical_cases TOOL_ALIASES_def split: if_splits)

lemma by_any_spelling_None:
  "by_any_spelling m name = None \<longleftrightarrow> (\<forall>s. canonical_tool_name s = canonical_tool_name name \<longrightarrow> m s = None)"
proof -
  have "by_any_spelling m name = None \<longleftrightarrow> List.map_filter m (tool_name_spellings name) = []"
    by (simp add: by_any_spelling_def split: list.split)
  also have "\<dots> \<longleftrightarrow> (\<forall>s \<in> set (tool_name_spellings name). m s = None)"
    by (auto simp: List.map_filter_def filter_empty_conv)
  also have "\<dots> \<longleftrightarrow> (\<forall>s. canonical_tool_name s = canonical_tool_name name \<longrightarrow> m s = None)"
    unfolding spellings_same_tool [symmetric] by blast
  finally show ?thesis .
qed

lemma by_any_spelling_Some:
  assumes "by_any_spelling m name = Some v"
  shows "\<exists>s. canonical_tool_name s = canonical_tool_name name \<and> m s = Some v"
proof -
  have "v \<in> set (List.map_filter m (tool_name_spellings name))"
    using assms by (auto simp: by_any_spelling_def split: list.splits)
  then show ?thesis by (auto simp: List.map_filter_def spellings_same_tool)
qed

text \<open>A launch flag moves a policy, but not from a refusal.\<close>

lemma resolve_policy_deny:
  "configured_policy t b stage agent global loosen = PolicyDeny \<Longrightarrow>
   resolve_policy t b launch stage agent global loosen = PolicyDeny"
  by (simp add: resolve_policy_def)

lemma resolve_policy_unflagged:
  "by_any_spelling launch t = None \<Longrightarrow> launch ''*'' = None \<Longrightarrow>
   resolve_policy t b launch stage agent global loosen = configured_policy t b stage agent global loosen"
  by (auto simp: resolve_policy_def Let_def)

lemma configured_at_ceiling:
  "by_any_spelling global t = Some c \<Longrightarrow> c \<le> configured_policy t b stage agent global loosen"
  by (simp add: configured_policy_def Let_def stricter_max split: option.split)

lemma configured_at_default:
  "by_any_spelling global t = None \<Longrightarrow> \<not> loosen \<Longrightarrow> \<not> blueprint_loosenable t \<Longrightarrow>
   default_tool_policy t b \<le> configured_policy t b stage agent global loosen"
  by (simp add: configured_policy_def Let_def stricter_max split: option.split)

end
