(* ===== verification/Shell_Join.thy ===== *)
theory Shell_Join
  imports Shell_Keys
begin

text \<open>
  Lines read together: the lexer on a line, a newline or a semicolon, and another line, against
  the lexer on each. The first line must be readable on its own, so no quote, substitution or
  heredoc of it reaches into the second.
\<close>

subsection \<open>What the pieces of a turn leave\<close>

text \<open>
  The separator that joins two lines, and the shape of what is read before it: a heredoc's
  body runs to the end of its line, so a line with one is joined by a newline only.
\<close>

definition joins :: "char \<Rightarrow> string \<Rightarrow> bool" where
  "joins s a \<longleftrightarrow> s = newline \<or> (s = CHR '';'' \<and> newline \<notin> set a)"

lemma joins_cases: "joins s a \<Longrightarrow> s = newline \<or> s = CHR '';''"
  by (auto simp: joins_def)

lemma take_until_append:
  "take_until q cs = Some (inner, rest) \<Longrightarrow> take_until q (cs @ t) = Some (inner, rest @ t)"
  by (induction cs arbitrary: inner) (auto split: if_splits)

lemma take_until_None_append: "take_until q cs = None \<Longrightarrow> take_until q (cs @ q # t) = Some (cs, t)"
  by (induction cs) (auto split: if_splits)

lemma take_substitution_append:
  "take_substitution depth cs = Some (inner, rest) \<Longrightarrow>
   take_substitution depth (cs @ t) = Some (inner, rest @ t)"
  by (induction depth cs arbitrary: inner rule: take_substitution.induct)
     (auto split: if_splits nat.splits)

lemma next_is_append: "c \<noteq> s \<Longrightarrow> next_is c (cs @ s # t) = next_is c cs"
  by (cases cs) auto

lemma skip_append: "(b \<Longrightarrow> cs \<noteq> []) \<Longrightarrow> skip b (cs @ t) = skip b cs @ t"
  by (cases cs) (auto simp: skip_def)

lemma next_is_nonempty: "next_is c cs \<Longrightarrow> cs \<noteq> []"
  by (simp add: next_is_def)

lemma tl_append_next: "next_is c cs \<Longrightarrow> tl (cs @ t) = tl cs @ t"
  by (cases cs) auto

text \<open>A turn's remaining text moves with what is put behind the line.\<close>

fun dollar_then :: "dollar \<Rightarrow> string \<Rightarrow> dollar" where
  "dollar_then (Expands rest) t = Expands (rest @ t)"
| "dollar_then (Substitutes inner rest) t = Substitutes inner (rest @ t)"

lemma split_dollar_append:
  assumes s: "s = newline \<or> s = CHR '';''" and d: "split_dollar cs = Some d"
  shows "split_dollar (cs @ s # t) = Some (dollar_then d (s # t))"
proof -
  have n: "next_is (CHR ''('') (r @ s # t) = next_is (CHR ''('') r"
          "next_is (CHR '')'') (r @ s # t) = next_is (CHR '')'') r" for r
    using s by (auto intro!: next_is_append)
  show ?thesis
  proof (cases "next_is (CHR ''('') cs")
    case False
    then show ?thesis using d by (auto simp: split_dollar_def n)
  next
    case outer: True
    show ?thesis
    proof (cases "next_is (CHR ''('') (tl cs)")
      case False
      then show ?thesis using d outer
        by (auto simp: split_dollar_def n tl_append_next [OF outer] dest: take_substitution_append)
    next
      case inner: True
      then obtain e rest where e: "take_substitution 0 (tl (tl cs)) = Some (e, rest)"
          "next_is (CHR '')'') rest" "d = Expands (tl rest)"
        using d outer by (auto simp: split_dollar_def split: option.splits if_splits)
      from take_substitution_append [OF e(1), of "s # t"] e(2,3) inner outer
      show ?thesis by (simp add: split_dollar_def n tl_append_next)
    qed
  qed
qed

lemma take_delimiter_append:
  assumes s: "ends_delimiter s" "s \<noteq> quote_char" "s \<noteq> dquote_char" "s \<noteq> backslash"
  shows "take_delimiter e cs d l = Some (d', l', rest) \<Longrightarrow>
    take_delimiter e (cs @ s # t) d l = Some (d', l', rest @ s # t)"
proof (induction e cs d l rule: take_delimiter.induct)
  case (1 e d l)
  then show ?case using s by simp
next
  case (2 e c cs d l)
  consider "c = quote_char \<or> c = dquote_char" | "c = backslash" "e" "\<not> (c = quote_char \<or> c = dquote_char)"
    | "\<not> (c = quote_char \<or> c = dquote_char)" "\<not> (c = backslash \<and> e)" by blast
  then show ?case
  proof cases
    case 1
    then obtain inner r where r: "take_until c cs = Some (inner, r)"
        "take_delimiter e r (d @ inner) True = Some (d', l', rest)"
      using "2.prems" by (auto split: option.splits)
    from "2.IH"(1) [OF 1 r(1) refl r(2)] take_until_append [OF r(1)] 1 show ?thesis by simp
  next
    case c: 2
    then obtain x r where r: "cs = x # r" "take_delimiter e r (d @ [x]) True = Some (d', l', rest)"
      using "2.prems" by (auto split: list.splits)
    from "2.IH"(2) [OF c(3) _ r(1) r(2)] c r(1) show ?thesis by simp
  next
    case 3
    then show ?thesis using "2.prems" "2.IH"(3) by (cases "ends_delimiter c") auto
  qed
qed

lemma dropWhile_append_stop: "\<not> P s \<Longrightarrow> dropWhile P (cs @ s # t) = dropWhile P cs @ s # t"
  by (induction cs) auto

lemma ends_delimiter_separator [simp]: "ends_delimiter newline" "ends_delimiter (CHR '';'')"
  by (simp_all add: ends_delimiter_def is_whitespace_def)

lemma open_heredoc_append:
  assumes s: "s = newline \<or> s = CHR '';''" and "open_heredoc e cs = Some (h, rest)"
  shows "open_heredoc e (cs @ s # t) = Some (h, rest @ s # t)"
proof -
  have "next_is (CHR ''-'') (cs @ s # t) = next_is (CHR ''-'') cs"
    using s by (intro next_is_append) auto
  moreover have "skip (next_is (CHR ''-'') cs) (cs @ s # t) = skip (next_is (CHR ''-'') cs) cs @ s # t"
    by (rule skip_append) (rule next_is_nonempty)
  moreover have "dropWhile (\<lambda>c. c = CHR '' '' \<or> c = tab) (r @ s # t)
      = dropWhile (\<lambda>c. c = CHR '' '' \<or> c = tab) r @ s # t" for r
    using s by (intro dropWhile_append_stop) auto
  ultimately show ?thesis using assms
    by (auto simp: open_heredoc_def take_heredoc_delimiter_def Let_def
        split: option.splits if_splits dest: take_delimiter_append [where t = t and s = s, rotated 4])
qed

lemma take_redirect_append:
  assumes s: "s = newline \<or> s = CHR '';''" and c: "c = CHR ''>'' \<or> c = CHR ''<''"
  shows "take_redirect c (cs @ s # t) = (fst (take_redirect c cs), snd (take_redirect c cs) @ s # t)"
proof -
  have n: "next_is x (r @ s # t) = next_is x r" if "x \<in> set ''<>&|''" for x r
    using s that by (intro next_is_append) auto
  have k: "skip (b \<and> next_is x r) (r @ s # t) = skip (b \<and> next_is x r) r @ s # t"
          "skip (next_is x r) (r @ s # t) = skip (next_is x r) r @ s # t" for b x r
    by (auto intro!: skip_append dest: next_is_nonempty)
  have m: "next_is c (r @ s # t) = next_is c r" "next_is (CHR ''|'') (r @ s # t) = next_is (CHR ''|'') r"
    "next_is (CHR ''&'') (r @ s # t) = next_is (CHR ''&'') r"
    "next_is (CHR ''>'') (r @ s # t) = next_is (CHR ''>'') r" for r
    using c by (auto intro!: n)
  show ?thesis unfolding take_redirect_def Let_def m k by simp
qed


text \<open>
  A body that ended at the end of its line takes the newline that joins the next one.
\<close>

definition names_delimiters :: "heredoc list \<Rightarrow> bool" where
  "names_delimiters hs \<longleftrightarrow> list_all (\<lambda>h. h_delimiter h \<noteq> []) hs"

lemma take_heredoc_body_append:
  "take_heredoc_body h cs = Some rest \<Longrightarrow>
   take_heredoc_body h (cs @ newline # t) = Some (rest @ newline # t) \<or>
   rest = [] \<and> take_heredoc_body h (cs @ newline # t) = Some t"
proof (induction h cs rule: take_heredoc_body.induct)
  case (1 h cs)
  show ?case
  proof (cases "take_until newline cs")
    case None
    then have l: "take_line cs = (cs, False, [])" "take_line (cs @ newline # t) = (cs, True, t)"
      using take_until_None_append [OF None, of t] by (simp_all add: take_line_def)
    from "1.prems" have "heredoc_ends h cs \<and> rest = []"
      by (subst (asm) take_heredoc_body.simps) (simp add: l split: if_splits)
    then show ?thesis by (subst (2) take_heredoc_body.simps) (simp add: l)
  next
    case (Some p)
    obtain line r where p: "p = (line, r)" by force
    then have l: "take_line cs = (line, True, r)"
        "take_line (cs @ newline # t) = (line, True, r @ newline # t)"
      using Some take_until_append [of newline cs line r "newline # t"] by (simp_all add: take_line_def)
    show ?thesis
    proof (cases "heredoc_ends h line")
      case True
      then have "rest = r" using "1.prems" by (subst (asm) take_heredoc_body.simps) (simp add: l)
      then show ?thesis using True by (subst take_heredoc_body.simps) (simp add: l)
    next
      case False
      with "1.prems" have a: "h_literal h \<or> \<not> substitutes_in line" "take_heredoc_body h r = Some rest"
        by (subst (asm) take_heredoc_body.simps, simp add: l split: if_splits)+
      have "take_heredoc_body h (cs @ newline # t) = take_heredoc_body h (r @ newline # t)"
        using False a(1) by (subst take_heredoc_body.simps) (auto simp: l)
      then show ?thesis using "1.IH" [of line "(True, r)" True r] l False a by auto
    qed
  qed
qed

lemma take_heredoc_body_Nil: "h_delimiter h \<noteq> [] \<Longrightarrow> take_heredoc_body h [] = None"
  by (subst take_heredoc_body.simps) (simp add: take_line_def heredoc_ends_def)

lemma take_bodies_append:
  "take_bodies hs cs = Some rest \<Longrightarrow> names_delimiters hs \<Longrightarrow>
   take_bodies hs (cs @ newline # t) = Some (rest @ newline # t) \<or>
   rest = [] \<and> take_bodies hs (cs @ newline # t) = Some t"
proof (induction hs cs rule: take_bodies.induct)
  case (2 h hs cs)
  then obtain r where r: "take_heredoc_body h cs = Some r" "take_bodies hs r = Some rest"
    by (auto split: option.splits)
  have hs: "names_delimiters hs" using "2.prems"(2) by (simp add: names_delimiters_def)
  from take_heredoc_body_append [OF r(1), of t] show ?case
  proof
    assume "take_heredoc_body h (cs @ newline # t) = Some (r @ newline # t)"
    with "2.IH" [OF r(1) r(2) hs] show ?thesis by simp
  next
    assume e: "r = [] \<and> take_heredoc_body h (cs @ newline # t) = Some t"
    have "hs = []"
      using r(2) e hs by (cases hs) (auto simp: names_delimiters_def take_heredoc_body_Nil)
    then show ?thesis using e r(2) by simp
  qed
qed simp


subsection \<open>A turn with more text behind it\<close>

fun turn_then :: "turn \<Rightarrow> string \<Rightarrow> turn" where
  "turn_then Fails t = Fails"
| "turn_then (Next q lx rest) t = Next q lx (rest @ t)"
| "turn_then (Inner inner q lx rest) t = Inner inner q lx (rest @ t)"

text \<open>A lexer between two commands, with no heredoc waiting.\<close>

definition fresh :: "lexer \<Rightarrow> bool" where
  "fresh lx \<longleftrightarrow> lx_current lx = [] \<and> lx_writes lx = [] \<and> lx_reads lx = [] \<and> lx_word lx = [] \<and>
     \<not> lx_in_word lx \<and> lx_swallow lx = None \<and> lx_pending_heredocs lx = []"

lemma pending_kept [simp]:
  "lx_pending_heredocs (end_word lx) = lx_pending_heredocs lx"
  "lx_pending_heredocs (end_segment lx) = lx_pending_heredocs lx"
  "lx_pending_heredocs (discard_word lx) = lx_pending_heredocs lx"
  "lx_pending_heredocs (begin_word lx) = lx_pending_heredocs lx"
  "lx_pending_heredocs (push_char c lx) = lx_pending_heredocs lx"
  "lx_pending_heredocs (before_operator lx) = lx_pending_heredocs lx"
  "lx_pending_heredocs (after_dollar q lx) = lx_pending_heredocs lx"
  by (auto simp: end_word_def end_segment_def discard_word_def begin_word_def push_char_def
      before_operator_def after_dollar_def Let_def split: option.splits swallow.splits)

lemma fresh_after_segment: "fresh (end_segment (end_word lx)\<lparr>lx_pending_heredocs := []\<rparr>)"
  by (auto simp: fresh_def end_segment_def end_word_def discard_word_def Let_def
      split: option.splits swallow.splits)

definition ended_by_newline :: "turn \<Rightarrow> turn \<Rightarrow> string \<Rightarrow> bool" where
  "ended_by_newline turn turn' t \<longleftrightarrow> (\<exists>lx. turn = Next False lx [] \<and> turn' = Next False lx t \<and> fresh lx)"

lemma separator_turn_append:
  assumes "joins s (c # cs)" "names_delimiters (lx_pending_heredocs lx)" "separator_turn lx c cs \<noteq> Fails"
  shows "separator_turn lx c (cs @ s # t) = turn_then (separator_turn lx c cs) (s # t) \<or>
    s = newline \<and> ended_by_newline (separator_turn lx c cs) (separator_turn lx c (cs @ s # t)) t"
proof (cases "c = newline")
  case True
  then have s: "s = newline" using assms(1) by (auto simp: joins_def)
  obtain rest where rest: "take_bodies (lx_pending_heredocs lx) cs = Some rest"
    using assms(3) True by (auto simp: separator_turn_def Let_def skip_def split: option.splits)
  from take_bodies_append [OF this assms(2), of t] show ?thesis
    using s True rest by (auto simp: separator_turn_def Let_def skip_def ended_by_newline_def fresh_after_segment)
next
  case False
  let ?b = "(c = CHR ''&'' \<or> c = CHR ''|'') \<and> next_is c cs"
  have "((c = CHR ''&'' \<or> c = CHR ''|'') \<and> next_is c (cs @ s # t)) = ?b"
    using joins_cases [OF assms(1)] by (cases cs) auto
  moreover have "skip ?b (cs @ s # t) = skip ?b cs @ s # t"
    by (rule skip_append) (auto dest: next_is_nonempty)
  ultimately show ?thesis using False by (simp add: separator_turn_def Let_def)
qed

lemma quoted_turn_append:
  "quoted_turn e lx c cs \<noteq> Fails \<Longrightarrow> quoted_turn e lx c (cs @ t) = turn_then (quoted_turn e lx c cs) t"
  by (auto simp: quoted_turn_def split: list.splits)

lemma plain_turn_append:
  assumes s: "joins s (c # cs)" and h: "names_delimiters (lx_pending_heredocs lx)"
    and ok: "plain_turn e lx c cs \<noteq> Fails"
  shows "plain_turn e lx c (cs @ s # t) = turn_then (plain_turn e lx c cs) (s # t) \<or>
    s = newline \<and> ended_by_newline (plain_turn e lx c cs) (plain_turn e lx c (cs @ s # t)) t"
proof -
  note sc = joins_cases [OF s]
  have n: "next_is (CHR ''<'') (cs @ s # t) = next_is (CHR ''<'') cs"
          "next_is (CHR ''>'') (cs @ s # t) = next_is (CHR ''>'') cs"
    using sc by (auto intro!: next_is_append)
  consider "c = quote_char" | "c = dquote_char" | "c = backslash"
    | "c = CHR ''<''" "next_is (CHR ''<'') cs"
    | "c = CHR ''>'' \<or> c = CHR ''<''" "\<not> (c = CHR ''<'' \<and> next_is (CHR ''<'') cs)"
    | "c = CHR ''&''" "next_is (CHR ''>'') cs"
    | "c \<notin> {quote_char, dquote_char, backslash, CHR ''<'', CHR ''>''}"
      "\<not> (c = CHR ''&'' \<and> next_is (CHR ''>'') cs)"
    by blast
  then show ?thesis
  proof cases
    case 1
    then obtain inner r where r: "take_until quote_char cs = Some (inner, r)"
      using ok by (auto simp: plain_turn_def split: option.splits)
    then show ?thesis using 1 take_until_append [OF r, of "s # t"] by (simp add: plain_turn_def Let_def)
  next
    case 2
    then show ?thesis by (simp add: plain_turn_def)
  next
    case 3
    then show ?thesis using ok by (cases cs; cases e) (simp_all add: plain_turn_def)
  next
    case 4
    then obtain hd r where r: "e" "open_heredoc e (tl cs) = Some (hd, r)"
      using ok by (auto simp: plain_turn_def split: option.splits if_splits)
    then show ?thesis using 4 open_heredoc_append [OF sc r(2), of t]
      by (simp add: plain_turn_def Let_def n tl_append_next)
  next
    case 5
    have r: "take_redirect c (cs @ s # t) = (fst (take_redirect c cs), snd (take_redirect c cs) @ s # t)"
      by (rule take_redirect_append [OF sc 5(1)])
    have "c \<noteq> quote_char" "c \<noteq> dquote_char" "c \<noteq> backslash" using 5(1) by auto
    then have "plain_turn e lx c r = (let (sw, rest) = take_redirect c r in
         Next False ((before_operator lx)\<lparr>lx_swallow := Some sw\<rparr>) rest)"
      if "next_is (CHR ''<'') r = next_is (CHR ''<'') cs" for r
      using 5 that by (auto simp: plain_turn_def)
    then show ?thesis by (simp add: n r split_beta)
  next
    case 6
    then show ?thesis by (simp add: plain_turn_def n tl_append_next)
  next
    case 7
    then have "plain_turn e lx c r = (if is_separator c then separator_turn lx c r
        else if is_whitespace c then Next False (end_word lx) r
        else Next False (push_char c (begin_word lx)) r)"
      if "next_is (CHR ''>'') r = next_is (CHR ''>'') cs" for r
      using that by (auto simp: plain_turn_def)
    note this [OF refl] and this [OF n(2)]
    then show ?thesis using ok separator_turn_append [OF s h, of t] by (cases "is_separator c") auto
  qed
qed

lemma lex_turn_append:
  assumes s: "joins s (c # cs)" and h: "names_delimiters (lx_pending_heredocs lx)"
    and ok: "lex_turn e q lx c cs \<noteq> Fails"
  shows "lex_turn e q lx c (cs @ s # t) = turn_then (lex_turn e q lx c cs) (s # t) \<or>
    s = newline \<and> ended_by_newline (lex_turn e q lx c cs) (lex_turn e q lx c (cs @ s # t)) t"
proof (cases "c = CHR ''$''")
  case True
  then show ?thesis using ok split_dollar_append [OF joins_cases [OF s], of cs]
    by (auto simp: lex_turn_def split: option.splits dollar.splits)
next
  case False
  then show ?thesis using ok quoted_turn_append [of e lx c cs "s # t"] plain_turn_append [OF s h, of e t]
    by (auto simp: lex_turn_def)
qed


subsection \<open>What a turn keeps\<close>

lemma plain_turn_cases:
  assumes "plain_turn e lx c cs = turn"
  obtains (fails) "turn = Fails"
  | (single) inner rest where "take_until quote_char cs = Some (inner, rest)"
      "turn = Next False ((begin_word lx)\<lparr>lx_quoted := True, lx_word := lx_word (begin_word lx) @ inner\<rparr>) rest"
  | (double) "turn = Next True ((begin_word lx)\<lparr>lx_quoted := True\<rparr>) cs"
  | (escape) x rest where "cs = x # rest" "turn = Next False (push_char x (begin_word lx)) rest"
  | (heredoc) h rest where "open_heredoc e (tl cs) = Some (h, rest)"
      "turn = Next False ((before_operator lx)\<lparr>lx_pending_heredocs := lx_pending_heredocs lx @ [h]\<rparr>) rest"
  | (redirect) "turn = Next False ((before_operator lx)\<lparr>lx_swallow := Some (fst (take_redirect c cs))\<rparr>)
      (snd (take_redirect c cs))"
  | (both) "turn = Next False ((end_word lx)\<lparr>lx_swallow := Some SwallowWrite\<rparr>) (tl cs)"
  | (separator) "turn = separator_turn lx c cs"
  | (space) "turn = Next False (end_word lx) cs"
  | (char) "turn = Next False (push_char c (begin_word lx)) cs"
proof -
  note d = assms [symmetric, unfolded plain_turn_def]
  consider "c = quote_char" | "c = dquote_char" | "c = backslash"
    | "c = CHR ''<''" "next_is (CHR ''<'') cs"
    | "c = CHR ''>'' \<or> c = CHR ''<''" "\<not> (c = CHR ''<'' \<and> next_is (CHR ''<'') cs)"
    | "c = CHR ''&''" "next_is (CHR ''>'') cs"
    | "c \<notin> {quote_char, dquote_char, backslash, CHR ''<'', CHR ''>''}"
      "\<not> (c = CHR ''&'' \<and> next_is (CHR ''>'') cs)"
    by blast
  then show thesis
  proof cases
    case 1
    then show thesis using d fails single by (cases "take_until quote_char cs") (auto simp: Let_def)
  next
    case 2
    then show thesis using d double by simp
  next
    case 3
    then show thesis using d fails char escape by (cases e; cases cs) simp_all
  next
    case 4
    then show thesis using d fails heredoc by (cases e; cases "open_heredoc e (tl cs)") (auto simp: Let_def)
  next
    case 5
    then have "c \<noteq> quote_char" "c \<noteq> dquote_char" "c \<noteq> backslash" by auto
    with 5 d have "turn = (let (sw, rest) = take_redirect c cs in
        Next False ((before_operator lx)\<lparr>lx_swallow := Some sw\<rparr>) rest)" by argo
    then show thesis using redirect by (simp add: split_beta)
  next
    case 6
    then show thesis using d both by simp
  next
    case 7
    then have "turn = (if is_separator c then separator_turn lx c cs
        else if is_whitespace c then Next False (end_word lx) cs
        else Next False (push_char c (begin_word lx)) cs)" using d by auto
    then show thesis using separator space char by argo
  qed
qed

lemma separator_turn_cases:
  assumes "separator_turn lx c cs = turn"
  obtains (fails) "turn = Fails"
  | (newline) rest where "c = newline" "take_bodies (lx_pending_heredocs lx) cs = Some rest"
      "turn = Next False ((end_segment (end_word lx))\<lparr>lx_pending_heredocs := []\<rparr>) rest"
  | (mark) "c \<noteq> newline"
      "turn = Next False (end_segment (end_word lx)) (skip ((c = CHR ''&'' \<or> c = CHR ''|'') \<and> next_is c cs) cs)"
  using assms by (cases "c = newline"; cases "take_bodies (lx_pending_heredocs lx) cs")
    (auto simp: separator_turn_def Let_def skip_def)

lemma set_takes:
  "take_until q cs = Some (inner, rest) \<Longrightarrow> set rest \<subseteq> set cs"
  "take_substitution depth cs = Some (inner, rest) \<Longrightarrow> set rest \<subseteq> set cs"
proof -
  show "take_until q cs = Some (inner, rest) \<Longrightarrow> set rest \<subseteq> set cs"
    by (induction cs arbitrary: inner) (auto split: if_splits)
  show "take_substitution depth cs = Some (inner, rest) \<Longrightarrow> set rest \<subseteq> set cs"
    by (induction depth cs arbitrary: inner rule: take_substitution.induct) (auto split: if_splits nat.splits)
qed

lemma set_tl: "set (tl cs) \<subseteq> set cs"
  by (cases cs) auto

lemma set_skip: "set (skip b cs) \<subseteq> set cs"
  by (simp add: skip_def set_tl)

lemma set_take_delimiter:
  "take_delimiter e cs d l = Some (d', l', rest) \<Longrightarrow> set rest \<subseteq> set cs"
proof (induction e cs d l rule: take_delimiter.induct)
  case (2 e c cs d l)
  have "take_until c cs = Some (inner, r) \<Longrightarrow> set r \<subseteq> set cs" for inner r by (rule set_takes)
  with 2 show ?case by (auto split: if_splits option.splits list.splits) fast+
qed simp

lemma set_split_dollar:
  "split_dollar cs = Some (Expands rest) \<Longrightarrow> set rest \<subseteq> set cs"
  "split_dollar cs = Some (Substitutes inner rest) \<Longrightarrow> set rest \<subseteq> set cs"
proof -
  have "take_substitution 0 (tl (tl cs)) = Some (i, r) \<Longrightarrow> set (tl r) \<subseteq> set cs" for i r
    using set_takes(2) [of 0 "tl (tl cs)" i r] set_tl [of r] set_tl [of cs] set_tl [of "tl cs"] by blast
  then show "split_dollar cs = Some (Expands rest) \<Longrightarrow> set rest \<subseteq> set cs"
    by (auto simp: split_dollar_def split: if_splits option.splits)
  have "take_substitution 0 (tl cs) = Some (i, r) \<Longrightarrow> set r \<subseteq> set cs" for i r
    using set_takes(2) [of 0 "tl cs" i r] set_tl [of cs] by blast
  then show "split_dollar cs = Some (Substitutes inner rest) \<Longrightarrow> set rest \<subseteq> set cs"
    by (auto simp: split_dollar_def split: if_splits option.splits)
qed

lemma set_open_heredoc: "open_heredoc e cs = Some (h, rest) \<Longrightarrow> set rest \<subseteq> set cs"
proof -
  assume "open_heredoc e cs = Some (h, rest)"
  then have "set rest \<subseteq> set (dropWhile (\<lambda>c. c = CHR '' '' \<or> c = tab) (skip (next_is (CHR ''-'') cs) cs))"
    by (auto simp: open_heredoc_def take_heredoc_delimiter_def Let_def dest!: set_take_delimiter
        split: option.splits if_splits)
  then show ?thesis using set_skip [of _ cs] by (meson set_dropWhileD subset_iff)
qed

lemma set_take_redirect: "set (snd (take_redirect c cs)) \<subseteq> set cs"
proof -
  have "set (skip b1 (skip b2 (skip b3 (skip b4 cs)))) \<subseteq> set cs" for b1 b2 b3 b4
    using set_skip by (meson subset_trans)
  then show ?thesis by (simp add: take_redirect_def Let_def)
qed

lemma separator_turn_rest:
  "separator_turn lx c cs = Next q lx1 rest \<Longrightarrow> c \<noteq> newline \<Longrightarrow> set rest \<subseteq> set cs"
  by (erule separator_turn_cases) (auto dest: set_skip [THEN subsetD])

lemma plain_turn_rest:
  assumes "plain_turn e lx c cs = Next q lx1 rest" "c \<noteq> newline"
  shows "set rest \<subseteq> set cs"
  using assms(1)
proof (cases rule: plain_turn_cases)
  case (heredoc h r)
  then show ?thesis using set_open_heredoc [of e "tl cs" h r] set_tl [of cs] by auto
next
  case redirect
  then show ?thesis using set_take_redirect [of c cs] by simp
next
  case separator
  then show ?thesis using separator_turn_rest [OF _ assms(2)] by metis
qed (auto dest: set_takes(1) set_tl [THEN subsetD])

lemma lex_turn_Inner:
  "lex_turn e q lx c cs = Inner inner q' lx1 rest \<Longrightarrow>
    c = CHR ''$'' \<and> split_dollar cs = Some (Substitutes inner rest) \<and> q' = q \<and> lx1 = after_dollar q lx"
proof -
  have "quoted_turn e lx c cs \<noteq> Inner inner q' lx1 rest"
    by (auto simp: quoted_turn_def split: list.splits)
  moreover have "separator_turn lx c cs \<noteq> Inner inner q' lx1 rest"
    by (auto elim: separator_turn_cases)
  then have "plain_turn e lx c cs \<noteq> Inner inner q' lx1 rest"
    by (metis plain_turn_cases turn.distinct(2) turn.distinct(4) turn.distinct(6))
  ultimately show "lex_turn e q lx c cs = Inner inner q' lx1 rest \<Longrightarrow> ?thesis"
    by (auto simp: lex_turn_def split: if_splits option.splits dollar.splits)
qed

lemma lex_turn_Next:
  assumes "lex_turn e q lx c cs = Next q' lx1 rest"
  obtains (dollar) "c = CHR ''$''" "split_dollar cs = Some (Expands rest)" "q' = q" "lx1 = after_dollar q lx"
  | (quoted) "c \<noteq> CHR ''$''" "q" "quoted_turn e lx c cs = Next q' lx1 rest"
  | (plain) "c \<noteq> CHR ''$''" "\<not> q" "plain_turn e lx c cs = Next q' lx1 rest"
  using assms by (auto simp: lex_turn_def split: if_splits option.splits dollar.splits)

lemma quoted_turn_cases:
  assumes "quoted_turn e lx c cs = turn"
  obtains (fails) "turn = Fails"
  | (close) "turn = Next False lx cs"
  | (escaped) x rest where "cs = x # rest" "turn = Next True (push_char x lx) rest"
  | (kept) x rest where "cs = x # rest" "turn = Next True (push_char x (push_char backslash lx)) rest"
  | (char) "turn = Next True (push_char c lx) cs"
  using assms by (auto simp: quoted_turn_def split: if_splits list.splits)

lemma lex_turn_rest:
  assumes "lex_turn e q lx c cs = Next q' lx1 rest \<or> lex_turn e q lx c cs = Inner inner q' lx1 rest"
    and "c \<noteq> newline"
  shows "set rest \<subseteq> set cs"
  using assms(1)
proof
  assume "lex_turn e q lx c cs = Next q' lx1 rest"
  then show ?thesis
  proof (cases rule: lex_turn_Next)
    case quoted
    from quoted(3) show ?thesis by (cases rule: quoted_turn_cases) auto
  next
    case plain
    from plain_turn_rest [OF plain(3) assms(2)] show ?thesis .
  qed (rule set_split_dollar)
qed (auto dest!: lex_turn_Inner set_split_dollar)

lemma lex_turn_joins:
  assumes "joins s (c # cs)"
    and t: "lex_turn e q lx c cs = Next q' lx1 rest \<or> lex_turn e q lx c cs = Inner inner q' lx1 rest"
  shows "joins s rest"
  using assms(1) lex_turn_rest [OF t] by (auto simp: joins_def)

lemma lex_turn_names:
  assumes "names_delimiters (lx_pending_heredocs lx)"
    and "lex_turn e q lx c cs = Next q' lx1 rest \<or> lex_turn e q lx c cs = Inner inner q' lx1 rest"
  shows "names_delimiters (lx_pending_heredocs lx1)"
proof -
  have o: "open_heredoc e r = Some (h, r') \<Longrightarrow> h_delimiter h \<noteq> []" for r h r'
    by (auto simp: open_heredoc_def take_heredoc_delimiter_def Let_def split: option.splits if_splits)
  have sep: "separator_turn lx c cs = Next q' lx1 rest \<Longrightarrow> names_delimiters (lx_pending_heredocs lx1)"
    using assms(1) by (erule_tac separator_turn_cases) (auto simp: names_delimiters_def)
  have "plain_turn e lx c cs = Next q' lx1 rest \<Longrightarrow> names_delimiters (lx_pending_heredocs lx1)"
  proof (erule plain_turn_cases)
    fix h r
    assume "open_heredoc e (tl cs) = Some (h, r)" "Next q' lx1 rest = Next False ((before_operator lx)
      \<lparr>lx_pending_heredocs := lx_pending_heredocs lx @ [h]\<rparr>) r"
    then show ?thesis using assms(1) o by (auto simp: names_delimiters_def)
  qed (use assms(1) sep in auto)
  then show ?thesis using assms
    by (auto elim!: lex_turn_Next quoted_turn_cases dest!: lex_turn_Inner)
qed


subsection \<open>The lexer on two lines\<close>

definition empty_segment :: segment where
  "empty_segment = \<lparr>sg_words = [], sg_writes = [], sg_reads = []\<rparr>"

lemma finish_fresh: "fresh lx \<Longrightarrow> finish lx = Some (lx_segments lx @ [empty_segment])"
  by (simp add: fresh_def finish_def end_word_def discard_word_def end_segment_def Let_def empty_segment_def)

text \<open>
  After the separator the lexer stands between commands. It has the first line's segments, or
  all but the empty one that a line ending in a heredoc's delimiter closes with.
\<close>

definition continues :: "segment list \<Rightarrow> lexer \<Rightarrow> bool" where
  "continues segs lx \<longleftrightarrow> fresh lx \<and> (segs = lx_segments lx \<or> segs = lx_segments lx @ [empty_segment])"

lemma lex_chars_end:
  assumes "joins s a" "finish lx = Some segs"
  shows "\<exists>lx'. lex_chars e False lx (s # t) = lex_chars e False lx' t \<and> continues segs lx'"
proof -
  let ?ended = "end_segment (end_word lx)"
  have f: "lx_pending_heredocs lx = []" "segs = lx_segments ?ended"
    using assms(2) by (auto simp: finish_def Let_def split: if_splits)
  then have id: "?ended\<lparr>lx_pending_heredocs := []\<rparr> = ?ended" by simp
  from joins_cases [OF assms(1)] have "lex_turn e False lx s t = Next False ?ended t"
    using f id by (auto simp: lex_turn_def plain_turn_def is_separator_def separator_turn_def skip_def Let_def)
  moreover have "continues segs ?ended"
    using fresh_after_segment [of lx] f id by (simp add: continues_def)
  ultimately show ?thesis by (auto simp: lex_chars.simps(2))
qed

lemma lex_chars_append:
  "lex_chars e q lx a = Some segs \<Longrightarrow> joins s a \<Longrightarrow> names_delimiters (lx_pending_heredocs lx) \<Longrightarrow>
   \<exists>lx'. lex_chars e q lx (a @ s # t) = lex_chars e False lx' t \<and> continues segs lx'"
proof (induction e q lx a rule: lex_chars.induct)
  case (1 e q lx)
  then show ?case using lex_chars_end [OF "1.prems"(2)] by (auto split: if_splits)
next
  case (2 e q lx c cs)
  let ?turn = "lex_turn e q lx c cs" and ?turn' = "lex_turn e q lx c (cs @ s # t)"
  have nofail: "?turn \<noteq> Fails" using "2.prems"(1) by (auto simp: lex_chars.simps(2))
  from lex_turn_append [OF "2.prems"(2,3) nofail, of t] show ?case
  proof
    assume "s = newline \<and> ended_by_newline ?turn ?turn' t"
    then obtain lx1 where l: "?turn = Next False lx1 []" "?turn' = Next False lx1 t" "fresh lx1"
      by (auto simp: ended_by_newline_def)
    then have "continues segs lx1"
      using "2.prems"(1) by (simp add: lex_chars.simps(2) finish_fresh continues_def)
    then show ?thesis using l by (auto simp: lex_chars.simps(2))
  next
    assume turn': "?turn' = turn_then ?turn (s # t)"
    show ?thesis
    proof (cases ?turn)
      case Fails
      then show ?thesis using nofail by simp
    next
      case (Next q' lx1 rest)
      from "2.IH"(1) [OF Next] "2.prems" lex_turn_joins [OF "2.prems"(2) disjI1 [OF Next]]
        lex_turn_names [OF "2.prems"(3) disjI1 [OF Next]] Next turn'
      show ?thesis by (simp add: lex_chars.simps(2))
    next
      case (Inner inner q' lx1 rest)
      then obtain ins where ins: "lex_chars e False lexer_default inner = Some ins"
          "lex_chars e q' (lx1\<lparr>lx_segments := lx_segments lx1 @ ins\<rparr>) rest = Some segs"
        using "2.prems"(1) by (auto simp: lex_chars.simps(2) split: option.splits)
      have "names_delimiters (lx_pending_heredocs (lx1\<lparr>lx_segments := lx_segments lx1 @ ins\<rparr>))"
        using lex_turn_names [OF "2.prems"(3) disjI2 [OF Inner]] by simp
      from "2.IH"(3) [OF Inner ins lex_turn_joins [OF "2.prems"(2) disjI2 [OF Inner]] this] Inner turn' ins(1)
      show ?thesis by (simp add: lex_chars.simps(2))
    qed
  qed
qed

subsection \<open>What the lexer's earlier segments change\<close>

text \<open>
  Two lexers at the same place, the second with more segments behind it. Between words their
  flags may differ: they are set when a word begins.
\<close>

definition behind :: "segment list \<Rightarrow> bool \<Rightarrow> lexer \<Rightarrow> lexer \<Rightarrow> bool" where
  "behind segs q lx lx' \<longleftrightarrow> (q \<longrightarrow> lx_in_word lx) \<and> lx_segments lx' = segs @ lx_segments lx \<and>
     lx_current lx' = lx_current lx \<and> lx_writes lx' = lx_writes lx \<and> lx_reads lx' = lx_reads lx \<and>
     lx_word lx' = lx_word lx \<and> lx_in_word lx' = lx_in_word lx \<and> lx_swallow lx' = lx_swallow lx \<and>
     lx_pending_heredocs lx' = lx_pending_heredocs lx \<and>
     (lx_in_word lx \<longrightarrow> lx_literal lx' = lx_literal lx \<and> lx_quoted lx' = lx_quoted lx)"

lemma behind_operations:
  assumes "behind segs q lx lx'"
  shows "behind segs True (begin_word lx) (begin_word lx')"
    and "behind segs False lx lx'"
    and "behind segs q (push_char c lx) (push_char c lx')"
    and "behind segs False (discard_word lx) (discard_word lx')"
    and "behind segs False (end_word lx) (end_word lx')"
    and "behind segs False (end_segment lx) (end_segment lx')"
    and "behind segs q (lx\<lparr>lx_swallow := sw\<rparr>) (lx'\<lparr>lx_swallow := sw\<rparr>)"
    and "behind segs q (lx\<lparr>lx_pending_heredocs := hs\<rparr>) (lx'\<lparr>lx_pending_heredocs := hs\<rparr>)"
    and "behind segs q (lx\<lparr>lx_segments := lx_segments lx @ ins\<rparr>) (lx'\<lparr>lx_segments := lx_segments lx' @ ins\<rparr>)"
    and "q \<Longrightarrow> behind segs q (lx\<lparr>lx_quoted := b\<rparr>) (lx'\<lparr>lx_quoted := b\<rparr>)"
    and "q \<Longrightarrow> behind segs q (lx\<lparr>lx_literal := b\<rparr>) (lx'\<lparr>lx_literal := b\<rparr>)"
    and "behind segs q (lx\<lparr>lx_word := w\<rparr>) (lx'\<lparr>lx_word := w\<rparr>)"
  using assms
  by (auto simp: behind_def begin_word_def push_char_def discard_word_def end_word_def end_segment_def Let_def
      split: option.splits swallow.splits)


fun turn_behind :: "segment list \<Rightarrow> turn \<Rightarrow> turn \<Rightarrow> bool" where
  "turn_behind segs Fails t' \<longleftrightarrow> t' = Fails"
| "turn_behind segs (Next q lx rest) t' \<longleftrightarrow> (\<exists>lx'. t' = Next q lx' rest \<and> behind segs q lx lx')"
| "turn_behind segs (Inner inner q lx rest) t' \<longleftrightarrow> (\<exists>lx'. t' = Inner inner q lx' rest \<and> behind segs q lx lx')"

lemma behind_before_operator:
  assumes "behind segs q lx lx'"
  shows "behind segs False (before_operator lx) (before_operator lx')"
proof -
  have "lx_word lx' = lx_word lx" using assms by (simp add: behind_def)
  then show ?thesis
    using behind_operations(4) [OF assms] behind_operations(4) [OF behind_operations(5) [OF assms]]
    by (simp add: before_operator_def)
qed

lemma behind_pending: "behind segs q lx lx' \<Longrightarrow> lx_pending_heredocs lx' = lx_pending_heredocs lx"
  and behind_word: "behind segs q lx lx' \<Longrightarrow> lx_word lx' = lx_word lx"
  by (simp_all add: behind_def)

lemma separator_turn_behind:
  assumes "behind segs q lx lx'"
  shows "turn_behind segs (separator_turn lx c cs) (separator_turn lx' c cs)"
proof -
  have "behind segs False (end_segment (end_word lx)) (end_segment (end_word lx'))"
    by (rule behind_operations(6) [OF behind_operations(5) [OF assms]])
  moreover from behind_operations(8) [OF this]
  have "behind segs False (end_segment (end_word lx)\<lparr>lx_pending_heredocs := []\<rparr>)
      (end_segment (end_word lx')\<lparr>lx_pending_heredocs := []\<rparr>)" .
  ultimately show ?thesis using behind_pending [OF assms]
    by (cases "c = newline"; cases "take_bodies (lx_pending_heredocs lx) cs")
       (simp_all add: separator_turn_def Let_def skip_def)
qed

lemma quoted_turn_behind:
  assumes "behind segs True lx lx'"
  shows "turn_behind segs (quoted_turn e lx c cs) (quoted_turn e lx' c cs)"
  using behind_operations(2,3) [OF assms] behind_operations(3) [OF behind_operations(3) [OF assms]]
  by (cases cs) (simp_all add: quoted_turn_def)

lemma plain_turn_behind:
  assumes b: "behind segs q lx lx'"
  shows "turn_behind segs (plain_turn e lx c cs) (plain_turn e lx' c cs)"
proof -
  note begun = behind_operations(1) [OF b] and ended = behind_operations(5) [OF b]
  note plain = behind_operations(2)
  have single: "behind segs False
     ((begin_word lx)\<lparr>lx_quoted := True, lx_word := lx_word (begin_word lx) @ inner\<rparr>)
     ((begin_word lx')\<lparr>lx_quoted := True, lx_word := lx_word (begin_word lx') @ inner\<rparr>)" for inner
    using plain [OF behind_operations(12) [OF behind_operations(10) [OF begun TrueI]],
        where w1 = "lx_word (begin_word lx) @ inner"] behind_word [OF begun] by simp
  have double: "behind segs True ((begin_word lx)\<lparr>lx_quoted := True\<rparr>) ((begin_word lx')\<lparr>lx_quoted := True\<rparr>)"
    by (rule behind_operations(10) [OF begun TrueI])
  have heredoc: "behind segs False
      ((before_operator lx)\<lparr>lx_pending_heredocs := lx_pending_heredocs lx @ [h]\<rparr>)
      ((before_operator lx')\<lparr>lx_pending_heredocs := lx_pending_heredocs lx' @ [h]\<rparr>)" for h
    using behind_operations(8) [OF behind_before_operator [OF b]] behind_pending [OF b] by simp
  have redirect: "behind segs False ((before_operator lx)\<lparr>lx_swallow := sw\<rparr>) ((before_operator lx')\<lparr>lx_swallow := sw\<rparr>)" for sw
    by (rule behind_operations(7) [OF behind_before_operator [OF b]])
  have both: "behind segs False ((end_word lx)\<lparr>lx_swallow := sw\<rparr>) ((end_word lx')\<lparr>lx_swallow := sw\<rparr>)" for sw
    by (rule behind_operations(7) [OF ended])
  have pushed: "behind segs False (push_char x (begin_word lx)) (push_char x (begin_word lx'))" for x
    by (rule plain [OF behind_operations(3) [OF begun]])
  show ?thesis
    using single double heredoc redirect both pushed ended separator_turn_behind [OF b]
    by (simp add: plain_turn_def Let_def split: option.split list.split prod.split)
qed

lemma lex_turn_behind:
  assumes b: "behind segs q lx lx'"
  shows "turn_behind segs (lex_turn e q lx c cs) (lex_turn e q lx' c cs)"
proof -
  have "behind segs q (after_dollar q lx) (after_dollar q lx')"
  proof (cases q)
    case True
    then show ?thesis using behind_operations(11) [OF b] by (simp add: after_dollar_def)
  next
    case False
    then show ?thesis using behind_operations(2) [OF behind_operations(11) [OF behind_operations(1) [OF b] TrueI]]
      by (simp add: after_dollar_def)
  qed
  then show ?thesis using b quoted_turn_behind plain_turn_behind
    by (cases q) (auto simp: lex_turn_def split: option.split dollar.split)
qed

lemma finish_behind:
  assumes "behind segs q lx lx'"
  shows "finish lx' = map_option (\<lambda>ss. segs @ ss) (finish lx)"
proof -
  from behind_operations(6) [OF behind_operations(5) [OF assms]] show ?thesis
    by (simp add: finish_def Let_def behind_def)
qed

lemma lex_chars_behind:
  "behind segs q lx lx' \<Longrightarrow> lex_chars e q lx' cs = map_option (\<lambda>ss. segs @ ss) (lex_chars e q lx cs)"
proof (induction e q lx cs arbitrary: lx' rule: lex_chars.induct)
  case (1 e q lx)
  then show ?case by (simp add: finish_behind)
next
  case (2 e q lx c cs)
  note turn = lex_turn_behind [OF "2.prems", of e c cs]
  show ?case
  proof (cases "lex_turn e q lx c cs")
    case Fails
    then show ?thesis using turn by (simp add: lex_chars.simps(2))
  next
    case (Next q' lx1 rest)
    then show ?thesis using turn "2.IH"(1) [OF Next] by (auto simp: lex_chars.simps(2))
  next
    case (Inner inner q' lx1 rest)
    then obtain lx1' where l: "lex_turn e q lx' c cs = Inner inner q' lx1' rest" "behind segs q' lx1 lx1'"
      using turn by auto
    then show ?thesis
    proof (cases "lex_chars e False lexer_default inner")
      case (Some ins)
      from "2.IH"(3) [OF Inner Some behind_operations(9) [OF l(2)]] l(1) Inner Some
      show ?thesis by (simp add: lex_chars.simps(2))
    qed (simp add: lex_chars.simps(2) Inner)
  qed
qed

lemma fresh_behind_default: "fresh lx \<Longrightarrow> behind (lx_segments lx) False lexer_default lx"
  by (simp add: fresh_def behind_def lexer_default_def)

text \<open>Two lines tokenize to the segments of one, then of the other.\<close>

lemma tokenize_join:
  assumes "tokenize_for a e = Some segs" "joins s a"
  shows "\<exists>segs'. tokenize_for (a @ s # t) e = map_option (\<lambda>ss. segs' @ ss) (tokenize_for t e) \<and>
    (segs = segs' \<or> segs = segs' @ [empty_segment])"
proof -
  have "names_delimiters (lx_pending_heredocs lexer_default)"
    by (simp add: lexer_default_def names_delimiters_def)
  from lex_chars_append [OF _ assms(2) this] assms(1) obtain lx' where
    l: "tokenize_for (a @ s # t) e = lex_chars e False lx' t" "continues segs lx'"
    unfolding tokenize_for_def by blast
  from l(2) have "lex_chars e False lx' t = map_option (\<lambda>ss. lx_segments lx' @ ss) (tokenize_for t e)"
    unfolding tokenize_for_def continues_def using lex_chars_behind [OF fresh_behind_default] by blast
  with l show ?thesis by (auto simp: continues_def)
qed

end
