(* ===== verification/Shell_Properties.thy ===== *)
theory Shell_Properties
  imports Shell_Join
begin

text \<open>
  What a person's approval of a shell line covers: a line of several commands is covered only
  when each of them is, and text inside quotes is a program's data.
\<close>

subsection \<open>The keys of two lines\<close>

lemma collect_keys_append:
  "collect_keys (xs @ ys) = (case collect_keys xs of None \<Rightarrow> None
     | Some a \<Rightarrow> map_option (\<lambda>b. a @ b) (collect_keys ys))"
  by (cases "collect_keys ys"; induction xs) (auto split: segment_key.splits option.splits)

lemma collect_keys_empty [simp]: "collect_keys (xs @ [empty_segment]) = collect_keys xs"
  by (cases "collect_keys xs") (simp_all add: collect_keys_append empty_segment_def segment_key_def
      strip_to_program_def from_keys_def)

text \<open>A line's keys in the order its commands name them, before they are sorted.\<close>

definition line_keys :: "bool \<Rightarrow> string \<Rightarrow> string list option" where
  "line_keys e command = (case tokenize_for command e of None \<Rightarrow> None | Some segs \<Rightarrow> collect_keys segs)"

lemma command_keys_line:
  "command_keys e command = (case line_keys e command of None \<Rightarrow> [] | Some ks \<Rightarrow> sort (remdups ks))"
  by (simp add: command_keys_def line_keys_def keys_from_segments_def split: option.split)

lemma set_command_keys:
  "set (command_keys e command) = (case line_keys e command of None \<Rightarrow> {} | Some ks \<Rightarrow> set ks)"
  by (simp add: command_keys_line split: option.split)

lemma line_keys_join:
  assumes "tokenize_for a e = Some segs" "joins s a"
  shows "line_keys e (a @ s # b) = (case line_keys e a of None \<Rightarrow> None
     | Some ka \<Rightarrow> map_option (\<lambda>kb. ka @ kb) (line_keys e b))"
proof -
  obtain segs' where s: "tokenize_for (a @ s # b) e = map_option (\<lambda>ss. segs' @ ss) (tokenize_for b e)"
      "collect_keys segs = collect_keys segs'"
    using tokenize_join [OF assms, of b] by fastforce
  show ?thesis
    by (cases "tokenize_for b e"; cases "collect_keys segs'") (simp_all add: line_keys_def s assms(1) collect_keys_append)
qed

text \<open>
  C5: A covered line has each of its parts covered. Let a line that reads on its own be followed
  by a newline, or, when it holds no newline itself, by a semicolon, and more text. If an
  approval or a safe list covers the whole, then the rest reads too, the keys of the whole are
  the keys of both parts, and every key of either part is safe, by itself or by its program, or
  granted. A whole that is not covered may have no keys at all, and a command the keys leave out
  stays out: \<open>jobs_hides_a_command\<close>.
\<close>

theorem every_line_is_covered:
  assumes reads: "tokenize_for a e \<noteq> None"
    and joined: "s = newline \<or> s = CHR '';'' \<and> newline \<notin> set a"
    and covered: "all_covered (command_keys e (a @ s # b)) safe granted"
  shows "set (command_keys e (a @ s # b)) = set (command_keys e a) \<union> set (command_keys e b) \<and>
    (\<forall>k \<in> set (command_keys e a) \<union> set (command_keys e b). safe k \<or> safe (program_of k) \<or> granted k) \<and>
    tokenize_for b e \<noteq> None"
proof -
  from reads obtain segs where "tokenize_for a e = Some segs" by auto
  note join = line_keys_join [OF this joined [folded joins_def], of b]
  have "line_keys e (a @ s # b) \<noteq> None"
    using covered by (cases "line_keys e (a @ s # b)") (simp_all add: all_covered_def command_keys_line)
  then obtain ka kb where k: "line_keys e a = Some ka" "line_keys e b = Some kb"
      "line_keys e (a @ s # b) = Some (ka @ kb)"
    by (auto simp: join split: option.splits)
  then have "tokenize_for b e \<noteq> None" by (cases "tokenize_for b e") (simp_all add: line_keys_def)
  moreover have "\<forall>k \<in> set (command_keys e (a @ s # b)). safe k \<or> safe (program_of k) \<or> granted k"
    using covered by (auto simp: all_covered_def uncovered_keys_def filter_empty_conv)
  ultimately show ?thesis by (simp add: set_command_keys k)
qed

theorem every_line_is_covered_witness:
  "set (command_keys True (''ls'' @ newline # ''cat'')) = {''shell:ls'', ''shell:cat''} \<and>
   tokenize_for ''cat'' True \<noteq> None"
proof -
  let ?safe = "List.member [''shell:ls'', ''shell:pwd'']" and ?granted = "List.member [''shell:cat'']"
  have "tokenize_for ''ls'' True \<noteq> None" by code_simp
  moreover have "newline = newline \<or> newline = CHR '';'' \<and> newline \<notin> set ''ls''" by simp
  moreover have "all_covered (command_keys True (''ls'' @ newline # ''cat'')) ?safe ?granted" by code_simp
  ultimately have "set (command_keys True (''ls'' @ newline # ''cat'')) =
      set (command_keys True ''ls'') \<union> set (command_keys True ''cat'') \<and> tokenize_for ''cat'' True \<noteq> None"
    using every_line_is_covered [of "''ls''" True newline "''cat''" ?safe ?granted] by blast
  moreover have "command_keys True ''ls'' = [''shell:ls'']" "command_keys True ''cat'' = [''shell:cat'']" by code_simp+
  ultimately show ?thesis by auto
qed

subsection \<open>Quoted words\<close>

text \<open>A word in single quotes, and a line of such words.\<close>

definition single_quoted :: "string \<Rightarrow> string" where
  "single_quoted w = quote_char # w @ [quote_char]"

fun quoted_line :: "string list \<Rightarrow> string" where
  "quoted_line [] = []"
| "quoted_line [w] = single_quoted w"
| "quoted_line (w # ws) = single_quoted w @ CHR '' '' # quoted_line ws"

definition data_word :: "string \<Rightarrow> word" where
  "data_word w = \<lparr>w_text = w, w_literal = True, w_quoted = True\<rparr>"

text \<open>The lexer after whole words, and in the middle of one.\<close>

definition at_words :: "word list \<Rightarrow> lexer \<Rightarrow> bool" where
  "at_words ws lx \<longleftrightarrow> lx_segments lx = [] \<and> lx_current lx = ws \<and> lx_writes lx = [] \<and> lx_reads lx = [] \<and>
     lx_word lx = [] \<and> \<not> lx_in_word lx \<and> lx_swallow lx = None \<and> lx_pending_heredocs lx = []"

definition in_data :: "word list \<Rightarrow> string \<Rightarrow> lexer \<Rightarrow> bool" where
  "in_data ws w lx \<longleftrightarrow> lx_segments lx = [] \<and> lx_current lx = ws \<and> lx_writes lx = [] \<and> lx_reads lx = [] \<and>
     lx_word lx = w \<and> lx_in_word lx \<and> lx_literal lx \<and> lx_quoted lx \<and> lx_swallow lx = None \<and>
     lx_pending_heredocs lx = []"

lemma take_until_stop: "q \<notin> set w \<Longrightarrow> take_until q (w @ q # t) = Some (w, t)"
  by (induction w) auto

lemma lex_single_quoted:
  assumes "at_words ws lx" "quote_char \<notin> set w"
  shows "\<exists>lx'. in_data ws w lx' \<and> lex_chars e False lx (single_quoted w @ t) = lex_chars e False lx' t"
proof -
  let ?lx = "(begin_word lx)\<lparr>lx_quoted := True, lx_word := lx_word (begin_word lx) @ w\<rparr>"
  have "in_data ws w ?lx" using assms(1) by (simp add: at_words_def in_data_def begin_word_def)
  moreover have "lex_turn e False lx quote_char (w @ quote_char # t) = Next False ?lx t"
    using take_until_stop [OF assms(2), of t] by (simp add: lex_turn_def plain_turn_def Let_def)
  ultimately show ?thesis by (auto simp: single_quoted_def lex_chars.simps(2))
qed

lemma end_data: "in_data ws w lx \<Longrightarrow> at_words (ws @ [data_word w]) (end_word lx)"
  by (simp add: in_data_def at_words_def end_word_def discard_word_def data_word_def Let_def)

lemma lex_space:
  "in_data ws w lx \<Longrightarrow> lex_chars e False lx (CHR '' '' # t) = lex_chars e False (end_word lx) t"
  by (simp add: lex_chars.simps(2) lex_turn_def plain_turn_def is_separator_def is_whitespace_def)

lemma finish_words:
  assumes "at_words ws (end_word lx)"
  shows "finish lx = Some [\<lparr>sg_words = ws, sg_writes = [], sg_reads = []\<rparr>]"
  using assms by (simp add: finish_def Let_def end_segment_def at_words_def)

lemma lex_quoted_line:
  "at_words done lx \<Longrightarrow> \<forall>w \<in> set ws. quote_char \<notin> set w \<Longrightarrow>
   lex_chars e False lx (quoted_line ws) =
     Some [\<lparr>sg_words = done @ map data_word ws, sg_writes = [], sg_reads = []\<rparr>]"
proof (induction ws arbitrary: "done" lx rule: quoted_line.induct)
  case 1
  then have "at_words done (end_word lx)" by (simp add: at_words_def end_word_def discard_word_def)
  then show ?case by (simp add: finish_words)
next
  case (2 w)
  then obtain lx' where "in_data done w lx'" "lex_chars e False lx (single_quoted w @ []) = lex_chars e False lx' []"
    using lex_single_quoted [of "done" lx w e "[]"] by auto
  then show ?case using finish_words [OF end_data] by simp
next
  case (3 w v ws)
  let ?t = "CHR '' '' # quoted_line (v # ws)"
  from "3.prems" obtain lx' where l: "in_data done w lx'"
      "lex_chars e False lx (single_quoted w @ ?t) = lex_chars e False lx' ?t"
    using lex_single_quoted [of "done" lx w e ?t] by auto
  then show ?case using "3.IH" [OF end_data [OF l(1)]] "3.prems"(2) lex_space [OF l(1)] by simp
qed

text \<open>
  C32: Quoting words and reading the line back gives exactly those words: each in single
  quotes, joined by spaces, is one command of one segment with the words as written, whatever
  characters they hold. No operator, expansion or newline inside the quotes starts a command,
  opens a file or changes a word, on either shell.
\<close>

theorem quoted_words_read_back:
  assumes "\<forall>w \<in> set ws. quote_char \<notin> set w"
  shows "tokenize_for (quoted_line ws) e =
    Some [\<lparr>sg_words = map (\<lambda>w. \<lparr>w_text = w, w_literal = True, w_quoted = True\<rparr>) ws,
           sg_writes = [], sg_reads = []\<rparr>]"
  using lex_quoted_line [of "[]" lexer_default ws e] assms
  by (simp add: tokenize_for_def at_words_def lexer_default_def data_word_def [abs_def])

theorem quoted_words_read_back_witness:
  "tokenize_for (quoted_line [''git commit'', ''$(rm) > x; ls'']) True =
    Some [\<lparr>sg_words = map (\<lambda>w. \<lparr>w_text = w, w_literal = True, w_quoted = True\<rparr>)
             [''git commit'', ''$(rm) > x; ls''], sg_writes = [], sg_reads = []\<rparr>]"
  by (rule quoted_words_read_back) simp

subsection \<open>Commands the keys miss\<close>

text \<open>
  A substitution inside an arithmetic expansion is read as running nothing, and \<open>jobs -x\<close>
  as running nothing: both lines key only what else is on them.
\<close>

lemma arithmetic_hides_a_command:
  "command_keys True ''for i in $(($(rm)));ls'' = [''shell:ls'']"
  by code_simp

lemma jobs_hides_a_command: "command_keys True ''ls;jobs -x rm'' = [''shell:ls'']"
  by code_simp

end
