(* ===== verification/Approvals.thy ===== *)
theory Approvals
  imports Tool_Policy Shell_Properties "HOL-Library.AList"
begin

text \<open>
  What a run may do without asking: the safe list, \<open>crates/leviath-cli/src/approvals.rs\<close>, and
  the grants a person makes, \<open>crates/leviath-runtime/src/pipeline/tool_verdicts.rs\<close>. The safe
  keys, a \<open>BTreeMap\<close> the code looks keys up in, are an association list.
\<close>

subsection \<open>The safe list\<close>

definition DEFAULT_SAFE_SHELL :: "string list" where
  "DEFAULT_SAFE_SHELL =
     [''ls'', ''cat'', ''head'', ''tail'', ''wc'', ''cut'', ''tr'', ''grep'', ''egrep'', ''fgrep'',
      ''diff'', ''cmp'', ''file'', ''stat'', ''du'', ''df'', ''jq'', ''column'', ''od'', ''strings'',
      ''basename'', ''dirname'', ''realpath'', ''readlink'', ''pwd'', ''cd'',
      ''echo'', ''printf'', ''date'', ''seq'', ''sleep'', ''true'', ''false'', ''test'', ''which'',
      ''type'', ''uname'', ''hostname'', ''whoami'', ''id'', ''ps'', ''pgrep'',
      ''git status'', ''git diff'', ''git log'', ''git show'', ''git branch'', ''git remote'',
      ''git rev-parse'', ''git blame'', ''git describe'', ''git ls-files'']"

datatype safe_source = SafeDefault | SafeConfig | SafeAgent | SafeBlueprint

record safe_commands =
  sc_defaults :: bool
  sc_tools :: "string list"
  sc_shell :: "string list"

record agent_safe_commands =
  asc_tools :: "string list"
  asc_shell :: "string list"
  asc_allow_blueprint :: bool

record safe_commands_def =
  scd_tools :: "string list"
  scd_shell :: "string list"

type_synonym safe_keys = "(string \<times> safe_source) list"

definition add_tool :: "safe_source \<Rightarrow> string \<Rightarrow> safe_keys \<Rightarrow> safe_keys" where
  "add_tool source tool keys =
     (if prefix KEY_PREFIX tool then keys else AList.update tool source keys)"

definition add_shell :: "bool \<Rightarrow> safe_source \<Rightarrow> string \<Rightarrow> safe_keys \<Rightarrow> safe_keys" where
  "add_shell escapes source entry keys =
     (if is_valid_prefix escapes entry then AList.update (KEY_PREFIX @ entry) source keys else keys)"

definition add_layer :: "bool \<Rightarrow> safe_source \<Rightarrow> string list \<Rightarrow> string list \<Rightarrow> safe_keys \<Rightarrow> safe_keys" where
  "add_layer escapes source tools shell keys =
     fold (add_shell escapes source) shell (fold (add_tool source) tools keys)"

definition resolve_safe_keys :: "bool \<Rightarrow> safe_commands \<Rightarrow> agent_safe_commands option \<Rightarrow>
    safe_commands_def option \<Rightarrow> bool \<Rightarrow> safe_keys" where
  "resolve_safe_keys escapes config agent blueprint allow_globally =
     (let keys0 = (if sc_defaults config
            then fold (\<lambda>entry. AList.update (KEY_PREFIX @ entry) SafeDefault) DEFAULT_SAFE_SHELL [] else []);
          keys1 = add_layer escapes SafeConfig (sc_tools config) (sc_shell config) keys0;
          keys2 = (case agent of None \<Rightarrow> keys1
            | Some a \<Rightarrow> add_layer escapes SafeAgent (asc_tools a) (asc_shell a) keys1);
          opted_in = (allow_globally \<or> (case agent of None \<Rightarrow> False | Some a \<Rightarrow> asc_allow_blueprint a))
      in case blueprint of
        None \<Rightarrow> keys2
      | Some bp \<Rightarrow> if opted_in then add_layer escapes SafeBlueprint (scd_tools bp) (scd_shell bp) keys2 else keys2)"

definition is_safe :: "safe_keys \<Rightarrow> string \<Rightarrow> bool" where
  "is_safe keys k \<longleftrightarrow> map_of keys k \<noteq> None"

subsection \<open>Grants\<close>

datatype approval_scope = ScopeOnce | ScopeStage | ScopeRun

record tool_grants =
  tg_run :: "string list"
  tg_stage :: "string list"
  tg_stage_index :: "nat option"

definition grants_default :: tool_grants where
  "grants_default = \<lparr>tg_run = [], tg_stage = [], tg_stage_index = None\<rparr>"

definition granted :: "tool_grants \<Rightarrow> string \<Rightarrow> bool" where
  "granted g key \<longleftrightarrow> List.member (tg_run g) key \<or> List.member (tg_stage g) key"

definition enter_stage :: "nat \<Rightarrow> tool_grants \<Rightarrow> tool_grants" where
  "enter_stage index g =
     (if tg_stage_index g \<noteq> Some index then g\<lparr>tg_stage_index := Some index, tg_stage := []\<rparr> else g)"

definition grant :: "approval_scope option \<Rightarrow> string list \<Rightarrow> tool_grants \<Rightarrow> tool_grants" where
  "grant scope keys g =
     (case scope of
        Some ScopeStage \<Rightarrow> g\<lparr>tg_stage := fold List.insert keys (tg_stage g)\<rparr>
      | Some ScopeRun \<Rightarrow> g\<lparr>tg_run := fold List.insert keys (tg_run g)\<rparr>
      | _ \<Rightarrow> g)"

lemma granted_grant:
  "granted (grant scope keys g) k \<longleftrightarrow> granted g k \<or> ((scope = Some ScopeStage \<or> scope = Some ScopeRun) \<and> k \<in> set keys)"
proof -
  have "set (fold List.insert keys ks) = set keys \<union> set ks" for ks
    by (induction keys arbitrary: ks) auto
  then show ?thesis by (auto simp: grant_def granted_def split: option.split approval_scope.split)
qed

subsection \<open>Which keys are safe\<close>

text \<open>
  A safe key that names a shell command is one that passed the admission rule, or a shipped one.
\<close>

definition admitted :: "bool \<Rightarrow> string \<Rightarrow> bool" where
  "admitted escapes k \<longleftrightarrow> prefix KEY_PREFIX k \<longrightarrow>
     (\<exists>entry. k = KEY_PREFIX @ entry \<and> (is_valid_prefix escapes entry \<or> entry \<in> set DEFAULT_SAFE_SHELL))"

definition all_admitted :: "bool \<Rightarrow> safe_keys \<Rightarrow> bool" where
  "all_admitted escapes keys \<longleftrightarrow> (\<forall>k \<in> fst ` set keys. admitted escapes k)"

lemma update_admitted: "all_admitted e keys \<Longrightarrow> admitted e k \<Longrightarrow> all_admitted e (AList.update k v keys)"
  by (auto simp: all_admitted_def dom_update [unfolded dom_map_of_conv_image_fst])

lemma fold_admitted:
  assumes "\<And>x keys. all_admitted e keys \<Longrightarrow> all_admitted e (f x keys)" "all_admitted e keys"
  shows "all_admitted e (fold f xs keys)"
  using assms(2) by (induction xs arbitrary: keys) (simp_all add: assms(1))

lemma add_layer_admitted: "all_admitted e keys \<Longrightarrow> all_admitted e (add_layer e source tools shell keys)"
  unfolding add_layer_def
  by (intro fold_admitted) (auto simp: add_tool_def add_shell_def admitted_def intro!: update_admitted)

lemma resolve_safe_keys_admitted: "all_admitted e (resolve_safe_keys e config agent blueprint allow)"
proof -
  have step: "all_admitted e (fold f xs [])" if "\<And>x keys. x \<in> set xs \<Longrightarrow> all_admitted e keys \<Longrightarrow> all_admitted e (f x keys)"
    for f :: "string \<Rightarrow> safe_keys \<Rightarrow> safe_keys" and xs
  proof -
    have "all_admitted e keys \<Longrightarrow> all_admitted e (fold f xs keys)" for keys
      using that by (induction xs arbitrary: keys) auto
    from this [of "[]"] show ?thesis by (simp add: all_admitted_def [of e "[]"])
  qed
  have "all_admitted e (fold (\<lambda>entry. AList.update (KEY_PREFIX @ entry) SafeDefault) DEFAULT_SAFE_SHELL [])"
    by (rule step) (auto simp: admitted_def intro: update_admitted)
  then show ?thesis
    by (auto simp: resolve_safe_keys_def Let_def all_admitted_def [of e "[]"] add_layer_admitted split: option.split)
qed

text \<open>No admitted entry is a write's key.\<close>

lemma default_no_write: "\<forall>entry \<in> set DEFAULT_SAFE_SHELL. \<not> prefix ''>'' entry"
  by (simp add: DEFAULT_SAFE_SHELL_def)

lemma safe_not_a_write:
  assumes "is_safe (resolve_safe_keys e config agent blueprint allow) k" "prefix KEY_PREFIX k"
  shows "\<not> prefix (KEY_PREFIX @ ''>'') k"
proof -
  have "k \<in> fst ` set (resolve_safe_keys e config agent blueprint allow)"
    using assms(1) by (auto simp: is_safe_def map_of_eq_None_iff)
  then obtain entry where "k = KEY_PREFIX @ entry" "is_valid_prefix e entry \<or> entry \<in> set DEFAULT_SAFE_SHELL"
    using resolve_safe_keys_admitted [of e config agent blueprint allow] assms(2)
    by (auto simp: all_admitted_def admitted_def)
  then show ?thesis using default_no_write by (auto simp: is_valid_prefix_def)
qed

lemma split_once_first: "split_once c s = Some (a, b) \<Longrightarrow> s = a @ c # b"
  by (rule split_once_Some [THEN conjunct1])

lemma program_of_write:
  "prefix (KEY_PREFIX @ ''>'') (program_of (KEY_PREFIX @ write_key path))"
proof (cases "split_once (CHR '' '') path")
  case None
  then have "split_once (CHR '' '') (KEY_PREFIX @ write_key path) = None"
    by (simp add: KEY_PREFIX_def write_key_def)
  then show ?thesis by (simp add: program_of_def write_key_def)
next
  case (Some p)
  obtain a b where "p = (a, b)" by force
  then have "split_once (CHR '' '') (KEY_PREFIX @ write_key path) = Some (KEY_PREFIX @ CHR ''>'' # a, b)"
    using Some by (simp add: KEY_PREFIX_def write_key_def)
  then show ?thesis by (simp add: program_of_def)
qed

subsection \<open>A write needs a grant of its own\<close>

lemma collect_keys_write:
  assumes "collect_keys segs = Some ks" "s \<in> set segs" "t \<in> set (sg_writes s)" "classify_write t = WritePath path"
  shows "KEY_PREFIX @ write_key path \<in> set ks"
proof -
  have w: "write_keys ts = Some ws \<Longrightarrow> t \<in> set ts \<Longrightarrow> KEY_PREFIX @ write_key path \<in> set ws" for ts ws
    using assms(4) by (induction ts arbitrary: ws) (auto split: write_target.splits)
  from assms(1,2) show ?thesis
  proof (induction segs arbitrary: ks)
    case (Cons s' segs)
    then obtain pre ws ks' where k: "write_keys (sg_writes s') = Some ws" "collect_keys segs = Some ks'"
        "ks = pre @ ws @ ks'"
      by (fastforce split: segment_key.splits option.splits)
    then show ?case using Cons.IH [OF k(2)] Cons.prems(2) w [OF k(1)] assms(3) by auto
  qed simp
qed

lemma write_target_keys:
  assumes "path \<in> set (write_target_paths e command)" "command_keys e command \<noteq> []"
  shows "KEY_PREFIX @ write_key path \<in> set (command_keys e command)"
proof -
  obtain segs ks where k: "tokenize_for command e = Some segs" "collect_keys segs = Some ks"
    using assms(2) by (cases "tokenize_for command e"; cases "collect_keys (the (tokenize_for command e))")
      (auto simp: command_keys_def keys_from_segments_def)
  with assms(1) obtain s t where "s \<in> set segs" "t \<in> set (sg_writes s)" "classify_write t = WritePath path"
    by (auto simp: write_target_paths_def write_targets_for_def List.map_filter_def split: write_target.splits)
  from collect_keys_write [OF k(2) this] show ?thesis
    by (simp add: set_command_keys line_keys_def k)
qed

text \<open>
  What a line's coverage asks of a table of safe keys: no key of it is a write's. The rest of a
  table does not matter to what follows.
\<close>

locale safe_table =
  fixes safe :: "string \<Rightarrow> bool"
  assumes no_write_key: "safe k \<Longrightarrow> \<not> prefix (KEY_PREFIX @ ''>'') k"
begin

lemma write_key_unsafe: "\<not> safe (KEY_PREFIX @ write_key path)" "\<not> safe (program_of (KEY_PREFIX @ write_key path))"
proof -
  have "prefix (KEY_PREFIX @ ''>'') (KEY_PREFIX @ write_key path)" by (simp add: write_key_def)
  then show "\<not> safe (KEY_PREFIX @ write_key path)" using no_write_key by blast
  show "\<not> safe (program_of (KEY_PREFIX @ write_key path))" using no_write_key program_of_write by blast
qed

lemma covered_write:
  assumes "all_covered (command_keys e command) safe given" "path \<in> set (write_target_paths e command)"
  shows "given (KEY_PREFIX @ write_key path)"
proof -
  let ?k = "KEY_PREFIX @ write_key path"
  have "?k \<in> set (command_keys e command)"
    using write_target_keys [OF assms(2)] assms(1) by (simp add: all_covered_def)
  then have "safe ?k \<or> safe (program_of ?k) \<or> given ?k"
    using assms(1) by (auto simp: all_covered_def uncovered_keys_def filter_empty_conv)
  then show ?thesis using write_key_unsafe by blast
qed

end

interpretation safe_list: safe_table "is_safe (resolve_safe_keys e config agent blueprint allow)"
  for e config agent blueprint allow
  by unfold_locales (meson safe_not_a_write append_prefixD)

text \<open>
  C17: No safe list approves a write. Whatever the user's configuration, the agent's and the
  blueprint's say is safe, a shell line that is covered has each file it redirects to granted
  by name: a person approved that write.
\<close>

theorem safe_list_never_covers_a_write:
  assumes "all_covered (command_keys e command)
      (is_safe (resolve_safe_keys e config agent blueprint allow)) (granted g)"
    and "path \<in> set (write_target_paths e command)"
  shows "granted g (KEY_PREFIX @ write_key path)"
  by (rule safe_list.covered_write [OF assms])

definition ex_safe_config :: safe_commands where
  "ex_safe_config = \<lparr>sc_defaults = False, sc_tools = [''shell:>x''], sc_shell = [''>x'', ''ls'']\<rparr>"

definition ex_write_grants :: tool_grants where
  "ex_write_grants = \<lparr>tg_run = [''shell:>x''], tg_stage = [], tg_stage_index = None\<rparr>"

theorem safe_list_never_covers_a_write_witness:
  "all_covered (command_keys True ''ls>x'')
      (is_safe (resolve_safe_keys True ex_safe_config None None False)) (granted ex_write_grants) \<and>
    granted ex_write_grants (KEY_PREFIX @ write_key ''x'')"
proof -
  have c: "all_covered (command_keys True ''ls>x'')
      (is_safe (resolve_safe_keys True ex_safe_config None None False)) (granted ex_write_grants)"
    by code_simp
  have "''x'' \<in> set (write_target_paths True ''ls>x'')" by code_simp
  from safe_list_never_covers_a_write [OF c this] c show ?thesis by simp
qed

text \<open>The admission rule does admit a shell and a variable's key, named on their own.\<close>

lemma a_shell_is_admitted: "is_valid_prefix True ''sh'' \<and> is_valid_prefix True ''env:PATH''"
  by code_simp

end
