(* ===== verification/Yolo.thy ===== *)
theory Yolo
  imports Approvals
begin

text \<open>
  Profiles of unattended runs, \<open>crates/leviath-cli/src/yolo/rules.rs\<close> and \<open>decide.rs\<close>, and the
  paths their rules are matched on, \<open>crates/leviath-core/src/paths.rs\<close>. Paths are read as on
  Unix. The glob library and the file system are parameters: a pattern is its text, with
  \<open>gl_valid\<close> for the patterns that compile, \<open>gl_matches\<close> for matching, \<open>gl_matches_path\<close> where a
  star stays inside one name, \<open>gl_matches_dots\<close> for the patterns that match two dots, and
  \<open>gl_list\<close> for what a pattern under a base directory finds on the disk; \<open>fs_canonicalize\<close>,
  \<open>fs_exists\<close> and \<open>fs_hard_linked\<close> are the system calls. Why a rule was refused, and which rule decided, are
  constructors where the code formats a sentence.
\<close>

subsection \<open>Paths\<close>

record file_system =
  fs_canonicalize :: "string \<Rightarrow> string option"
  fs_exists :: "string \<Rightarrow> bool"
  fs_hard_linked :: "string \<Rightarrow> bool"

record globs =
  gl_valid :: "string \<Rightarrow> bool"
  gl_matches :: "string \<Rightarrow> string \<Rightarrow> bool"
  gl_matches_path :: "string \<Rightarrow> string \<Rightarrow> bool"
  gl_matches_dots :: "string \<Rightarrow> bool"
  gl_list :: "string option \<Rightarrow> string \<Rightarrow> string list"

datatype path_component = RootDir | CurDir | ParentDir | Normal string

fun split_at :: "char \<Rightarrow> string \<Rightarrow> string \<Rightarrow> string list" where
  "split_at sep acc [] = [acc]"
| "split_at sep acc (c # cs) = (if c = sep then acc # split_at sep [] cs else split_at sep (acc @ [c]) cs)"

definition path_is_absolute :: "string \<Rightarrow> bool" where
  "path_is_absolute p \<longleftrightarrow> prefix ''/'' p"

text \<open>\<open>Path::components\<close>: no empty names, and a dot only at the start of a relative path.\<close>

definition path_components :: "string \<Rightarrow> path_component list" where
  "path_components p =
     (let names = split_at (CHR ''/'') [] p;
          lead = (if path_is_absolute p then [RootDir] else if hd names = ''.'' then [CurDir] else [])
      in lead @ List.map_filter
           (\<lambda>n. if n = [] \<or> n = ''.'' then None else if n = ''..'' then Some ParentDir else Some (Normal n)) names)"

text \<open>\<open>Path::join\<close>, and a path built of its components.\<close>

definition path_join :: "string \<Rightarrow> string \<Rightarrow> string" where
  "path_join base p =
     (if path_is_absolute p then p
      else if base = [] \<or> last base = CHR ''/'' then base @ p
      else base @ CHR ''/'' # p)"

definition component_text :: "path_component \<Rightarrow> string" where
  "component_text c = (case c of RootDir \<Rightarrow> ''/'' | CurDir \<Rightarrow> ''.'' | ParentDir \<Rightarrow> ''..'' | Normal n \<Rightarrow> n)"

definition path_of :: "path_component list \<Rightarrow> string" where
  "path_of comps = fold (\<lambda>c p. path_join p (component_text c)) comps []"

definition expand_home :: "string \<Rightarrow> string option \<Rightarrow> string option" where
  "expand_home s home =
     (if s = ''~'' then home
      else if prefix ''~/'' s then map_option (\<lambda>h. path_join h (drop 2 s)) home
      else Some s)"

fun fold_components :: "path_component list \<Rightarrow> path_component list \<Rightarrow> path_component list option" where
  "fold_components out [] = Some out"
| "fold_components out (c # cs) =
     (case c of
        CurDir \<Rightarrow> fold_components out cs
      | ParentDir \<Rightarrow>
          (if out = [] then None
           else case last out of Normal _ \<Rightarrow> fold_components (butlast out) cs | _ \<Rightarrow> None)
      | other \<Rightarrow> fold_components (out @ [other]) cs)"

definition fold_dot_dot :: "string \<Rightarrow> string option" where
  "fold_dot_dot path = map_option path_of (fold_components [] (path_components path))"

text \<open>The deepest part of a path the file system resolves, with the rest put back.\<close>

function canonicalize_existing_prefix :: "file_system \<Rightarrow> path_component list \<Rightarrow> string list \<Rightarrow> string option" where
  "canonicalize_existing_prefix fs probe tail =
     (case fs_canonicalize fs (path_of probe) of
        Some found \<Rightarrow> Some (foldr (\<lambda>name full. path_join full name) tail found)
      | None \<Rightarrow>
          if fs_exists fs (path_of probe) then None
          else if probe = [] then None
          else case last probe of
            Normal name \<Rightarrow> canonicalize_existing_prefix fs (butlast probe) (tail @ [name])
          | _ \<Rightarrow> None)"
  by pat_completeness auto
termination
  by (relation "measure (\<lambda>(_, probe, _). length probe)") auto

declare canonicalize_existing_prefix.simps [simp del]

definition canonicalize_for_match :: "file_system \<Rightarrow> string \<Rightarrow> string option" where
  "canonicalize_for_match fs path = canonicalize_existing_prefix fs (path_components path) []"

subsection \<open>Rules\<close>

datatype tool_group = GroupAll | GroupBuiltin | GroupSubagent | GroupScripts | GroupMcp

definition GROUPS :: "(string \<times> tool_group) list" where
  "GROUPS = [(''@all'', GroupAll), (''@builtin'', GroupBuiltin), (''@subagent'', GroupSubagent),
     (''@scripts'', GroupScripts), (''@mcp'', GroupMcp)]"

definition covers :: "tool_group \<Rightarrow> tool_group \<Rightarrow> bool" where
  "covers g source \<longleftrightarrow> g = GroupAll \<or> g = source"

datatype verdict = VAllow | VAsk | VDeny

definition verdict_rank :: "verdict \<Rightarrow> nat" where
  "verdict_rank v = (case v of VAllow \<Rightarrow> 0 | VAsk \<Rightarrow> 1 | VDeny \<Rightarrow> 2)"

definition verdict_policy :: "verdict \<Rightarrow> tool_policy" where
  "verdict_policy v = (case v of VAllow \<Rightarrow> PolicyAllow | VAsk \<Rightarrow> PolicyAsk | VDeny \<Rightarrow> PolicyDeny)"

definition verdict_stricter :: "verdict \<Rightarrow> verdict \<Rightarrow> verdict" where
  "verdict_stricter a b = (if verdict_rank a \<ge> verdict_rank b then a else b)"

datatype waiver = WaiveAllow | WaiveAsk

definition waiver_verdict :: "waiver \<Rightarrow> verdict" where
  "waiver_verdict w = (case w of WaiveAllow \<Rightarrow> VAllow | WaiveAsk \<Rightarrow> VAsk)"

datatype human = HumanAsk | HumanAuto

record tool_lists_spec =
  tl_allow :: "string list"
  tl_ask :: "string list"
  tl_deny :: "string list"

record shell_rule_spec =
  srs_command :: string
  srs_args :: "string list option"

record shell_lists_spec =
  sl_allow :: "shell_rule_spec list"
  sl_ask :: "shell_rule_spec list"
  sl_deny :: "shell_rule_spec list"

record profile_spec =
  ps_default :: waiver
  ps_questions :: human
  ps_checkpoints :: human
  ps_gate :: human
  ps_tools :: tool_lists_spec
  ps_shell :: shell_lists_spec

definition builtin_default_spec :: profile_spec where
  "builtin_default_spec = \<lparr>ps_default = WaiveAllow, ps_questions = HumanAuto, ps_checkpoints = HumanAuto,
     ps_gate = HumanAuto, ps_tools = \<lparr>tl_allow = [], tl_ask = [], tl_deny = []\<rparr>,
     ps_shell = \<lparr>sl_allow = [], sl_ask = [], sl_deny = []\<rparr>\<rparr>"

datatype rule_error = EmptyTool string | NotAGroup string | ToolGlob string
  | EmptyCommand string | CommandGlob string string | EmptyArgs string | ArgsGlob string string

datatype tool_matcher = MatchGroup tool_group | MatchGlob string | MatchName string

record tool_rule =
  tr_entry :: string
  tr_matcher :: tool_matcher

definition compile_tool_rule :: "globs \<Rightarrow> string \<Rightarrow> rule_error + tool_rule" where
  "compile_tool_rule gl entry =
     (let trimmed = trim entry in
      if trimmed = [] then Inl (EmptyTool entry)
      else if prefix ''@'' trimmed then
        (case map_of GROUPS trimmed of
           None \<Rightarrow> Inl (NotAGroup entry)
         | Some g \<Rightarrow> Inr \<lparr>tr_entry = trimmed, tr_matcher = MatchGroup g\<rparr>)
      else if list_ex (\<lambda>c. c = CHR ''*'' \<or> c = CHR ''?'' \<or> c = CHR ''['') trimmed then
        (if gl_valid gl trimmed then Inr \<lparr>tr_entry = trimmed, tr_matcher = MatchGlob trimmed\<rparr>
         else Inl (ToolGlob entry))
      else Inr \<lparr>tr_entry = trimmed, tr_matcher = MatchName trimmed\<rparr>)"

definition tool_rule_matches :: "globs \<Rightarrow> tool_rule \<Rightarrow> string \<Rightarrow> tool_group \<Rightarrow> bool" where
  "tool_rule_matches gl r tool source =
     (case tr_matcher r of
        MatchGroup g \<Rightarrow> covers g source
      | MatchGlob pattern \<Rightarrow> gl_matches gl pattern tool
      | MatchName name \<Rightarrow> List.member (tool_name_spellings tool) name)"

record shell_rule =
  sr_entry :: string
  sr_command :: "string list"
  sr_args :: "string list option"

definition split_whitespace :: "string \<Rightarrow> string list" where
  "split_whitespace s = filter (\<lambda>w. w \<noteq> []) (split_at (CHR '' '') [] (map (\<lambda>c. if is_space c then CHR '' '' else c) s))"

fun check_args :: "globs \<Rightarrow> string \<Rightarrow> string list \<Rightarrow> rule_error option" where
  "check_args gl entry [] = None"
| "check_args gl entry (a # as) =
     (if trim a = [] then Some (EmptyArgs entry)
      else if \<not> gl_valid gl a then Some (ArgsGlob entry a)
      else check_args gl entry as)"

definition compile_shell_rule :: "globs \<Rightarrow> shell_rule_spec \<Rightarrow> rule_error + shell_rule" where
  "compile_shell_rule gl spec =
     (let entry = trim (srs_command spec) in
      if entry = [] then Inl (EmptyCommand entry)
      else let command = split_whitespace entry in
        case List.find (\<lambda>w. \<not> gl_valid gl w) command of
          Some w \<Rightarrow> Inl (CommandGlob entry w)
        | None \<Rightarrow>
            (case (case srs_args spec of None \<Rightarrow> None | Some args \<Rightarrow> check_args gl entry args) of
               Some err \<Rightarrow> Inl err
             | None \<Rightarrow> Inr \<lparr>sr_entry = entry, sr_command = command, sr_args = srs_args spec\<rparr>))"

record compiled =
  cp_tools :: "(verdict \<times> tool_rule) list"
  cp_shell :: "(verdict \<times> shell_rule) list"

text \<open>A list of entries compiled in order, stopping at the first that cannot be.\<close>

fun compile_all :: "('a \<Rightarrow> rule_error + 'b) \<Rightarrow> (verdict \<times> 'a) list \<Rightarrow> rule_error + (verdict \<times> 'b) list" where
  "compile_all f [] = Inr []"
| "compile_all f ((v, x) # xs) =
     (case f x of
        Inl err \<Rightarrow> Inl err
      | Inr r \<Rightarrow> (case compile_all f xs of Inl err \<Rightarrow> Inl err | Inr rs \<Rightarrow> Inr ((v, r) # rs)))"

definition compile_profile :: "globs \<Rightarrow> profile_spec \<Rightarrow> rule_error + compiled" where
  "compile_profile gl spec =
     (case compile_all (compile_tool_rule gl)
             (map (Pair VDeny) (tl_deny (ps_tools spec)) @ map (Pair VAsk) (tl_ask (ps_tools spec)) @
              map (Pair VAllow) (tl_allow (ps_tools spec))) of
        Inl err \<Rightarrow> Inl err
      | Inr tools \<Rightarrow>
          (case compile_all (compile_shell_rule gl)
             (map (Pair VDeny) (sl_deny (ps_shell spec)) @ map (Pair VAsk) (sl_ask (ps_shell spec)) @
              map (Pair VAllow) (sl_allow (ps_shell spec))) of
             Inl err \<Rightarrow> Inl err
           | Inr shell \<Rightarrow> Inr \<lparr>cp_tools = tools, cp_shell = shell\<rparr>))"


subsection \<open>Decisions\<close>

datatype tool_kind = KindBuiltin | KindSubagent | KindScript | KindMcp

definition kind_group :: "tool_kind \<Rightarrow> tool_group" where
  "kind_group k = (case k of KindBuiltin \<Rightarrow> GroupBuiltin | KindSubagent \<Rightarrow> GroupSubagent
     | KindScript \<Rightarrow> GroupScripts | KindMcp \<Rightarrow> GroupMcp)"

definition classify_tool :: "string \<Rightarrow> bool \<Rightarrow> bool \<Rightarrow> tool_kind" where
  "classify_tool tool is_builtin is_script =
     (if is_subagent_tool tool then KindSubagent else if is_builtin then KindBuiltin
      else if is_script then KindScript else KindMcp)"

record decide_input =
  di_tool :: string
  di_arguments :: json
  di_configured :: tool_policy
  di_launch_allowed :: bool
  di_kind :: tool_kind
  di_workdir :: string
  di_home :: "string option"
  di_escapes :: bool

text \<open>What a run's machine gives a decision: its globs and its files.\<close>

record machine =
  mc_globs :: globs
  mc_files :: file_system

datatype reason = ConfigDenies | ToolsEntry verdict string | ConfigAllows | ProfileDefault verdict
  | LineUnreadable | CommandOpaque | ShellEntry verdict string | RedirectTakes reason

record yolo_profile =
  yp_name :: string
  yp_spec :: profile_spec
  yp_compiled :: compiled

fun first_tool_rule :: "globs \<Rightarrow> (verdict \<times> tool_rule) list \<Rightarrow> string \<Rightarrow> tool_group \<Rightarrow> bool \<Rightarrow>
    (verdict \<times> reason) option" where
  "first_tool_rule gl [] tool source launch_allowed = None"
| "first_tool_rule gl ((v, r) # rs) tool source launch_allowed =
     (if \<not> tool_rule_matches gl r tool source then first_tool_rule gl rs tool source launch_allowed
      else if v = VAsk \<and> launch_allowed then first_tool_rule gl rs tool source launch_allowed
      else Some (v, ToolsEntry v (tr_entry r)))"

definition tool_verdict :: "machine \<Rightarrow> yolo_profile \<Rightarrow> string \<Rightarrow> tool_group \<Rightarrow> tool_policy \<Rightarrow> bool \<Rightarrow>
    verdict \<times> reason" where
  "tool_verdict mc profile tool source configured launch_allowed =
     (if configured = PolicyDeny then (VDeny, ConfigDenies)
      else case first_tool_rule (mc_globs mc) (cp_tools (yp_compiled profile)) tool source launch_allowed of
        Some found \<Rightarrow> found
      | None \<Rightarrow>
          if configured = PolicyAllow then (VAllow, ConfigAllows)
          else let d = waiver_verdict (ps_default (yp_spec profile)) in (d, ProfileDefault d))"

definition resolve_word :: "file_system \<Rightarrow> string \<Rightarrow> string \<Rightarrow> string option \<Rightarrow> string option" where
  "resolve_word fs word workdir home =
     (case expand_home word home of
        None \<Rightarrow> None
      | Some expanded \<Rightarrow>
          let joined = (if path_is_absolute expanded then expanded else path_join workdir expanded) in
          (case fold_dot_dot joined of
             None \<Rightarrow> None
           | Some folded \<Rightarrow> canonicalize_for_match fs folded))"

definition expand_pattern :: "string \<Rightarrow> string \<Rightarrow> string option \<Rightarrow> string option" where
  "expand_pattern pattern workdir home =
     map_option (\<lambda>expanded. if path_is_absolute expanded then expanded else path_join workdir expanded)
       (expand_home pattern home)"

definition arg_matches :: "machine \<Rightarrow> string \<Rightarrow> string \<Rightarrow> decide_input \<Rightarrow> bool" where
  "arg_matches mc pattern word di =
     (if prefix ''-'' word then gl_valid (mc_globs mc) pattern \<and> gl_matches (mc_globs mc) pattern word
      else case resolve_word (mc_files mc) word (di_workdir di) (di_home di) of
        None \<Rightarrow> False
      | Some resolved \<Rightarrow>
          (case expand_pattern pattern (di_workdir di) (di_home di) of
             None \<Rightarrow> False
           | Some expanded \<Rightarrow>
               let text' = (case canonicalize_for_match (mc_files mc) expanded of Some p \<Rightarrow> p | None \<Rightarrow> expanded)
               in gl_valid (mc_globs mc) text' \<and> gl_matches (mc_globs mc) text' resolved))"

definition shell_rule_matches :: "machine \<Rightarrow> shell_rule \<Rightarrow> string list \<Rightarrow> decide_input \<Rightarrow> bool" where
  "shell_rule_matches mc r words di \<longleftrightarrow>
     length (sr_command r) \<le> length words \<and>
     list_all (\<lambda>(pattern, word). gl_matches (mc_globs mc) pattern word) (zip (sr_command r) words) \<and>
     (case sr_args r of
        None \<Rightarrow> True
      | Some args \<Rightarrow> list_all (\<lambda>word. list_ex (\<lambda>pattern. arg_matches mc pattern word di) args)
                       (drop (length (sr_command r)) words))"

fun first_shell_rule :: "machine \<Rightarrow> (verdict \<times> shell_rule) list \<Rightarrow> string list \<Rightarrow> decide_input \<Rightarrow>
    (verdict \<times> reason) option" where
  "first_shell_rule mc [] words di = None"
| "first_shell_rule mc ((v, r) # rs) words di =
     (if shell_rule_matches mc r words di then Some (v, ShellEntry v (sr_entry r))
      else first_shell_rule mc rs words di)"

definition segment_verdict :: "machine \<Rightarrow> yolo_profile \<Rightarrow> matchable_segment \<Rightarrow> bool \<Rightarrow> verdict \<times> reason \<Rightarrow>
    decide_input \<Rightarrow> verdict \<times> reason" where
  "segment_verdict mc profile s has_rules base di =
     (if ms_opaque s then (if has_rules then (VAsk, CommandOpaque) else base)
      else case first_shell_rule mc (cp_shell (yp_compiled profile)) (ms_words s) di of
        Some found \<Rightarrow> found
      | None \<Rightarrow> base)"

text \<open>One command of a line, redirects included, and the strictest of the commands so far.\<close>

definition command_verdict :: "machine \<Rightarrow> yolo_profile \<Rightarrow> bool \<Rightarrow> verdict \<times> reason \<Rightarrow> (verdict \<times> reason) option \<Rightarrow>
    decide_input \<Rightarrow> matchable_segment \<Rightarrow> verdict \<times> reason" where
  "command_verdict mc profile has_rules base write di s =
     (let found = segment_verdict mc profile s has_rules base di in
      case write of
        Some (wv, wr) \<Rightarrow>
          if ms_writes s \<and> verdict_stricter wv (fst found) = wv \<and> wv \<noteq> fst found
          then (wv, RedirectTakes wr) else found
      | None \<Rightarrow> found)"

definition keep_stricter :: "verdict \<times> reason \<Rightarrow> (verdict \<times> reason) option \<Rightarrow> (verdict \<times> reason) option" where
  "keep_stricter found line =
     (case line of
        Some current \<Rightarrow> if verdict_stricter (fst current) (fst found) = fst current then Some current else Some found
      | None \<Rightarrow> Some found)"

definition shell_verdict :: "machine \<Rightarrow> yolo_profile \<Rightarrow> string \<Rightarrow> decide_input \<Rightarrow> verdict \<times> reason" where
  "shell_verdict mc profile command di =
     (let base = tool_verdict mc profile ''shell'' GroupBuiltin (di_configured di) (di_launch_allowed di) in
      if fst base = VDeny then base
      else let has_rules = (cp_shell (yp_compiled profile) \<noteq> []) in
        case matchable_segments command (di_escapes di) of
          None \<Rightarrow> if has_rules then (VAsk, LineUnreadable) else base
        | Some segments \<Rightarrow>
            let write = (if list_ex ms_writes segments
                  then Some (tool_verdict mc profile ''write_file'' GroupBuiltin (di_configured di) (di_launch_allowed di))
                  else None);
                line = fold (\<lambda>s. keep_stricter (command_verdict mc profile has_rules base write di s)) segments None
            in case line of Some found \<Rightarrow> found | None \<Rightarrow> base)"

definition decide_profile :: "machine \<Rightarrow> yolo_profile \<Rightarrow> decide_input \<Rightarrow> tool_policy \<times> reason" where
  "decide_profile mc profile di =
     (let (v, why) = (case shell_command (di_tool di) (di_arguments di) of
          Some command \<Rightarrow> shell_verdict mc profile command di
        | None \<Rightarrow> tool_verdict mc profile (di_tool di) (kind_group (di_kind di)) (di_configured di) (di_launch_allowed di))
      in (verdict_policy v, why))"

text \<open>A run without a profile keeps what its configuration says.\<close>

definition decide_under :: "machine \<Rightarrow> yolo_profile option \<Rightarrow> decide_input \<Rightarrow> (tool_policy \<times> reason) option" where
  "decide_under mc profile di = map_option (\<lambda>p. decide_profile mc p di) profile"

end
