(* ===== verification/Yolo_Properties.thy ===== *)
theory Yolo_Properties
  imports Yolo
begin

text \<open>
  What a profile promises: its lists are consulted strictest first, a shell line takes the
  verdict of its strictest command, and no rule that compiles matches by being empty.
\<close>

subsection \<open>Verdicts, ordered\<close>

lemma verdict_rank_eq: "verdict_rank a = verdict_rank b \<longleftrightarrow> a = b"
  by (cases a; cases b; simp add: verdict_rank_def)

instantiation verdict :: linorder
begin

definition less_eq_verdict :: "verdict \<Rightarrow> verdict \<Rightarrow> bool" where
  "less_eq_verdict a b \<longleftrightarrow> verdict_rank a \<le> verdict_rank b"

definition less_verdict :: "verdict \<Rightarrow> verdict \<Rightarrow> bool" where
  "less_verdict a b \<longleftrightarrow> verdict_rank a < verdict_rank b"

instance
  by standard (auto simp: less_eq_verdict_def less_verdict_def verdict_rank_eq)

end

lemma verdict_stricter_max: "verdict_stricter a b = max a b"
  by (auto simp: verdict_stricter_def max_def less_eq_verdict_def verdict_rank_eq)

lemma verdict_bounds [simp]: "v \<le> VDeny" "VAllow \<le> v"
  by (cases v; simp add: less_eq_verdict_def verdict_rank_def)+

lemma max_allow [simp]: "max v VAllow = v" "max VAllow v = v"
  by (simp_all add: max_def antisym)

subsection \<open>The strictest command of a line\<close>

text \<open>A command with the file it writes, where it writes one.\<close>

definition command_strictness :: "machine \<Rightarrow> yolo_profile \<Rightarrow> decide_input \<Rightarrow> matchable_segment \<Rightarrow> verdict" where
  "command_strictness mc profile di s =
     (let answer = (\<lambda>tool. tool_verdict mc profile tool GroupBuiltin (di_configured di) (di_launch_allowed di)) in
      max (fst (segment_verdict mc profile s (cp_shell (yp_compiled profile) \<noteq> []) (answer ''shell'') di))
          (if ms_writes s then fst (answer ''write_file'') else VAllow))"

lemma command_verdict_strictness:
  assumes "ms_writes s \<Longrightarrow> write = Some (tool_verdict mc profile ''write_file'' GroupBuiltin (di_configured di) (di_launch_allowed di))"
  shows "fst (command_verdict mc profile (cp_shell (yp_compiled profile) \<noteq> [])
      (tool_verdict mc profile ''shell'' GroupBuiltin (di_configured di) (di_launch_allowed di)) write di s)
    = command_strictness mc profile di s"
proof (cases "ms_writes s")
  case True
  then show ?thesis using assms
    by (auto simp: command_verdict_def command_strictness_def Let_def split_beta verdict_stricter_max max_def
        split: option.split)
next
  case False
  then show ?thesis
    by (auto simp: command_verdict_def command_strictness_def Let_def split: option.split)
qed

lemma keep_stricter_Some: "\<exists>c. keep_stricter found line = Some c \<and>
    fst c = (case line of None \<Rightarrow> fst found | Some l \<Rightarrow> max (fst l) (fst found))"
  by (cases line; cases found) (auto simp: keep_stricter_def verdict_stricter_max max_def)

lemma fold_keep_stricter:
  "\<exists>c. fold (\<lambda>s. keep_stricter (f s)) segs (Some l) = Some c \<and> fst c = Max (insert (fst l) ((fst \<circ> f) ` set segs))"
proof (induction segs arbitrary: l)
  case (Cons s segs)
  obtain m where m: "keep_stricter (f s) (Some l) = Some m" "fst m = max (fst l) (fst (f s))"
    using keep_stricter_Some [of "f s" "Some l"] by auto
  have "Max (insert (max (fst l) (fst (f s))) ((fst \<circ> f) ` set segs)) =
      Max (insert (fst l) ((fst \<circ> f) ` set (s # segs)))"
    by (cases "segs = []") (simp_all add: Max_insert max.assoc max.left_commute)
  with Cons.IH [of m] m show ?case by auto
qed simp

lemma shell_verdict_max:
  assumes "matchable_segments command (di_escapes di) = Some segs" "segs \<noteq> []"
  shows "fst (shell_verdict mc profile command di) =
    (if fst (tool_verdict mc profile ''shell'' GroupBuiltin (di_configured di) (di_launch_allowed di)) = VDeny
     then VDeny else Max (command_strictness mc profile di ` set segs))"
proof -
  let ?answer = "\<lambda>tool. tool_verdict mc profile tool GroupBuiltin (di_configured di) (di_launch_allowed di)"
  let ?redirected = "if list_ex ms_writes segs then Some (?answer ''write_file'') else None"
  let ?f = "command_verdict mc profile (cp_shell (yp_compiled profile) \<noteq> []) (?answer ''shell'') ?redirected di"
  obtain s ss where s: "segs = s # ss" using assms(2) by (cases segs) auto
  have each: "(fst \<circ> ?f) ` set segs = command_strictness mc profile di ` set segs"
    by (rule image_cong) (auto intro!: command_verdict_strictness simp: list_ex_iff)
  obtain c where c: "fold (\<lambda>s. keep_stricter (?f s)) segs None = Some c"
      "fst c = Max ((fst \<circ> ?f) ` set segs)"
    using fold_keep_stricter [of ?f ss "?f s"] s by (auto simp: keep_stricter_def)
  have "fst c = Max (command_strictness mc profile di ` set segs)" using c(2) by (simp only: each)
  then show ?thesis unfolding shell_verdict_def Let_def assms(1) option.case c(1) by simp
qed

text \<open>
  C15: A shell line takes the verdict of its strictest command. Unless the profile refuses the
  shell outright, the verdict on a line that reads is the maximum, over the commands in it and
  in its substitutions, of the first rule that matches the command, and of what the profile says
  of \<open>write_file\<close> for a command that redirects to a file. One refused command refuses the line,
  and the line runs unasked only when each of its commands would.
\<close>

theorem line_takes_its_strictest_command:
  assumes "matchable_segments command (di_escapes di) = Some segs" "segs \<noteq> []"
  shows "fst (shell_verdict mc profile command di) =
    (if fst (tool_verdict mc profile ''shell'' GroupBuiltin (di_configured di) (di_launch_allowed di)) = VDeny
     then VDeny else Max (command_strictness mc profile di ` set segs))"
  by (rule shell_verdict_max [OF assms])

text \<open>A machine whose globs are plain text, and a profile that allows \<open>ls\<close> and refuses \<open>rm\<close>.\<close>

definition ex_machine :: machine where
  "ex_machine = \<lparr>mc_globs = \<lparr>gl_valid = (\<lambda>_. True), gl_matches = (=), gl_matches_path = (=),
     gl_matches_dots = (\<lambda>_. False), gl_list = (\<lambda>_ _. [])\<rparr>,
     mc_files = \<lparr>fs_canonicalize = Some, fs_exists = (\<lambda>_. True), fs_hard_linked = (\<lambda>_. False)\<rparr>\<rparr>"

definition ex_profile_spec :: profile_spec where
  "ex_profile_spec = builtin_default_spec\<lparr>ps_default := WaiveAsk,
     ps_tools := \<lparr>tl_allow = [''read_file'', '' bash''], tl_ask = [''@mcp''], tl_deny = [''write_file'']\<rparr>,
     ps_shell := \<lparr>sl_allow = [\<lparr>srs_command = ''ls'', srs_args = None\<rparr>], sl_ask = [],
       sl_deny = [\<lparr>srs_command = ''rm -rf'', srs_args = Some [''/'']\<rparr>]\<rparr>\<rparr>"

definition ex_compiled :: compiled where
  "ex_compiled =
     \<lparr>cp_tools = [(VDeny, \<lparr>tr_entry = ''write_file'', tr_matcher = MatchName ''write_file''\<rparr>),
        (VAsk, \<lparr>tr_entry = ''@mcp'', tr_matcher = MatchGroup GroupMcp\<rparr>),
        (VAllow, \<lparr>tr_entry = ''read_file'', tr_matcher = MatchName ''read_file''\<rparr>),
        (VAllow, \<lparr>tr_entry = ''bash'', tr_matcher = MatchName ''bash''\<rparr>)],
      cp_shell = [(VDeny, \<lparr>sr_entry = ''rm -rf'', sr_command = [''rm'', ''-rf''], sr_args = Some [''/'']\<rparr>),
        (VAllow, \<lparr>sr_entry = ''ls'', sr_command = [''ls''], sr_args = None\<rparr>)]\<rparr>"

lemma ex_compiles: "compile_profile (mc_globs ex_machine) ex_profile_spec = Inr ex_compiled"
  by code_simp

definition ex_profile :: yolo_profile where
  "ex_profile = \<lparr>yp_name = ''careful'', yp_spec = ex_profile_spec, yp_compiled = ex_compiled\<rparr>"

definition ex_input :: "string \<Rightarrow> decide_input" where
  "ex_input command = \<lparr>di_tool = ''bash'', di_arguments = JObj [(''command'', JStr command)],
     di_configured = PolicyAsk, di_launch_allowed = False, di_kind = KindBuiltin, di_workdir = ''/w'',
     di_home = None, di_escapes = True\<rparr>"

theorem line_takes_its_strictest_command_witness:
  "fst (shell_verdict ex_machine ex_profile ''ls; ls > x'' (ex_input ''ls; ls > x'')) = VDeny \<and>
   fst (shell_verdict ex_machine ex_profile ''ls; ls -l'' (ex_input ''ls; ls -l'')) = VAllow"
proof -
  let ?m = "\<lambda>w b. \<lparr>ms_words = w, ms_opaque = False, ms_writes = b\<rparr>"
  have base: "fst (tool_verdict ex_machine ex_profile ''shell'' GroupBuiltin PolicyAsk False) = VAllow" by code_simp
  have 1: "matchable_segments ''ls; ls > x'' (di_escapes (ex_input c)) = Some [?m [''ls''] False, ?m [''ls''] True]" for c
    by (simp add: ex_input_def) code_simp
  have 2: "matchable_segments ''ls; ls -l'' (di_escapes (ex_input c)) = Some [?m [''ls''] False, ?m [''ls'', ''-l''] False]" for c
    by (simp add: ex_input_def) code_simp
  have v: "command_strictness ex_machine ex_profile (ex_input ''ls; ls > x'') (?m [''ls''] True) = VDeny"
      "command_strictness ex_machine ex_profile (ex_input ''ls; ls > x'') (?m [''ls''] False) = VAllow"
      "command_strictness ex_machine ex_profile (ex_input ''ls; ls -l'') (?m [''ls''] False) = VAllow"
      "command_strictness ex_machine ex_profile (ex_input ''ls; ls -l'') (?m [''ls'', ''-l''] False) = VAllow"
    by code_simp+
  show ?thesis
    using line_takes_its_strictest_command [OF 1, of ex_machine ex_profile "''ls; ls > x''"]
      line_takes_its_strictest_command [OF 2, of ex_machine ex_profile "''ls; ls -l''"] v base
    by (simp add: ex_input_def)
qed


subsection \<open>The lists of a profile\<close>

text \<open>What an entry of a list names, as a person reads it: the lists need no order.\<close>

definition entry_names :: "globs \<Rightarrow> string \<Rightarrow> string \<Rightarrow> tool_group \<Rightarrow> bool" where
  "entry_names gl tool entry source \<longleftrightarrow>
     (case compile_tool_rule gl entry of Inr r \<Rightarrow> tool_rule_matches gl r tool source | Inl _ \<Rightarrow> False)"

definition some_entry :: "globs \<Rightarrow> string list \<Rightarrow> string \<Rightarrow> tool_group \<Rightarrow> bool" where
  "some_entry gl entries tool source \<longleftrightarrow> list_ex (\<lambda>entry. entry_names gl tool entry source) entries"

lemma compile_all_append:
  "compile_all f (xs @ ys) = Inr rs \<longleftrightarrow>
     (\<exists>as bs. compile_all f xs = Inr as \<and> compile_all f ys = Inr bs \<and> rs = as @ bs)"
proof (induction xs arbitrary: rs)
  case (Cons p xs)
  obtain v x where p: "p = (v, x)" by force
  show ?case
  proof (cases "f x")
    case (Inr r)
    have "compile_all f ((p # xs) @ ys) = Inr rs \<longleftrightarrow> (\<exists>rs'. compile_all f (xs @ ys) = Inr rs' \<and> rs = (v, r) # rs')"
      by (cases "compile_all f (xs @ ys)") (auto simp: p Inr)
    then show ?thesis using Cons.IH by (cases "compile_all f xs") (auto simp: p Inr)
  qed (simp add: p)
qed simp

lemma compile_all_result:
  "compile_all f (map (Pair v) xs) = Inr rs \<Longrightarrow>
   \<exists>ys. rs = map (Pair v) ys \<and> list_all2 (\<lambda>x y. f x = Inr y) xs ys"
proof (induction xs arbitrary: rs)
  case (Cons x xs)
  then obtain r rs' where "f x = Inr r" "compile_all f (map (Pair v) xs) = Inr rs'" "rs = (v, r) # rs'"
    by (auto split: sum.splits)
  moreover from this(2) Cons.IH [of rs'] obtain ys where "rs' = map (Pair v) ys" "list_all2 (\<lambda>x y. f x = Inr y) xs ys"
    by blast
  ultimately show ?case by (intro exI [of _ "r # ys"]) simp
qed simp

lemma compile_profile_result:
  assumes "compile_profile gl spec = Inr c"
  obtains td ta tw sd sa sw where
    "cp_tools c = map (Pair VDeny) td @ map (Pair VAsk) ta @ map (Pair VAllow) tw"
    "cp_shell c = map (Pair VDeny) sd @ map (Pair VAsk) sa @ map (Pair VAllow) sw"
    "list_all2 (\<lambda>x y. compile_tool_rule gl x = Inr y) (tl_deny (ps_tools spec)) td"
    "list_all2 (\<lambda>x y. compile_tool_rule gl x = Inr y) (tl_ask (ps_tools spec)) ta"
    "list_all2 (\<lambda>x y. compile_tool_rule gl x = Inr y) (tl_allow (ps_tools spec)) tw"
    "list_all2 (\<lambda>x y. compile_shell_rule gl x = Inr y) (sl_deny (ps_shell spec)) sd"
    "list_all2 (\<lambda>x y. compile_shell_rule gl x = Inr y) (sl_ask (ps_shell spec)) sa"
    "list_all2 (\<lambda>x y. compile_shell_rule gl x = Inr y) (sl_allow (ps_shell spec)) sw"
proof -
  from assms obtain tools shell where
    "compile_all (compile_tool_rule gl) (map (Pair VDeny) (tl_deny (ps_tools spec)) @
        map (Pair VAsk) (tl_ask (ps_tools spec)) @ map (Pair VAllow) (tl_allow (ps_tools spec))) = Inr tools"
    "compile_all (compile_shell_rule gl) (map (Pair VDeny) (sl_deny (ps_shell spec)) @
        map (Pair VAsk) (sl_ask (ps_shell spec)) @ map (Pair VAllow) (sl_allow (ps_shell spec))) = Inr shell"
    "c = \<lparr>cp_tools = tools, cp_shell = shell\<rparr>"
    by (auto simp: compile_profile_def split: sum.splits)
  then show thesis using that
    by (auto simp: compile_all_append dest!: compile_all_result)
qed

lemma first_tool_rule_append:
  "first_tool_rule gl (xs @ ys) tool source la =
     (case first_tool_rule gl xs tool source la of Some f \<Rightarrow> Some f | None \<Rightarrow> first_tool_rule gl ys tool source la)"
  by (induction gl xs tool source la rule: first_tool_rule.induct) simp_all

lemma first_tool_rule_verdict:
  assumes "list_all2 (\<lambda>x y. compile_tool_rule gl x = Inr y) entries rs"
  shows "map_option fst (first_tool_rule gl (map (Pair v) rs) tool source la) =
    (if some_entry gl entries tool source \<and> \<not> (v = VAsk \<and> la) then Some v else None)"
  using assms
  by (induction rule: list_all2_induct) (auto simp: some_entry_def entry_names_def)

text \<open>
  C33: A profile's lists are one decision, not an order of lines. With the lists compiled, a
  call the configuration refuses is refused; else a call some \<open>deny\<close> entry names is refused;
  else one some \<open>ask\<close> entry names asks, unless the person allowed the tool on the command line;
  else one some \<open>allow\<close> entry names runs; else what the configuration allows runs, and what it
  would ask about takes the profile's default. An entry is a group, a glob, or a name under any
  of the tool's spellings.
\<close>

theorem profile_lists_decide:
  assumes "compile_profile (mc_globs mc) (yp_spec profile) = Inr (yp_compiled profile)"
  shows "fst (tool_verdict mc profile tool source configured launch_allowed) =
    (let spec = yp_spec profile;
         named = (\<lambda>entries. some_entry (mc_globs mc) entries tool source) in
     if configured = PolicyDeny then VDeny
     else if named (tl_deny (ps_tools spec)) then VDeny
     else if named (tl_ask (ps_tools spec)) \<and> \<not> launch_allowed then VAsk
     else if named (tl_allow (ps_tools spec)) then VAllow
     else if configured = PolicyAllow then VAllow
     else waiver_verdict (ps_default spec))"
proof -
  let ?gl = "mc_globs mc" and ?spec = "yp_spec profile"
  from assms obtain td ta tw where
    tools: "cp_tools (yp_compiled profile) = map (Pair VDeny) td @ map (Pair VAsk) ta @ map (Pair VAllow) tw"
    and lists: "list_all2 (\<lambda>x y. compile_tool_rule ?gl x = Inr y) (tl_deny (ps_tools ?spec)) td"
      "list_all2 (\<lambda>x y. compile_tool_rule ?gl x = Inr y) (tl_ask (ps_tools ?spec)) ta"
      "list_all2 (\<lambda>x y. compile_tool_rule ?gl x = Inr y) (tl_allow (ps_tools ?spec)) tw"
    by (rule compile_profile_result)
  let ?first = "\<lambda>rs. first_tool_rule ?gl rs tool source launch_allowed"
  have "map_option fst (?first (cp_tools (yp_compiled profile))) =
     (if some_entry ?gl (tl_deny (ps_tools ?spec)) tool source then Some VDeny
      else if some_entry ?gl (tl_ask (ps_tools ?spec)) tool source \<and> \<not> launch_allowed then Some VAsk
      else if some_entry ?gl (tl_allow (ps_tools ?spec)) tool source then Some VAllow else None)"
    using first_tool_rule_verdict [OF lists(1), of VDeny tool source launch_allowed]
      first_tool_rule_verdict [OF lists(2), of VAsk tool source launch_allowed]
      first_tool_rule_verdict [OF lists(3), of VAllow tool source launch_allowed]
    by (auto simp: tools first_tool_rule_append split: option.split if_splits)
  then show ?thesis
    by (cases "?first (cp_tools (yp_compiled profile))")
       (auto simp: tool_verdict_def Let_def split: if_splits)
qed

theorem profile_lists_decide_witness:
  "fst (tool_verdict ex_machine ex_profile ''shell'' GroupBuiltin PolicyAsk False) = VAllow \<and>
   fst (tool_verdict ex_machine ex_profile ''github__push'' GroupMcp PolicyAllow False) = VAsk"
proof -
  have c: "compile_profile (mc_globs ex_machine) (yp_spec ex_profile) = Inr (yp_compiled ex_profile)"
    using ex_compiles by (simp add: ex_profile_def)
  have e: "some_entry (mc_globs ex_machine) (tl_deny (ps_tools (yp_spec ex_profile))) ''shell'' GroupBuiltin = False"
    "some_entry (mc_globs ex_machine) (tl_ask (ps_tools (yp_spec ex_profile))) ''shell'' GroupBuiltin = False"
    "some_entry (mc_globs ex_machine) (tl_allow (ps_tools (yp_spec ex_profile))) ''shell'' GroupBuiltin = True"
    "some_entry (mc_globs ex_machine) (tl_deny (ps_tools (yp_spec ex_profile))) ''github__push'' GroupMcp = False"
    "some_entry (mc_globs ex_machine) (tl_ask (ps_tools (yp_spec ex_profile))) ''github__push'' GroupMcp = True"
    by code_simp+
  show ?thesis by (simp add: profile_lists_decide [OF c] e Let_def)
qed


subsection \<open>Rules that compile\<close>

definition tool_rule_ok :: "globs \<Rightarrow> tool_rule \<Rightarrow> bool" where
  "tool_rule_ok gl r \<longleftrightarrow> tr_entry r \<noteq> [] \<and>
     (case tr_matcher r of
        MatchGroup g \<Rightarrow> map_of GROUPS (tr_entry r) = Some g
      | MatchGlob pattern \<Rightarrow> pattern = tr_entry r \<and> gl_valid gl pattern
      | MatchName name \<Rightarrow> name = tr_entry r \<and> \<not> prefix ''@'' name)"

definition shell_rule_ok :: "globs \<Rightarrow> shell_rule \<Rightarrow> bool" where
  "shell_rule_ok gl r \<longleftrightarrow> sr_command r \<noteq> [] \<and> list_all (\<lambda>w. w \<noteq> [] \<and> gl_valid gl w) (sr_command r) \<and>
     (case sr_args r of None \<Rightarrow> True | Some args \<Rightarrow> list_all (\<lambda>a. trim a \<noteq> [] \<and> gl_valid gl a) args)"

lemma compile_tool_rule_ok: "compile_tool_rule gl entry = Inr r \<Longrightarrow> tool_rule_ok gl r \<and> tr_entry r = trim entry"
  by (auto simp: compile_tool_rule_def tool_rule_ok_def Let_def split: if_splits option.splits)

lemma check_args_ok: "check_args gl entry args = None \<longleftrightarrow> list_all (\<lambda>a. trim a \<noteq> [] \<and> gl_valid gl a) args"
  by (induction args) auto

lemma split_at_nonsep:
  "acc \<noteq> [] \<or> (\<exists>c \<in> set s. c \<noteq> sep) \<Longrightarrow> \<exists>w \<in> set (split_at sep acc s). w \<noteq> []"
  by (induction sep acc s rule: split_at.induct) (auto split: if_splits)

lemma trim_nonspace:
  assumes "trim s \<noteq> []"
  shows "\<exists>c \<in> set (trim s). \<not> is_space c"
proof -
  let ?r = "dropWhile is_space (rev (dropWhile is_space s))"
  have "?r \<noteq> []" using assms by (simp add: trim_def)
  then have "\<not> is_space (hd ?r)" "hd ?r \<in> set ?r" by (rule hd_dropWhile, simp)
  then show ?thesis by (auto simp: trim_def)
qed

lemma split_whitespace_nonempty:
  assumes "trim s \<noteq> []"
  shows "split_whitespace (trim s) \<noteq> []"
proof -
  obtain c where c: "c \<in> set (trim s)" "\<not> is_space c" using trim_nonspace [OF assms] by auto
  then have "c \<noteq> CHR '' ''" by (auto simp: is_space_def)
  with c have "\<exists>d \<in> set (map (\<lambda>c. if is_space c then CHR '' '' else c) (trim s)). d \<noteq> CHR '' ''" by force
  from split_at_nonsep [of "[]", OF disjI2 [OF this]] show ?thesis
    by (auto simp: split_whitespace_def filter_empty_conv)
qed

lemma compile_shell_rule_ok:
  assumes "compile_shell_rule gl spec = Inr r"
  shows "shell_rule_ok gl r \<and> sr_entry r = trim (srs_command spec) \<and> sr_args r = srs_args spec"
proof -
  let ?words = "split_whitespace (trim (srs_command spec))"
  from assms have r: "trim (srs_command spec) \<noteq> []" "List.find (\<lambda>w. \<not> gl_valid gl w) ?words = None"
      "r = \<lparr>sr_entry = trim (srs_command spec), sr_command = ?words, sr_args = srs_args spec\<rparr>"
      "\<forall>args. srs_args spec = Some args \<longrightarrow> check_args gl (trim (srs_command spec)) args = None"
    by (auto simp: compile_shell_rule_def Let_def split: if_splits option.splits)
  then show ?thesis
    using split_whitespace_nonempty [OF r(1)]
    by (auto simp: shell_rule_ok_def find_None_iff list_all_iff check_args_ok split_whitespace_def split: option.split)
qed

lemma list_all2_ok:
  assumes "list_all2 (\<lambda>x y. f x = Inr y) xs ys" "\<And>x y. f x = Inr y \<Longrightarrow> ok y \<and> g y = h x"
  shows "list_all ok ys" "map g ys = map h xs"
  using assms(1) by (induction rule: list_all2_induct) (auto dest!: assms(2))

text \<open>
  C34: A profile that compiles holds only rules that can be meant: every entry of its lists is
  there once, in its list's order, \<open>deny\<close> before \<open>ask\<close> before \<open>allow\<close>; a tool rule is a known
  group, a glob that compiles or a plain name; a shell rule has at least one word to match, each
  a glob that compiles, so no rule covers every command by having nothing to check, and its
  argument patterns are not empty.
\<close>

theorem compiled_rules_are_typed:
  assumes "compile_profile gl spec = Inr c"
  shows "map (\<lambda>(v, r). (v, tr_entry r)) (cp_tools c) =
      map (\<lambda>e. (VDeny, trim e)) (tl_deny (ps_tools spec)) @
      map (\<lambda>e. (VAsk, trim e)) (tl_ask (ps_tools spec)) @
      map (\<lambda>e. (VAllow, trim e)) (tl_allow (ps_tools spec)) \<and>
    map (\<lambda>(v, r). (v, sr_entry r, sr_args r)) (cp_shell c) =
      map (\<lambda>s. (VDeny, trim (srs_command s), srs_args s)) (sl_deny (ps_shell spec)) @
      map (\<lambda>s. (VAsk, trim (srs_command s), srs_args s)) (sl_ask (ps_shell spec)) @
      map (\<lambda>s. (VAllow, trim (srs_command s), srs_args s)) (sl_allow (ps_shell spec)) \<and>
    list_all (\<lambda>(v, r). tool_rule_ok gl r) (cp_tools c) \<and> list_all (\<lambda>(v, r). shell_rule_ok gl r) (cp_shell c)"
  using assms
proof (rule compile_profile_result)
  fix td ta tw sd sa sw
  assume tools: "cp_tools c = map (Pair VDeny) td @ map (Pair VAsk) ta @ map (Pair VAllow) tw"
    and shell: "cp_shell c = map (Pair VDeny) sd @ map (Pair VAsk) sa @ map (Pair VAllow) sw"
    and t: "list_all2 (\<lambda>x y. compile_tool_rule gl x = Inr y) (tl_deny (ps_tools spec)) td"
      "list_all2 (\<lambda>x y. compile_tool_rule gl x = Inr y) (tl_ask (ps_tools spec)) ta"
      "list_all2 (\<lambda>x y. compile_tool_rule gl x = Inr y) (tl_allow (ps_tools spec)) tw"
    and s: "list_all2 (\<lambda>x y. compile_shell_rule gl x = Inr y) (sl_deny (ps_shell spec)) sd"
      "list_all2 (\<lambda>x y. compile_shell_rule gl x = Inr y) (sl_ask (ps_shell spec)) sa"
      "list_all2 (\<lambda>x y. compile_shell_rule gl x = Inr y) (sl_allow (ps_shell spec)) sw"
  have tool: "list_all2 (\<lambda>x y. compile_tool_rule gl x = Inr y) es rs \<Longrightarrow>
      list_all (tool_rule_ok gl) rs \<and> map (\<lambda>r. (v, tr_entry r)) rs = map (\<lambda>e. (v, trim e)) es" for es rs and v :: verdict
    using list_all2_ok [of "compile_tool_rule gl" es rs "tool_rule_ok gl" "\<lambda>r. (v, tr_entry r)" "\<lambda>e. (v, trim e)"]
      compile_tool_rule_ok by auto
  have shell': "list_all2 (\<lambda>x y. compile_shell_rule gl x = Inr y) es rs \<Longrightarrow>
      list_all (shell_rule_ok gl) rs \<and>
      map (\<lambda>r. (v, sr_entry r, sr_args r)) rs = map (\<lambda>s. (v, trim (srs_command s), srs_args s)) es" for es rs and v :: verdict
    using list_all2_ok [of "compile_shell_rule gl" es rs "shell_rule_ok gl"
        "\<lambda>r. (v, sr_entry r, sr_args r)" "\<lambda>s. (v, trim (srs_command s), srs_args s)"]
      compile_shell_rule_ok by auto
  show ?thesis
    using tool [OF t(1), of VDeny] tool [OF t(2), of VAsk] tool [OF t(3), of VAllow]
      shell' [OF s(1), of VDeny] shell' [OF s(2), of VAsk] shell' [OF s(3), of VAllow]
    by (simp add: tools shell list.pred_map comp_def)
qed

theorem compiled_rules_are_typed_witness:
  "list_all (\<lambda>(v, r). shell_rule_ok (mc_globs ex_machine) r) (cp_shell ex_compiled) \<and>
   map (\<lambda>(v, r). (v, tr_entry r)) (cp_tools ex_compiled) =
     [(VDeny, ''write_file''), (VAsk, ''@mcp''), (VAllow, ''read_file''), (VAllow, ''bash'')]"
proof -
  have "map (\<lambda>e. (VAllow, trim e)) (tl_allow (ps_tools ex_profile_spec)) = [(VAllow, ''read_file''), (VAllow, ''bash'')]"
    "map (\<lambda>e. (VAsk, trim e)) (tl_ask (ps_tools ex_profile_spec)) = [(VAsk, ''@mcp'')]"
    "map (\<lambda>e. (VDeny, trim e)) (tl_deny (ps_tools ex_profile_spec)) = [(VDeny, ''write_file'')]"
    by code_simp+
  then show ?thesis using compiled_rules_are_typed [OF ex_compiles] by simp
qed

end
