(* ===== verification/Shell_Targets.thy ===== *)
theory Shell_Targets
  imports Yolo
begin

text \<open>
  Where a shell line's writes land, \<open>crates/leviath-cli/src/shell_keys/targets.rs\<close>, with the
  expansion of globs it shares with \<open>operands.rs\<close>. A line writes through its redirects and
  through the programs of a table that write the files their arguments name. Plain moves
  (\<open>cd dir\<close>) are followed, each of which may fail, so a target is placed from every directory the
  line may be in; what cannot be placed is an error of its own.
\<close>

subsection \<open>What a word expands to\<close>

definition contains_any :: "string \<Rightarrow> string \<Rightarrow> bool" where
  "contains_any chars s \<longleftrightarrow> list_ex (\<lambda>c. List.member chars c) s"

definition MAX_GLOB_MATCHES :: nat where "MAX_GLOB_MATCHES = 1000"

definition VERBATIM :: string where "VERBATIM = [backslash, backslash, CHR ''?'', backslash]"

definition split_verbatim :: "string \<Rightarrow> string \<times> string" where
  "split_verbatim path =
     (if prefix VERBATIM path then (VERBATIM, drop (length VERBATIM) path) else ([], path))"

text \<open>The paths a word names once its glob is expanded, or \<open>None\<close> when that cannot be checked.\<close>

definition expansions :: "globs \<Rightarrow> string \<Rightarrow> string \<Rightarrow> string list option" where
  "expansions gl base w =
     (let path = path_join base w in
      if \<not> contains_any ''*?['' w then Some [path]
      else
        let climbs = list_ex (\<lambda>c. gl_valid gl (component_text c) \<and> gl_matches_dots gl (component_text c)) (path_components w);
            (pre, rest) = split_verbatim base
        in if climbs \<or> \<not> path_is_absolute rest then None
        else
          let found = (if path_is_absolute w then gl_list gl None w
                       else map (\<lambda>p. pre @ p) (gl_list gl (Some rest) w))
          in if found = [] then Some [path]
             else if MAX_GLOB_MATCHES < length found then None
             else Some found)"

text \<open>A program's own name, without the directory it was named from.\<close>

definition program_name :: "string \<Rightarrow> string" where
  "program_name program = rev (takeWhile (\<lambda>c. c \<noteq> CHR ''/'' \<and> c \<noteq> backslash) (rev program))"

subsection \<open>The programs that write\<close>

definition MAX_CWDS :: nat where "MAX_CWDS = 64"

definition MOVERS :: "string list" where "MOVERS = [''cd'', ''pushd'', ''popd'', ''chdir'']"

definition WRAPPERS :: "string list" where "WRAPPERS = [''command'', ''builtin'', ''exec'']"

datatype operands = EveryOperand | Destination | OfEquals | GitOperands

definition WRITERS :: "(string \<times> operands \<times> string list) list" where
  "WRITERS =
    [(''rm'', EveryOperand, []),
     (''rmdir'', EveryOperand, []),
     (''mkdir'', EveryOperand, [''-m'', ''--mode'']),
     (''touch'', EveryOperand, [''-d'', ''-r'', ''-t'', ''--date'', ''--reference'', ''--time'']),
     (''truncate'', EveryOperand, [''-s'', ''-r'', ''--size'', ''--reference'']),
     (''tee'', EveryOperand, []),
     (''mv'', EveryOperand, [''-S'', ''-t'', ''--suffix'', ''--target-directory'']),
     (''cp'', Destination, [''-S'', ''-t'', ''--suffix'', ''--target-directory'']),
     (''ln'', Destination, [''-S'', ''-t'', ''--suffix'', ''--target-directory'']),
     (''install'', Destination, [''-g'', ''-m'', ''-o'', ''-S'', ''-t'', ''--group'', ''--mode'', ''--owner'',
        ''--suffix'', ''--target-directory'']),
     (''dd'', OfEquals, []),
     (''git'', GitOperands, [''-C'', ''-c'', ''--git-dir'', ''--work-tree'', ''--namespace'', ''--exec-path'',
        ''-b'', ''-B'', ''-o'', ''--branch'', ''--origin'', ''--depth'', ''--reference'', ''--template'',
        ''--separate-git-dir''])]"

definition TARGET_OPTIONS :: "string list" where "TARGET_OPTIONS = [''-t'', ''--target-directory'']"

definition GIT_REPO_OPTIONS :: "string list" where "GIT_REPO_OPTIONS = [''-C'', ''--git-dir'', ''--work-tree'']"

definition GIT_READ_ONLY :: "string list" where
  "GIT_READ_ONLY = [''status'', ''log'', ''diff'', ''show'', ''rev-parse'', ''ls-files'', ''ls-tree'', ''ls-remote'',
     ''blame'', ''cat-file'', ''describe'', ''shortlog'', ''grep'', ''rev-list'', ''name-rev'', ''for-each-ref'',
     ''reflog'', ''version'', ''help'', ''check-ignore'', ''merge-base'', ''show-ref'', ''count-objects'', ''var'',
     ''whatchanged'', ''diff-tree'', ''diff-index'', ''diff-files'']"

definition GIT_MAKES_AT :: "(string \<times> nat) list" where
  "GIT_MAKES_AT = [(''init'', 0), (''clone'', 0), (''worktree'', 1)]"

text \<open>An argument, or the part of one, that may name a path.\<close>

record operand =
  op_text :: string
  op_literal :: bool

definition operand_of :: "word \<Rightarrow> operand" where
  "operand_of w = \<lparr>op_text = w_text w, op_literal = w_literal w\<rparr>"

text \<open>The option a word spells, and the value glued to it.\<close>

fun option_in_cluster :: "string list \<Rightarrow> string \<Rightarrow> (string \<times> string option) option" where
  "option_in_cluster valued [] = None"
| "option_in_cluster valued (letter # glued) =
     (case List.find (\<lambda>opt. length opt = 2 \<and> last opt = letter) valued of
        Some opt \<Rightarrow> Some (opt, if glued = [] then None else Some glued)
      | None \<Rightarrow> option_in_cluster valued glued)"

definition valued_option :: "string \<Rightarrow> string list \<Rightarrow> (string \<times> string option) option" where
  "valued_option s valued =
     (if prefix ''--'' s then
        let (name, value) = (case split_once (CHR ''='') (drop 2 s) of
              Some (name, value) \<Rightarrow> (name, Some value) | None \<Rightarrow> (drop 2 s, None))
        in map_option (\<lambda>opt. (opt, value)) (List.find (\<lambda>opt. prefix ''--'' opt \<and> drop 2 opt = name) valued)
      else option_in_cluster valued (if prefix ''-'' s then drop 1 s else s))"

text \<open>The positionals of a call, and the values of the options in \<open>targets\<close>.\<close>

fun split_args :: "string list \<Rightarrow> string list \<Rightarrow> bool \<Rightarrow> word list \<Rightarrow> operand list \<times> operand list" where
  "split_args valued targets ended [] = ([], [])"
| "split_args valued targets ended (w # ws) =
     (if ended \<or> \<not> prefix ''-'' (w_text w) \<or> w_text w = ''-'' then
        apfst (Cons (operand_of w)) (split_args valued targets ended ws)
      else if w_text w = ''--'' then split_args valued targets True ws
      else case valued_option (w_text w) valued of
        None \<Rightarrow> split_args valued targets ended ws
      | Some (opt, glued) \<Rightarrow>
          let keep = (\<lambda>v. if List.member targets opt then apsnd (Cons v) else id) in
          if \<not> w_literal w then
            keep \<lparr>op_text = [], op_literal = False\<rparr> (split_args valued targets ended ws)
          else (case glued of
            Some v \<Rightarrow> keep \<lparr>op_text = v, op_literal = True\<rparr> (split_args valued targets ended ws)
          | None \<Rightarrow>
              (case ws of
                 [] \<Rightarrow> ([], [])
               | v # rest \<Rightarrow> keep (operand_of v) (split_args valued targets ended rest))))"

definition git_operands :: "word list \<Rightarrow> string list \<Rightarrow> operand list" where
  "git_operands args valued =
     (let (positionals, repo) = split_args valued GIT_REPO_OPTIONS False args in
      case positionals of
        [] \<Rightarrow> []
      | subcommand # rest \<Rightarrow>
          (if List.member GIT_READ_ONLY (op_text subcommand) then [] else repo) @
          (case map_of GIT_MAKES_AT (op_text subcommand) of Some verbs \<Rightarrow> drop verbs rest | None \<Rightarrow> []))"

text \<open>The program words run, past keywords, bindings and wrappers, with its arguments.\<close>

definition is_wrapper :: "word \<Rightarrow> bool" where
  "is_wrapper w \<longleftrightarrow> List.member WRAPPERS (w_text w)"

definition run_program :: "word list \<Rightarrow> (string \<times> word list) option" where
  "run_program words =
     (case strip_to_program words of
        StripProgram _ ws \<Rightarrow>
          (case dropWhile is_wrapper ws of
             program # args \<Rightarrow> Some (program_name (w_text program), args)
           | [] \<Rightarrow> None)
      | _ \<Rightarrow> None)"

definition program_writes :: "word list \<Rightarrow> (string \<times> operand list) option" where
  "program_writes words =
     (case run_program words of
        None \<Rightarrow> None
      | Some (name, args) \<Rightarrow>
          (case map_of WRITERS name of
             None \<Rightarrow> None
           | Some (ops, valued) \<Rightarrow>
               let (positionals, from_options) = split_args valued TARGET_OPTIONS False args in
               Some (name,
                 case ops of
                   EveryOperand \<Rightarrow> positionals @ from_options
                 | Destination \<Rightarrow>
                     if from_options = [] then (if positionals = [] then [] else [last positionals]) else from_options
                 | OfEquals \<Rightarrow>
                     map (\<lambda>w. \<lparr>op_text = if prefix ''of='' (w_text w) then drop 3 (w_text w) else w_text w,
                               op_literal = w_literal w\<rparr>)
                       (filter (\<lambda>w. prefix ''of='' (w_text w) \<or> \<not> w_literal w) args)
                 | GitOperands \<Rightarrow> git_operands args valued)))"

subsection \<open>Where the shell is\<close>

lemma strip_from_shorter: "strip_from ks ws = StripProgram ks' ws' \<Longrightarrow> length ws' \<le> length ws"
  by (induction ks ws rule: strip_from.induct) (auto split: if_splits option.splits)

function program_unknown :: "word list \<Rightarrow> bool" where
  "program_unknown words =
     (case strip_to_program words of
        StripUnreadable \<Rightarrow> True
      | StripNothing _ \<Rightarrow> False
      | StripProgram _ ws \<Rightarrow>
          (case ws of first # rest \<Rightarrow> is_wrapper first \<and> program_unknown rest | [] \<Rightarrow> False))"
  by pat_completeness auto
termination
  by (relation "measure length") (auto simp: strip_to_program_def dest!: strip_from_shorter)

declare program_unknown.simps [simp del]

definition moves :: "segment \<Rightarrow> bool" where
  "moves s \<longleftrightarrow>
     list_ex (\<lambda>w. List.member MOVERS (w_text w) \<or> sublist ''CDPATH'' (w_text w)) (sg_words s) \<or>
     program_unknown (sg_words s)"

definition home_named :: "string \<Rightarrow> bool" where
  "home_named s \<longleftrightarrow> s = ''~'' \<or> prefix ''~/'' s"

text \<open>The directory a segment moves to when it is exactly \<open>cd dir\<close> or \<open>pushd dir\<close>.\<close>

definition plain_move :: "segment \<Rightarrow> string option \<Rightarrow> string option" where
  "plain_move s home =
     (case sg_words s of
        [program, aim] \<Rightarrow>
          if (w_text program = ''cd'' \<or> w_text program = ''pushd'') \<and> w_literal program \<and> w_literal aim \<and>
             \<not> prefix ''-'' (w_text aim) \<and> (prefix ''~'' (w_text aim) \<longrightarrow> home_named (w_text aim))
          then expand_home (w_text aim) home else None
      | _ \<Rightarrow> None)"

subsection \<open>Placing the targets\<close>

definition REDIRECT :: string where "REDIRECT = ''redirect''"

record write_landing =
  wt_written :: string
  wt_lands :: "string list"
  wt_by :: string

datatype landing = KnownLanding "write_landing list" | Unparsed | Unnamed | Lost

record placer =
  pc_followed :: bool
  pc_cwds :: "string list"

definition brace_escapes :: "string \<Rightarrow> bool" where
  "brace_escapes s \<longleftrightarrow> List.member s (CHR ''{'') \<and>
     (sublist ''..'' s \<or> sublist ''{/'' s \<or> sublist '',/'' s \<or> List.member s (CHR ''~''))"

text \<open>Each base's expansions, unless one of them cannot be listed.\<close>

fun expand_all :: "globs \<Rightarrow> string list \<Rightarrow> string \<Rightarrow> string list option" where
  "expand_all gl [] path = Some []"
| "expand_all gl (base # bases) path =
     (case expansions gl base path of
        None \<Rightarrow> None
      | Some lands \<Rightarrow> map_option (\<lambda>rest. lands @ rest) (expand_all gl bases path))"

definition place :: "globs \<Rightarrow> string option \<Rightarrow> placer \<Rightarrow> string \<Rightarrow> bool \<Rightarrow> string \<Rightarrow> landing + write_landing" where
  "place gl home pl written literal by_what =
     (if \<not> literal then Inl Unnamed
      else if prefix ''~'' written \<and> \<not> home_named written \<or> brace_escapes written then Inl Lost
      else case expand_home written home of
        None \<Rightarrow> Inl Lost
      | Some path \<Rightarrow>
          if \<not> path_is_absolute path \<and> \<not> pc_followed pl then Inl Lost
          else
            (case expand_all gl (if path_is_absolute path then take 1 (pc_cwds pl) else pc_cwds pl) path of
               None \<Rightarrow> Inl Lost
             | Some lands \<Rightarrow> Inr \<lparr>wt_written = written, wt_lands = lands, wt_by = by_what\<rparr>))"

fun place_all :: "('a \<Rightarrow> landing + write_landing) \<Rightarrow> 'a list \<Rightarrow> landing + write_landing list" where
  "place_all f [] = Inr []"
| "place_all f (x # xs) =
     (case f x of
        Inl err \<Rightarrow> Inl err
      | Inr t \<Rightarrow> (case place_all f xs of Inl err \<Rightarrow> Inl err | Inr ts \<Rightarrow> Inr (t # ts)))"

text \<open>What a redirect is written to, as text; \<open>NUL\<close> is a file like any other on a POSIX shell.\<close>

definition redirect_text :: "bool \<Rightarrow> word \<Rightarrow> landing + string option" where
  "redirect_text escapes t =
     (case classify_write t of
        WritePath path \<Rightarrow> Inr (Some path)
      | Discarded \<Rightarrow>
          if escapes \<and> eq_ignore_ascii_case (w_text t) ''NUL'' then Inr (Some (w_text t)) else Inr None
      | UnreadableTarget \<Rightarrow> Inl Unnamed)"

fun place_redirects :: "globs \<Rightarrow> bool \<Rightarrow> string option \<Rightarrow> placer \<Rightarrow> word list \<Rightarrow> landing + write_landing list" where
  "place_redirects gl escapes home pl [] = Inr []"
| "place_redirects gl escapes home pl (t # ts) =
     (case redirect_text escapes t of
        Inl err \<Rightarrow> Inl err
      | Inr None \<Rightarrow> place_redirects gl escapes home pl ts
      | Inr (Some written) \<Rightarrow>
          (case place gl home pl written True REDIRECT of
             Inl err \<Rightarrow> Inl err
           | Inr landed \<Rightarrow>
               (case place_redirects gl escapes home pl ts of
                  Inl err \<Rightarrow> Inl err | Inr rest \<Rightarrow> Inr (landed # rest))))"

definition place_operands :: "globs \<Rightarrow> string option \<Rightarrow> placer \<Rightarrow> word list \<Rightarrow> landing + write_landing list" where
  "place_operands gl home pl words =
     (case program_writes words of
        None \<Rightarrow> Inr []
      | Some (name, ops) \<Rightarrow> place_all (\<lambda>opd. place gl home pl (op_text opd) (op_literal opd) name) ops)"

definition after_move :: "string option \<Rightarrow> segment \<Rightarrow> placer \<Rightarrow> placer" where
  "after_move home s pl =
     (case plain_move s home of
        None \<Rightarrow> pl
      | Some dir \<Rightarrow>
          if length (pc_cwds pl) < MAX_CWDS
          then pl\<lparr>pc_cwds := pc_cwds pl @ map (\<lambda>cwd. path_join cwd dir) (pc_cwds pl)\<rparr>
          else pl\<lparr>pc_followed := False\<rparr>)"

fun land_segments :: "globs \<Rightarrow> bool \<Rightarrow> string option \<Rightarrow> placer \<Rightarrow> segment list \<Rightarrow> landing + write_landing list" where
  "land_segments gl escapes home pl [] = Inr []"
| "land_segments gl escapes home pl (s # ss) =
     (case place_redirects gl escapes home pl (sg_writes s) of
        Inl err \<Rightarrow> Inl err
      | Inr redirected \<Rightarrow>
          (case place_operands gl home pl (sg_words s) of
             Inl err \<Rightarrow> Inl err
           | Inr operated \<Rightarrow>
               (case land_segments gl escapes home (after_move home s pl) ss of
                  Inl err \<Rightarrow> Inl err | Inr rest \<Rightarrow> Inr (redirected @ operated @ rest))))"

definition followable :: "string option \<Rightarrow> segment \<Rightarrow> bool" where
  "followable home s \<longleftrightarrow> \<not> moves s \<or> plain_move s home \<noteq> None"

definition landing_for :: "globs \<Rightarrow> string \<Rightarrow> bool \<Rightarrow> string \<Rightarrow> string option \<Rightarrow> landing" where
  "landing_for gl command escapes workdir home =
     (case tokenize_for command escapes of
        None \<Rightarrow> if List.member command (CHR ''>'') then Unparsed else KnownLanding []
      | Some segments \<Rightarrow>
          (case land_segments gl escapes home
             \<lparr>pc_followed = list_all (followable home) segments, pc_cwds = [workdir]\<rparr> segments of
             Inl err \<Rightarrow> err | Inr targets \<Rightarrow> KnownLanding targets))"

end
