(* ===== verification/Write_Fence.thy ===== *)
theory Write_Fence
  imports Shell_Targets
begin

text \<open>
  What a call may write whatever its permissions say: inside the working directory
  (\<open>escaping_write_refusal\<close> of \<open>crates/leviath-cli/src/tools.rs\<close>), inside the write paths in force
  (\<open>crates/leviath-core/src/write_paths.rs\<close>, \<open>crates/leviath-cli/src/write_fence.rs\<close>), and not the
  files that decide what agents may do (\<open>protected_path_refusal\<close> of \<open>tools.rs\<close>). A refusal is a
  constructor where the code formats a sentence.
\<close>

subsection \<open>Containment of paths\<close>

text \<open>\<open>Path::starts_with\<close>, name by name.\<close>

definition path_starts_with :: "string \<Rightarrow> string \<Rightarrow> bool" where
  "path_starts_with path dir \<longleftrightarrow> prefix (path_components dir) (path_components path)"

definition resolved_or_self :: "file_system \<Rightarrow> string \<Rightarrow> string" where
  "resolved_or_self fs path = (case fs_canonicalize fs path of Some found \<Rightarrow> found | None \<Rightarrow> path)"

definition resolves_within :: "file_system \<Rightarrow> string \<Rightarrow> string \<Rightarrow> bool" where
  "resolves_within fs path dir =
     (case canonicalize_for_match fs path of
        Some found \<Rightarrow> path_starts_with found (resolved_or_self fs dir)
      | None \<Rightarrow> False)"

fun join_with :: "string \<Rightarrow> string list \<Rightarrow> string" where
  "join_with sep [] = []"
| "join_with sep [w] = w"
| "join_with sep (w # ws) = w @ sep @ join_with sep ws"

text \<open>A path under a root, its names joined by slashes.\<close>

definition relative_to :: "string \<Rightarrow> string \<Rightarrow> string option" where
  "relative_to path dir =
     (if path_starts_with path dir then
        let rest = drop (length (path_components dir)) (path_components path)
        in if rest = [] then None else Some (join_with ''/'' (map component_text rest))
      else None)"

definition ancestors :: "string \<Rightarrow> string list" where
  "ancestors path =
     (let comps = path_components path;
          ups = (if comps \<noteq> [] \<and> hd comps = RootDir then tl (prefixes comps) else prefixes comps)
      in map path_of (rev ups))"

text \<open>A path under the working directory however that is spelled.\<close>

definition under :: "file_system \<Rightarrow> string \<Rightarrow> string \<Rightarrow> string \<Rightarrow> string option" where
  "under fs path workdir dir =
     (case relative_to path workdir of
        Some w \<Rightarrow> Some w
      | None \<Rightarrow>
          (case List.find (\<lambda>a. fs_canonicalize fs a = Some dir) (ancestors path) of
             Some alias \<Rightarrow> relative_to path alias
           | None \<Rightarrow> None))"

subsection \<open>Write paths\<close>

datatype glob_error = GlobEmpty | GlobAbsolute | GlobHome | GlobClimbs | GlobInvalid

fun drop_dot_slashes :: "string \<Rightarrow> string" where
  "drop_dot_slashes (a # b # rest) =
     (if a = CHR ''.'' \<and> b = CHR ''/'' then drop_dot_slashes rest else a # b # rest)"
| "drop_dot_slashes s = s"

definition slashed :: "string \<Rightarrow> string" where
  "slashed s = map (\<lambda>c. if c = backslash then CHR ''/'' else c) s"

definition normalize_glob :: "string \<Rightarrow> string" where
  "normalize_glob s = drop_dot_slashes (slashed (trim s))"

definition check_glob :: "globs \<Rightarrow> string \<Rightarrow> glob_error option" where
  "check_glob gl s =
     (let n = normalize_glob s in
      if n = [] then Some GlobEmpty
      else if prefix ''/'' n \<or> List.member n (CHR '':'') then Some GlobAbsolute
      else if prefix ''~'' n then Some GlobHome
      else if list_ex (\<lambda>c. c = ''..'' \<or> c = ''.'' \<or> c = []) (split_at (CHR ''/'') [] n) then Some GlobClimbs
      else if \<not> gl_valid gl n then Some GlobInvalid
      else None)"

record write_layer =
  ly_written :: "string list"
  ly_patterns :: "string list"

type_synonym write_fence = "write_layer list"

definition fence_new :: "globs \<Rightarrow> string list list \<Rightarrow> write_fence" where
  "fence_new gl layers =
     map (\<lambda>gs. \<lparr>ly_written = gs,
                ly_patterns = filter (gl_valid gl) (map normalize_glob (filter (\<lambda>g. check_glob gl g = None) gs))\<rparr>)
       (filter (\<lambda>gs. gs \<noteq> []) layers)"

definition fence_closed :: write_fence where
  "fence_closed = [\<lparr>ly_written = [''none: this stage's write paths could not be read''], ly_patterns = []\<rparr>]"

definition fence_is_open :: "write_fence \<Rightarrow> bool" where
  "fence_is_open f \<longleftrightarrow> f = []"

definition fence_allows :: "globs \<Rightarrow> write_fence \<Rightarrow> string \<Rightarrow> bool" where
  "fence_allows gl f rel \<longleftrightarrow> list_all (\<lambda>ly. list_ex (\<lambda>p. gl_matches_path gl p rel) (ly_patterns ly)) f"

datatype refused = RefusedOutside string | HardLinked string

text \<open>A write judged as written and as the file system resolves it.\<close>

definition fence_check :: "machine \<Rightarrow> write_fence \<Rightarrow> string \<Rightarrow> string \<Rightarrow> refused option" where
  "fence_check mc f requested workdir =
     (if fence_is_open f then None
      else
        let fs = mc_files mc;
            lexical = fold_dot_dot (path_join workdir requested);
            root = resolved_or_self fs workdir;
            written = Option.bind lexical (\<lambda>p. under fs p workdir root);
            shown = (case written of Some w \<Rightarrow> w | None \<Rightarrow> requested);
            canonical = Option.bind lexical (canonicalize_for_match fs);
            resolved = Option.bind canonical (\<lambda>p. relative_to p root)
        in case (written, resolved) of
             (Some w, Some r) \<Rightarrow>
               if fence_allows (mc_globs mc) f w \<and> fence_allows (mc_globs mc) f r
               then (if (case canonical of Some p \<Rightarrow> fs_hard_linked fs p | None \<Rightarrow> False)
                     then Some (HardLinked shown) else None)
               else Some (RefusedOutside shown)
           | _ \<Rightarrow> Some (RefusedOutside shown))"

subsection \<open>A call's writes against the write paths\<close>

datatype paths_refusal = PathsLost | PathsUnread
  | MayLandOutside string string string string
  | PathRefused string refused

fun first_refused :: "('a \<Rightarrow> 'b option) \<Rightarrow> 'a list \<Rightarrow> 'b option" where
  "first_refused f [] = None"
| "first_refused f (x # xs) = (case f x of Some r \<Rightarrow> Some r | None \<Rightarrow> first_refused f xs)"

definition refusal_for :: "machine \<Rightarrow> string \<Rightarrow> write_landing \<Rightarrow> string \<Rightarrow> write_fence \<Rightarrow> paths_refusal option" where
  "refusal_for mc tool t workdir f =
     (case first_refused (\<lambda>land. fence_check mc f land workdir) (wt_lands t) of
        None \<Rightarrow> None
      | Some refused \<Rightarrow>
          (case (List.find (\<lambda>land. fence_check mc f land workdir = None) (wt_lands t), refused) of
             (Some land, RefusedOutside shown) \<Rightarrow> Some (MayLandOutside tool (wt_written t) shown land)
           | _ \<Rightarrow> Some (PathRefused tool refused)))"

definition write_paths_refusal :: "machine \<Rightarrow> string \<Rightarrow> json \<Rightarrow> string \<Rightarrow> string option \<Rightarrow> write_fence \<Rightarrow> bool \<Rightarrow>
    paths_refusal option" where
  "write_paths_refusal mc tool_name args workdir home f escapes =
     (if fence_is_open f then None
      else let tool = canonical_tool_name tool_name in
        if tool = ''write_file'' \<or> tool = ''edit_file'' then
          (case str_arg args ''path'' of
             None \<Rightarrow> None
           | Some path \<Rightarrow> refusal_for mc tool \<lparr>wt_written = path, wt_lands = [path], wt_by = tool\<rparr> workdir f)
        else if tool = ''shell'' then
          (case str_arg args ''command'' of
             None \<Rightarrow> None
           | Some command \<Rightarrow>
               (case landing_for (mc_globs mc) command escapes workdir home of
                  KnownLanding targets \<Rightarrow> first_refused (\<lambda>t. refusal_for mc tool t workdir f) targets
                | Lost \<Rightarrow> Some PathsLost
                | _ \<Rightarrow> Some PathsUnread))
        else None)"

subsection \<open>A shell line's writes against the working directory\<close>

datatype escaping = WritesUnnamed | WritesLost | WritesUnparsed | WritesOutside string string string

definition escape_of :: "file_system \<Rightarrow> string \<Rightarrow> write_landing \<Rightarrow> escaping option" where
  "escape_of fs workdir t =
     map_option (WritesOutside (wt_by t) (wt_written t))
       (List.find (\<lambda>land. \<not> resolves_within fs land workdir) (wt_lands t))"

definition escaping_write_refusal :: "machine \<Rightarrow> string \<Rightarrow> json \<Rightarrow> string \<Rightarrow> string option \<Rightarrow> bool \<Rightarrow> escaping option" where
  "escaping_write_refusal mc tool_name args workdir home escapes =
     (case shell_command tool_name args of
        None \<Rightarrow> None
      | Some command \<Rightarrow>
          (case landing_for (mc_globs mc) command escapes workdir home of
             KnownLanding targets \<Rightarrow> first_refused (escape_of (mc_files mc) workdir) targets
           | Unnamed \<Rightarrow> Some WritesUnnamed
           | Lost \<Rightarrow> Some WritesLost
           | Unparsed \<Rightarrow> Some WritesUnparsed))"

subsection \<open>Files a run may not change\<close>

record protected_path =
  pp_path :: string
  pp_label :: string

text \<open>The same resolution a profile's rules give a word.\<close>

definition protected_hit :: "file_system \<Rightarrow> string \<Rightarrow> string \<Rightarrow> string option \<Rightarrow> protected_path list \<Rightarrow>
    protected_path option" where
  "protected_hit fs w cwd home protected =
     (case Option.bind (expand_home w home)
             (\<lambda>p. Option.bind (fold_dot_dot (path_join cwd p)) (canonicalize_for_match fs)) of
        None \<Rightarrow> None
      | Some found \<Rightarrow>
          List.find (\<lambda>p. case canonicalize_for_match fs (pp_path p) of
              Some dir \<Rightarrow> path_starts_with found dir | None \<Rightarrow> False) protected)"

definition location_spellings :: "string \<Rightarrow> string option \<Rightarrow> string list" where
  "location_spellings path home =
     [slashed path, path] @
     (case home of
        Some h \<Rightarrow>
          if path_starts_with path h then
            let native = path_of (drop (length (path_components h)) (path_components path)) in
            concat (map (\<lambda>pre. [pre @ ''/'' @ slashed native, pre @ ''/'' @ native]) [''~'', ''$HOME'', ''${HOME}''])
          else []
      | None \<Rightarrow> [])"

text \<open>A refusal names what was found and the place it names.\<close>

type_synonym protected_refusal = "string \<times> protected_path"

definition protected_word :: "file_system \<Rightarrow> string \<Rightarrow> string option \<Rightarrow> protected_path list \<Rightarrow> string \<Rightarrow>
    protected_refusal option" where
  "protected_word fs cwd home protected w = map_option (Pair w) (protected_hit fs w cwd home protected)"

definition cd_to :: "string option \<Rightarrow> string list \<Rightarrow> string \<Rightarrow> string" where
  "cd_to home words cwd =
     (case words of
        program # aim # _ \<Rightarrow>
          if program = ''cd'' then
            (case expand_home aim home of Some dir \<Rightarrow> path_join cwd dir | None \<Rightarrow> cwd)
          else cwd
      | _ \<Rightarrow> cwd)"

fun protected_in_segments :: "file_system \<Rightarrow> string \<Rightarrow> string option \<Rightarrow> protected_path list \<Rightarrow>
    matchable_segment list \<Rightarrow> protected_refusal option" where
  "protected_in_segments fs cwd home protected [] = None"
| "protected_in_segments fs cwd home protected (s # ss) =
     (case first_refused (protected_word fs cwd home protected) (ms_words s) of
        Some hit \<Rightarrow> Some hit
      | None \<Rightarrow> protected_in_segments fs (cd_to home (ms_words s) cwd) home protected ss)"

definition shell_protected_refusal :: "file_system \<Rightarrow> string \<Rightarrow> bool \<Rightarrow> string \<Rightarrow> string option \<Rightarrow> protected_path list \<Rightarrow>
    protected_refusal option" where
  "shell_protected_refusal fs command escapes workdir home protected =
     (case (case matchable_segments command escapes of
              Some segments \<Rightarrow> protected_in_segments fs workdir home protected segments | None \<Rightarrow> None) of
        Some hit \<Rightarrow> Some hit
      | None \<Rightarrow>
          (case first_refused (protected_word fs workdir home protected) (write_target_paths escapes command) of
             Some hit \<Rightarrow> Some hit
           | None \<Rightarrow>
               first_refused
                 (\<lambda>p. map_option (\<lambda>spelling. (spelling, p))
                    (List.find (\<lambda>spelling. sublist spelling command) (location_spellings (pp_path p) home)))
                 protected))"

definition protected_path_refusal :: "file_system \<Rightarrow> string \<Rightarrow> json \<Rightarrow> bool \<Rightarrow> string \<Rightarrow> string option \<Rightarrow>
    protected_path list \<Rightarrow> protected_refusal option" where
  "protected_path_refusal fs tool_name args escapes workdir home protected =
     (if protected = [] then None
      else let tool = canonical_tool_name tool_name in
        if tool = ''write_file'' \<or> tool = ''edit_file'' then
          Option.bind (str_arg args ''path'') (\<lambda>path. protected_word fs workdir home protected path)
        else if tool = ''shell'' then
          Option.bind (str_arg args ''command'')
            (\<lambda>command. shell_protected_refusal fs command escapes workdir home protected)
        else None)"

end
