(* ===== verification/Shell_Operands.thy ===== *)
theory Shell_Operands
  imports Write_Fence
begin

text \<open>
  What a shell line names outside the working directory,
  \<open>crates/leviath-cli/src/shell_keys/operands.rs\<close>. Every word that could name a file is held to
  what the run may read, from every directory the line may be in; a move out of the working
  directory, a word that expands at run time and a program that runs another command count as
  outside, or make the line one that cannot be placed.
\<close>

subsection \<open>Programs\<close>

definition NO_FILE_OPERANDS :: "string list" where
  "NO_FILE_OPERANDS = [''echo'', ''printf'', ''seq'', ''sleep'', ''true'', ''false'', ''pwd'', ''basename'', ''dirname'',
     ''uname'', ''hostname'', ''whoami'', ''id'', ''ps'', ''pgrep'', ''which'', ''tr'']"

definition RUNNERS :: "string list" where
  "RUNNERS = [''sh'', ''bash'', ''zsh'', ''dash'', ''ksh'', ''fish'', ''csh'', ''tcsh'', ''cmd'', ''powershell'', ''pwsh'',
     ''xargs'', ''env'', ''exec'', ''command'', ''builtin'', ''nohup'', ''timeout'', ''nice'', ''time'', ''sudo'', ''doas'',
     ''watch'', ''find'', ''node'', ''deno'', ''bun'', ''perl'', ''ruby'', ''php'', ''lua'', ''osascript'', ''awk'', ''gawk'',
     ''mawk'', ''nawk'', ''sed'']"

definition MOVES_THE_SHELL :: "string list" where "MOVES_THE_SHELL = [''cd'', ''pushd'']"

definition is_runner :: "string \<Rightarrow> word list \<Rightarrow> bool" where
  "is_runner name args \<longleftrightarrow> List.member RUNNERS name \<or> prefix ''python'' name \<or>
     name = ''git'' \<and> list_ex (\<lambda>w. prefix ''-c'' (w_text w)) args"

definition follows_links :: "string \<Rightarrow> word list \<Rightarrow> bool" where
  "follows_links name args \<longleftrightarrow> List.member [''grep'', ''egrep'', ''fgrep''] name \<and>
     list_ex (\<lambda>w. w_text w = ''--dereference-recursive'' \<or>
       prefix ''-'' (w_text w) \<and> \<not> prefix ''--'' (w_text w) \<and> List.member (w_text w) (CHR ''R'')) args"

text \<open>The paths an argument could name: every tail of a short flag may be one.\<close>

definition candidates :: "string \<Rightarrow> string list" where
  "candidates s =
     (if \<not> prefix ''-'' s \<or> s = ''-'' then [s]
      else if prefix ''--'' s then [case split_once (CHR ''='') s of Some (_, v) \<Rightarrow> v | None \<Rightarrow> s]
      else map (\<lambda>at_pos. drop at_pos s) [2..<length s])"

subsection \<open>The walk\<close>

record outside =
  os_operands :: "string list"
  os_unplaceable :: "string option"

record walk =
  wk_bases :: "string list"
  wk_left :: bool
  wk_out :: outside

text \<open>What a walk asks: the machine, the working directory, the home, the read fence, the shell.\<close>

record walker =
  wr_machine :: machine
  wr_workdir :: string
  wr_home :: "string option"
  wr_may_read :: "string \<Rightarrow> bool"
  wr_cmd :: bool

definition add_operand :: "string \<Rightarrow> walk \<Rightarrow> walk" where
  "add_operand s wk = wk\<lparr>wk_out := (wk_out wk)\<lparr>os_operands := os_operands (wk_out wk) @ [s]\<rparr>\<rparr>"

definition unplaceable :: "string \<Rightarrow> walk \<Rightarrow> walk" where
  "unplaceable why wk = wk\<lparr>wk_out := (wk_out wk)\<lparr>os_unplaceable := Some why\<rparr>\<rparr>"

definition word_expands :: "walker \<Rightarrow> word \<Rightarrow> bool" where
  "word_expands wr w \<longleftrightarrow> wr_cmd wr \<and> List.member (w_text w) (CHR ''%'')"

definition reads_inside :: "walker \<Rightarrow> bool \<Rightarrow> string \<Rightarrow> bool" where
  "reads_inside wr climbs path \<longleftrightarrow>
     wr_may_read wr path \<and> (\<not> climbs \<or> resolves_within (mc_files (wr_machine wr)) path (wr_workdir wr))"

definition inside :: "walker \<Rightarrow> string list \<Rightarrow> string \<Rightarrow> bool" where
  "inside wr bases s =
     (if List.member s (CHR ''{'') \<and> (List.member s (CHR '','') \<or> sublist ''..'' s) then False
      else if prefix ''~'' s \<and> \<not> home_named s then False
      else case expand_home s (wr_home wr) of
        None \<Rightarrow> False
      | Some path \<Rightarrow>
          let climbs = List.member (path_components path) ParentDir in
          list_all (\<lambda>base. case expansions (mc_globs (wr_machine wr)) base path of
              None \<Rightarrow> False
            | Some paths \<Rightarrow> list_all (reads_inside wr climbs) paths) bases)"

definition check_word :: "walker \<Rightarrow> word \<Rightarrow> walk \<Rightarrow> walk" where
  "check_word wr w wk =
     (if \<not> w_literal w \<or> word_expands wr w then
        add_operand ((if w_text w = [] then ''a substitution'' else w_text w) @ '' (expanded at run time)'') wk
      else if inside wr (wk_bases wk) (w_text w) then wk
      else add_operand (w_text w) wk)"

definition check_arg :: "walker \<Rightarrow> bool \<Rightarrow> word \<Rightarrow> walk \<Rightarrow> walk" where
  "check_arg wr positional w wk =
     (if \<not> w_literal w \<or> word_expands wr w \<or> positional then check_word wr w wk
      else if list_all (inside wr (wk_bases wk)) (candidates (w_text w)) then wk
      else add_operand (w_text w) wk)"

fun check_words :: "walker \<Rightarrow> word list \<Rightarrow> walk \<Rightarrow> walk" where
  "check_words wr [] wk = wk"
| "check_words wr (w # ws) wk = check_words wr ws (check_word wr w wk)"

fun check_args_from :: "walker \<Rightarrow> bool \<Rightarrow> bool \<Rightarrow> word list \<Rightarrow> walk \<Rightarrow> walk" where
  "check_args_from wr checks_literals options_ended [] wk = wk"
| "check_args_from wr checks_literals options_ended (w # ws) wk =
     check_args_from wr checks_literals (options_ended \<or> w_text w = ''--'') ws
       (if \<not> w_literal w \<or> word_expands wr w \<or> checks_literals then check_arg wr options_ended w wk else wk)"

text \<open>A move is followed when it stays inside; it may also fail, so the bases before it stay.\<close>

definition move_shell :: "walker \<Rightarrow> word list \<Rightarrow> walk \<Rightarrow> walk" where
  "move_shell wr args wk =
     (case List.find (\<lambda>w. \<not> prefix ''-'' (w_text w)) args of
        None \<Rightarrow> add_operand ''cd'' (wk\<lparr>wk_left := True\<rparr>)
      | Some aim \<Rightarrow>
          let wk1 = check_word wr aim wk in
          if length (os_operands (wk_out wk)) < length (os_operands (wk_out wk1)) then wk1\<lparr>wk_left := True\<rparr>
          else
            let dir = (case expand_home (w_text aim) (wr_home wr) of Some d \<Rightarrow> d | None \<Rightarrow> []) in
            wk1\<lparr>wk_bases := wk_bases wk1 @ List.map_filter (\<lambda>base. fold_dot_dot (path_join base dir)) (wk_bases wk1)\<rparr>)"

definition walk_program :: "walker \<Rightarrow> word \<Rightarrow> word list \<Rightarrow> walk \<Rightarrow> walk" where
  "walk_program wr program args wk =
     (let name = program_name (w_text program);
          wk1 = (if wk_left wk then add_operand ''(after a cd out of the working directory)'' wk else wk);
          wk2 = (if is_runner name args
                 then unplaceable ([backtick] @ name @ [backtick] @ '' runs a command this cannot read'') wk1 else wk1)
      in if List.member MOVES_THE_SHELL name then move_shell wr args wk2
         else check_args_from wr (\<not> List.member NO_FILE_OPERANDS name) False args
           (if follows_links name args then add_operand (name @ '' -R (follows every symlink it meets)'') wk2 else wk2))"

definition walk_segment :: "walker \<Rightarrow> segment \<Rightarrow> walk \<Rightarrow> walk" where
  "walk_segment wr s wk =
     (let wk1 = check_words wr (sg_reads s) wk in
      case strip_to_program (sg_words s) of
        StripProgram _ (program # args) \<Rightarrow> walk_program wr program args wk1
      | StripUnreadable \<Rightarrow> unplaceable ''it runs a command assembled at run time'' wk1
      | _ \<Rightarrow> wk1)"

definition walk_start :: "walker \<Rightarrow> walk" where
  "walk_start wr = \<lparr>wk_bases = [wr_workdir wr], wk_left = False, wk_out = \<lparr>os_operands = [], os_unplaceable = None\<rparr>\<rparr>"

definition outside_workdir_for :: "walker \<Rightarrow> string \<Rightarrow> outside" where
  "outside_workdir_for wr command =
     wk_out (case tokenize_for command (\<not> wr_cmd wr) of
       Some segments \<Rightarrow> fold (walk_segment wr) segments (walk_start wr)
     | None \<Rightarrow> unplaceable ''it cannot be read as commands'' (walk_start wr))"

definition outside_is_empty :: "outside \<Rightarrow> bool" where
  "outside_is_empty o' \<longleftrightarrow> os_operands o' = []"

definition outside_refusal :: "outside \<Rightarrow> string option" where
  "outside_refusal o' =
     (case os_unplaceable o' of
        Some why \<Rightarrow> Some why
      | None \<Rightarrow> if os_operands o' = [] then None else Some (''it names '' @ join_with '', '' (os_operands o')))"

text \<open>What a call names outside: nothing unless it is a shell line.\<close>

definition outside_of_call :: "walker \<Rightarrow> string \<Rightarrow> json \<Rightarrow> outside" where
  "outside_of_call wr tool_name args =
     (case shell_command tool_name args of
        Some command \<Rightarrow> outside_workdir_for wr command
      | None \<Rightarrow> \<lparr>os_operands = [], os_unplaceable = None\<rparr>)"

end
