(* ===== verification/Tool_Decide.thy ===== *)
theory Tool_Decide
  imports Yolo_Properties Shell_Operands Run_State
begin

text \<open>
  Judging a tool call, \<open>decide_call\<close> of \<open>crates/leviath-cli/src/daemon/tool_service.rs\<close>, and the
  batch whose calls are judged in order and put to a person where they must be,
  \<open>crates/leviath-runtime/src/pipeline/lane_batch.rs\<close> and \<open>approval_prompt.rs\<close>. A refusal is a
  constructor where the code formats a sentence.
\<close>

subsection \<open>Calls and verdicts\<close>

record lane_call =
  tc_id :: string
  tc_name :: string
  tc_arguments :: json

text \<open>Why the fence refuses a call whatever its permissions say.\<close>

datatype fence_refusal = Escaping escaping | OutsidePaths paths_refusal | ProtectedFile protected_refusal
  | OverBudget string

datatype refusal = Fenced fence_refusal | OutsideWorkdir string | ByProfile string reason | ByPolicy string
  | NoOneToAsk string | Unanswered string | Declined string "string option" | PromptLost string string

datatype call_verdict = Run nat | Interact bool | Refuse refusal | Ask "string list" nat

record agent_tools =
  at_builtin_names :: "string list"
  at_script_names :: "string list"
  at_launch :: permissions
  at_stage_perms :: "declared_permissions list"
  at_agent_perms :: declared_permissions
  at_global :: permissions
  at_may_loosen :: bool
  at_safe_keys :: safe_keys
  at_yolo :: "yolo_profile option"
  at_unattended :: bool
  at_stage_required :: "string list list"
  at_limits :: write_limits
  at_available :: "nat option"
  at_escapes :: bool
  at_machine :: machine
  at_workdir :: string
  at_home :: "string option"
  at_write_fences :: "write_fence list"
  at_protected :: "protected_path list"
  at_may_read :: "string \<Rightarrow> bool"

record decide_ctx =
  dc_grants :: tool_grants
  dc_written :: nat
  dc_stage_index :: nat

text \<open>The element at an index, where there is one.\<close>

definition vec_get :: "'a list \<Rightarrow> nat \<Rightarrow> 'a option" where
  "vec_get xs i = (if i < length xs then Some (xs ! i) else None)"

subsection \<open>Judging one call\<close>

definition BLOCKING_INTERACTION_TOOLS :: "string list" where
  "BLOCKING_INTERACTION_TOOLS = [''present_for_review'', ''ask_user_text'', ''ask_user_choice'',
     ''ask_user_confirm'', ''edit_document'']"

definition or_else :: "'a option \<Rightarrow> 'a option \<Rightarrow> 'a option" where
  "or_else a b = (case a of Some x \<Rightarrow> Some x | None \<Rightarrow> b)"

definition fence :: "agent_tools \<Rightarrow> lane_call \<Rightarrow> nat \<Rightarrow> nat \<Rightarrow> fence_refusal option" where
  "fence st tc written stage_index =
     or_else (map_option Escaping (escaping_write_refusal (at_machine st) (tc_name tc) (tc_arguments tc)
                (at_workdir st) (at_home st) (at_escapes st)))
       (or_else (Option.bind (vec_get (at_write_fences st) stage_index)
            (\<lambda>paths. map_option OutsidePaths (write_paths_refusal (at_machine st) (tc_name tc) (tc_arguments tc)
                (at_workdir st) (at_home st) paths (at_escapes st))))
         (or_else (map_option ProtectedFile (protected_path_refusal (mc_files (at_machine st)) (tc_name tc)
                (tc_arguments tc) (at_escapes st) (at_workdir st) (at_home st) (at_protected st)))
           (map_option OverBudget (write_budget_refusal (at_escapes st) (tc_name tc) (tc_arguments tc) (at_limits st)
              (at_available st) written))))"

text \<open>What the call names outside, as the run may read.\<close>

definition call_outside :: "agent_tools \<Rightarrow> lane_call \<Rightarrow> outside" where
  "call_outside st tc =
     outside_of_call \<lparr>wr_machine = at_machine st, wr_workdir = at_workdir st, wr_home = at_home st,
        wr_may_read = at_may_read st, wr_cmd = (\<not> at_escapes st)\<rparr> (tc_name tc) (tc_arguments tc)"

text \<open>The layers every policy of a call is resolved through.\<close>

definition resolve :: "agent_tools \<Rightarrow> nat \<Rightarrow> string \<Rightarrow> bool \<Rightarrow> tool_policy" where
  "resolve st stage_index tool is_builtin =
     resolve_policy tool is_builtin (at_launch st)
       (case vec_get (at_stage_perms st) stage_index of Some m \<Rightarrow> m | None \<Rightarrow> (\<lambda>_. None))
       (at_agent_perms st) (at_global st) (at_may_loosen st)"

definition clamped_policy :: "agent_tools \<Rightarrow> nat \<Rightarrow> lane_call \<Rightarrow> tool_policy" where
  "clamped_policy st stage_index tc =
     clamp_raw_graph (tc_name tc) (tc_arguments tc)
       (clamp_by_effect (at_escapes st) (tc_name tc) (tc_arguments tc)
          (resolve st stage_index (tc_name tc) (List.member (at_builtin_names st) (tc_name tc)))
          (resolve st stage_index ''write_file'' True))
       (resolve st stage_index SPAWN_RAW_GRAPH_PERMISSION False)"

definition profile_decision :: "agent_tools \<Rightarrow> lane_call \<Rightarrow> tool_policy \<Rightarrow> (tool_policy \<times> reason) option" where
  "profile_decision st tc configured =
     decide_under (at_machine st) (at_yolo st)
       \<lparr>di_tool = tc_name tc, di_arguments = tc_arguments tc, di_configured = configured,
        di_launch_allowed = launch_allows (at_launch st) (tc_name tc),
        di_kind = classify_tool (tc_name tc) (List.member (at_builtin_names st) (tc_name tc))
          (List.member (at_script_names st) (tc_name tc)),
        di_workdir = at_workdir st, di_home = at_home st, di_escapes = at_escapes st\<rparr>"

text \<open>The verdict of a policy, once the fence and the questions are past.\<close>

definition policy_verdict :: "agent_tools \<Rightarrow> lane_call \<Rightarrow> decide_ctx \<Rightarrow> tool_policy \<Rightarrow>
    (tool_policy \<times> reason) option \<Rightarrow> call_verdict" where
  "policy_verdict st tc ctx configured decision =
     (let approval_keys = session_approval_keys (at_escapes st) (tc_name tc) (tc_arguments tc);
          placed = outside_is_empty (call_outside st tc);
          safe = is_safe (at_safe_keys st);
          given = granted (dc_grants ctx);
          judged = (case decision of None \<Rightarrow> configured | Some d \<Rightarrow> fst d);
          policy = (if judged = PolicyAsk \<and> placed \<and> all_covered approval_keys safe given
                    then PolicyAllow else judged);
          charge = (case declared_write_bytes (tc_name tc) (tc_arguments tc) of Some n \<Rightarrow> n | None \<Rightarrow> 0)
      in case policy of
        PolicyDeny \<Rightarrow>
          if configured \<noteq> PolicyDeny
          then Refuse (ByProfile (tc_name tc) (case decision of Some d \<Rightarrow> snd d | None \<Rightarrow> ConfigDenies))
          else Refuse (ByPolicy (tc_name tc))
      | PolicyAsk \<Rightarrow> Ask (if placed then uncovered_keys approval_keys safe given else []) charge
      | PolicyAllow \<Rightarrow> Run charge)"

definition decide_call :: "agent_tools \<Rightarrow> lane_call \<Rightarrow> decide_ctx \<Rightarrow> call_verdict" where
  "decide_call st tc ctx =
     (if List.member BLOCKING_INTERACTION_TOOLS (tc_name tc) then
        let kept = (case vec_get (at_stage_required st) (dc_stage_index ctx) of
              Some r \<Rightarrow> List.member r (canonical_tool_name (tc_name tc)) | None \<Rightarrow> False)
        in Interact (\<not> at_unattended st \<or> kept)
      else case fence st tc (dc_written ctx) (dc_stage_index ctx) of
        Some refused \<Rightarrow> Refuse (Fenced refused)
      | None \<Rightarrow>
          let why = outside_refusal (call_outside st tc) in
          if why \<noteq> None \<and> resolve st (dc_stage_index ctx) OUTSIDE_WORKDIR_PERMISSION False = PolicyDeny
          then Refuse (OutsideWorkdir (the why))
          else let configured = clamped_policy st (dc_stage_index ctx) tc in
            policy_verdict st tc ctx configured (profile_decision st tc configured))"

subsection \<open>A batch judged in order\<close>

datatype batch_kind = TurnBatch | SeedBatch | ValidationBatch

datatype decision = DecidedRun | DecidedInteract bool | DecidedRefuse refusal

record batch =
  b_calls :: "lane_call list"
  b_decided :: "(string \<times> decision) list"
  b_kind :: batch_kind

record ask =
  ask_call_id :: string
  ask_keys :: "string list"
  ask_charge :: nat

definition batch_decide :: "string \<Rightarrow> decision \<Rightarrow> batch \<Rightarrow> batch" where
  "batch_decide cid d b = b\<lparr>b_decided := AList.update cid d (b_decided b)\<rparr>"

definition call_of :: "batch \<Rightarrow> string \<Rightarrow> lane_call option" where
  "call_of b cid = List.find (\<lambda>c. tc_id c = cid) (b_calls b)"

text \<open>What one verdict does: a decision and the bytes it charges, or a question.\<close>

definition settle :: "batch_kind \<Rightarrow> lane_call \<Rightarrow> call_verdict \<Rightarrow> ask + decision \<times> nat" where
  "settle kind c v =
     (case v of
        Run charge \<Rightarrow> Inr (DecidedRun, charge)
      | Interact attended \<Rightarrow>
          if kind = ValidationBatch then Inr (DecidedRefuse (NoOneToAsk (tc_name c)), 0)
          else Inr (DecidedInteract attended, 0)
      | Refuse why \<Rightarrow> Inr (DecidedRefuse why, 0)
      | Ask keys charge \<Rightarrow>
          if kind = ValidationBatch then Inr (DecidedRefuse (NoOneToAsk (tc_name c)), 0)
          else Inl \<lparr>ask_call_id = tc_id c, ask_keys = keys, ask_charge = charge\<rparr>)"

fun decide_calls :: "agent_tools \<Rightarrow> tool_grants \<Rightarrow> nat \<Rightarrow> lane_call list \<Rightarrow> batch \<Rightarrow> nat \<Rightarrow>
    batch \<times> nat \<times> ask option" where
  "decide_calls st g stage_index [] b written = (b, written, None)"
| "decide_calls st g stage_index (c # cs) b written =
     (if map_of (b_decided b) (tc_id c) \<noteq> None then decide_calls st g stage_index cs b written
      else case settle (b_kind b) c (decide_call st c \<lparr>dc_grants = g, dc_written = written, dc_stage_index = stage_index\<rparr>) of
        Inl asked \<Rightarrow> (b, written, Some asked)
      | Inr (d, charge) \<Rightarrow>
          decide_calls st g stage_index cs (batch_decide (tc_id c) d b) (saturating_add written charge))"

definition decide_in_order :: "agent_tools \<Rightarrow> tool_grants \<Rightarrow> nat \<Rightarrow> batch \<Rightarrow> nat \<Rightarrow> batch \<times> nat \<times> ask option" where
  "decide_in_order st g stage_index b written = decide_calls st g stage_index (b_calls b) b written"

text \<open>
  The batch as it is sent: each call with its decision, taken out of the map. \<open>None\<close> is the
  panic of a call whose decision is no longer there.
\<close>

fun send_calls :: "lane_call list \<Rightarrow> (string \<times> decision) list \<Rightarrow> (lane_call \<times> decision) list option" where
  "send_calls [] decided = Some []"
| "send_calls (c # cs) decided =
     (case map_of decided (tc_id c) of
        None \<Rightarrow> None
      | Some d \<Rightarrow> map_option (\<lambda>rest. (c, d) # rest) (send_calls cs (AList.delete (tc_id c) decided)))"

subsection \<open>A person's answer\<close>

datatype answer = Approved "approval_scope option" | Disapproved "string option" | Unasked | Lost string

record lane =
  ln_batch :: batch
  ln_grants :: tool_grants
  ln_written :: nat
  ln_awaiting :: "ask option"

definition dispatch :: "agent_tools \<Rightarrow> nat \<Rightarrow> lane \<Rightarrow> lane" where
  "dispatch st stage_index l =
     (case decide_in_order st (ln_grants l) stage_index (ln_batch l) (ln_written l) of
        (b, written, asked) \<Rightarrow> l\<lparr>ln_batch := b, ln_written := written, ln_awaiting := asked\<rparr>)"

text \<open>The name of the tool a call is for, empty when the batch has no such call.\<close>

definition tool_of :: "batch \<Rightarrow> string \<Rightarrow> string" where
  "tool_of b cid = (case call_of b cid of Some c \<Rightarrow> tc_name c | None \<Rightarrow> [])"

text \<open>
  With no hub to put a question to, the loop answers it itself, as a prompt that nobody
  answered, and judges on. The number bounds its turns; one more than the batch has calls is
  enough, as \<open>alone_settles\<close> shows.
\<close>

fun decide_alone :: "nat \<Rightarrow> agent_tools \<Rightarrow> tool_grants \<Rightarrow> nat \<Rightarrow> batch \<Rightarrow> nat \<Rightarrow> (batch \<times> nat) option" where
  "decide_alone 0 st g stage_index b written = None"
| "decide_alone (Suc turns) st g stage_index b written =
     (case decide_in_order st g stage_index b written of
        (b1, written1, None) \<Rightarrow> Some (b1, written1)
      | (b1, written1, Some asked) \<Rightarrow>
          decide_alone turns st g stage_index
            (batch_decide (ask_call_id asked) (DecidedRefuse (Unanswered (tool_of b1 (ask_call_id asked)))) b1) written1)"

definition dispatch_alone :: "agent_tools \<Rightarrow> nat \<Rightarrow> lane \<Rightarrow> lane option" where
  "dispatch_alone st stage_index l =
     map_option (\<lambda>(b, written). l\<lparr>ln_batch := b, ln_written := written\<rparr>)
       (decide_alone (Suc (length (b_calls (ln_batch l)))) st (ln_grants l) stage_index (ln_batch l) (ln_written l))"

text \<open>
  An outcome names the call it is about. It settles that call, and an approval grants the keys
  and charges the bytes of the question the batch is held on.
\<close>

definition collect_approval :: "string \<Rightarrow> answer \<Rightarrow> ask \<Rightarrow> lane \<Rightarrow> lane" where
  "collect_approval cid a asked l =
     (let tool = tool_of (ln_batch l) cid;
          settled = (\<lambda>d. l\<lparr>ln_batch := batch_decide cid d (ln_batch l), ln_awaiting := None\<rparr>)
      in case a of
        Lost why \<Rightarrow> settled (DecidedRefuse (PromptLost tool why))
      | Approved scope \<Rightarrow>
          (settled DecidedRun)\<lparr>ln_grants := grant scope (ask_keys asked) (ln_grants l),
             ln_written := saturating_add (ln_written l) (ask_charge asked)\<rparr>
      | Disapproved feedback \<Rightarrow> settled (DecidedRefuse (Declined tool feedback))
      | Unasked \<Rightarrow> settled (DecidedRefuse (Unanswered tool)))"

subsection \<open>Grants in the run's state\<close>

definition grants_to_state :: "tool_grants \<Rightarrow> grants" where
  "grants_to_state g =
     \<lparr>gr_run = sort (tg_run g), gr_stage = sort (tg_stage g),
      gr_stage_index = map_option (\<lambda>i. min i (2 ^ 32 - 1)) (tg_stage_index g), gr_cleared = []\<rparr>"

definition grants_from_state :: "grants \<Rightarrow> tool_grants" where
  "grants_from_state s = \<lparr>tg_run = remdups (gr_run s), tg_stage = remdups (gr_stage s), tg_stage_index = gr_stage_index s\<rparr>"

end
