(* ===== verification/Tool_Properties.thy ===== *)
theory Tool_Properties
  imports Tool_Decide
begin

text \<open>
  What the layers of permission promise together: a configured refusal is final, a blueprint
  never loosens, and what runs unasked was allowed, safe, or granted by a person.
\<close>

subsection \<open>How strict a verdict is\<close>

text \<open>A call that is not a question: it runs, a person is asked first, or it is refused.\<close>

definition strictness :: "call_verdict \<Rightarrow> tool_policy" where
  "strictness v = (case v of Refuse _ \<Rightarrow> PolicyDeny | Ask _ _ \<Rightarrow> PolicyAsk | _ \<Rightarrow> PolicyAllow)"

definition after_grants :: "agent_tools \<Rightarrow> lane_call \<Rightarrow> decide_ctx \<Rightarrow> tool_policy \<Rightarrow> tool_policy" where
  "after_grants st tc ctx judged =
     (if judged = PolicyAsk \<and> outside_is_empty (call_outside st tc) \<and>
         all_covered (session_approval_keys (at_escapes st) (tc_name tc) (tc_arguments tc))
           (is_safe (at_safe_keys st)) (granted (dc_grants ctx))
      then PolicyAllow else judged)"

lemma strictness_policy_verdict:
  "strictness (policy_verdict st tc ctx configured decision) =
   after_grants st tc ctx (case decision of None \<Rightarrow> configured | Some d \<Rightarrow> fst d)"
  by (auto simp: policy_verdict_def strictness_def after_grants_def Let_def split: tool_policy.splits)

lemma after_grants_deny [simp]: "after_grants st tc ctx PolicyDeny = PolicyDeny"
  by (simp add: after_grants_def)

lemma after_grants_mono: "p \<le> p' \<Longrightarrow> after_grants st tc ctx p \<le> after_grants st tc ctx p'"
  by (cases p; cases p') (auto simp: after_grants_def less_eq_tool_policy_def restrictiveness_def)

subsection \<open>A profile, whatever it says\<close>

lemma verdict_policy_mono: "v \<le> w \<Longrightarrow> verdict_policy v \<le> verdict_policy w"
  by (cases v; cases w) (auto simp: verdict_policy_def less_eq_verdict_def verdict_rank_def
      less_eq_tool_policy_def restrictiveness_def)

lemma tool_verdict_deny [simp]: "tool_verdict mc p tool source PolicyDeny la = (VDeny, ConfigDenies)"
  by (simp add: tool_verdict_def)

lemma shell_verdict_deny: "di_configured di = PolicyDeny \<Longrightarrow> fst (shell_verdict mc p command di) = VDeny"
  by (simp add: shell_verdict_def Let_def)

lemma decide_profile_deny: "di_configured di = PolicyDeny \<Longrightarrow> fst (decide_profile mc p di) = PolicyDeny"
  using shell_verdict_deny [of di mc p]
  by (auto simp: decide_profile_def split_beta Let_def verdict_policy_def split: option.split)

definition judged_policy :: "agent_tools \<Rightarrow> lane_call \<Rightarrow> tool_policy \<Rightarrow> tool_policy" where
  "judged_policy st tc configured =
     (case profile_decision st tc configured of None \<Rightarrow> configured | Some d \<Rightarrow> fst d)"

lemma judged_policy_deny [simp]: "judged_policy st tc PolicyDeny = PolicyDeny"
  by (auto simp: judged_policy_def profile_decision_def decide_under_def decide_profile_deny split: option.split)

lemma strictness_decide_call:
  assumes "tc_name tc \<notin> set BLOCKING_INTERACTION_TOOLS"
  shows "strictness (decide_call st tc ctx) =
    (if fence st tc (dc_written ctx) (dc_stage_index ctx) \<noteq> None \<or>
        outside_refusal (call_outside st tc) \<noteq> None \<and>
        resolve st (dc_stage_index ctx) OUTSIDE_WORKDIR_PERMISSION False = PolicyDeny
     then PolicyDeny
     else after_grants st tc ctx (judged_policy st tc (clamped_policy st (dc_stage_index ctx) tc)))"
proof (cases "fence st tc (dc_written ctx) (dc_stage_index ctx)")
  case None
  then show ?thesis using assms
    by (simp add: decide_call_def Let_def strictness_policy_verdict judged_policy_def)
       (simp add: strictness_def)
next
  case (Some why)
  then show ?thesis using assms by (simp add: decide_call_def strictness_def)
qed

lemma strictness_deny: "strictness v = PolicyDeny \<longleftrightarrow> (\<exists>why. v = Refuse why)"
  by (cases v) (simp_all add: strictness_def)

lemma strictness_run: "v = Run charge \<Longrightarrow> strictness v = PolicyAllow"
  by (simp add: strictness_def)

subsection \<open>A configured refusal is final\<close>

lemma resolve_deny:
  "by_any_spelling (at_global st) tool = Some PolicyDeny \<Longrightarrow> resolve st i tool b = PolicyDeny"
  using configured_at_ceiling [of "at_global st" tool PolicyDeny] by (simp add: resolve_def resolve_policy_deny)

text \<open>
  C2: A configured refusal is final, but for the questions an agent puts to a person. Where the
  user's table refuses the tool a call names, or refuses \<open>write_file\<close> and the call is a shell line
  that writes a file, or refuses graphs the model wrote and the call spawns one, the call is
  refused: no launch flag, no blueprint or stage permission, no profile, no safe list and no
  grant lifts it. A configured refusal of one of \<open>BLOCKING_INTERACTION_TOOLS\<close>, as \<open>ask_user_text\<close>
  and \<open>edit_document\<close>, does not refuse it.
\<close>

theorem configured_refusal_is_final:
  assumes "tc_name tc \<notin> set BLOCKING_INTERACTION_TOOLS"
    and "by_any_spelling (at_global st) (tc_name tc) = Some PolicyDeny \<or>
      by_any_spelling (at_global st) ''write_file'' = Some PolicyDeny \<and>
        (\<exists>command. shell_command (tc_name tc) (tc_arguments tc) = Some command \<and> writes_a_file (at_escapes st) command) \<or>
      by_any_spelling (at_global st) SPAWN_RAW_GRAPH_PERMISSION = Some PolicyDeny \<and>
        spawns_a_raw_graph (tc_name tc) (tc_arguments tc)"
  shows "\<exists>why. decide_call st tc ctx = Refuse why"
proof -
  have "clamped_policy st (dc_stage_index ctx) tc = PolicyDeny"
    using assms(2)
    by (auto simp: clamped_policy_def clamp_raw_graph_def clamp_by_effect_def resolve_deny split: option.split)
  then have "strictness (decide_call st tc ctx) = PolicyDeny"
    by (simp add: strictness_decide_call [OF assms(1)])
  then show ?thesis by (simp add: strictness_deny)
qed

definition ex_tools :: agent_tools where
  "ex_tools = \<lparr>at_builtin_names = [''shell''], at_script_names = [], at_launch = [''*'' \<mapsto> PolicyAllow],
     at_stage_perms = [[''bash'' \<mapsto> ''allow'']], at_agent_perms = (\<lambda>_. None),
     at_global = [''write_file'' \<mapsto> PolicyDeny], at_may_loosen = True,
     at_safe_keys = [(''shell:ls'', SafeConfig)], at_yolo = None,
     at_unattended = False, at_stage_required = [], at_limits = \<lparr>wl_per_call = None, wl_per_run = Some 100\<rparr>,
     at_available = None, at_escapes = True, at_machine = ex_machine, at_workdir = ''/w'', at_home = None,
     at_write_fences = [], at_protected = [], at_may_read = (\<lambda>_. True)\<rparr>"

definition ex_shell_call :: "string \<Rightarrow> string \<Rightarrow> lane_call" where
  "ex_shell_call i command =
     \<lparr>tc_id = i, tc_name = ''bash'', tc_arguments = JObj [(''command'', JStr command)]\<rparr>"

definition ex_ctx :: decide_ctx where
  "ex_ctx = \<lparr>dc_grants = ex_write_grants, dc_written = 0, dc_stage_index = 0\<rparr>"

text \<open>The example run writes nothing it declares, so its ceilings refuse nothing.\<close>

lemma ex_fence:
  assumes "u \<le> 100"
  shows "write_budget_refusal True ''bash'' (JObj [(''command'', JStr command)])
    \<lparr>wl_per_call = None, wl_per_run = Some 100\<rparr> None u = None"
proof -
  have "declared_write_bytes ''bash'' (JObj [(''command'', JStr command)]) = None"
    by (simp add: declared_write_bytes_def canonical_cases Let_def)
  then show ?thesis using assms
    by (simp add: write_budget_refusal_def check_write_def over_def write_refusal_def saturating_add_def Let_def)
qed

theorem configured_refusal_is_final_witness:
  "(\<exists>why. decide_call ex_tools (ex_shell_call ''c1'' ''ls>x'') ex_ctx = Refuse why) \<and>
   decide_call ex_tools (ex_shell_call ''c1'' ''ls'') ex_ctx = Run 0"
proof
  have "by_any_spelling (at_global ex_tools) ''write_file'' = Some PolicyDeny" by code_simp
  moreover have "shell_command (tc_name (ex_shell_call ''c1'' ''ls>x''))
      (tc_arguments (ex_shell_call ''c1'' ''ls>x'')) = Some ''ls>x''" by code_simp
  moreover have "writes_a_file (at_escapes ex_tools) ''ls>x''" by code_simp
  moreover have "tc_name (ex_shell_call ''c1'' ''ls>x'') \<notin> set BLOCKING_INTERACTION_TOOLS" by code_simp
  ultimately show "\<exists>why. decide_call ex_tools (ex_shell_call ''c1'' ''ls>x'') ex_ctx = Refuse why"
    by (intro configured_refusal_is_final) auto
  show "decide_call ex_tools (ex_shell_call ''c1'' ''ls'') ex_ctx = Run 0" by code_simp
qed

subsection \<open>A blueprint never loosens\<close>

text \<open>The same run with a graph that says nothing about permissions.\<close>

definition without_blueprint :: "agent_tools \<Rightarrow> agent_tools" where
  "without_blueprint st = st\<lparr>at_stage_perms := [], at_agent_perms := (\<lambda>_. None)\<rparr>"

lemma by_any_spelling_empty [simp]: "by_any_spelling (\<lambda>_. None) tool = None"
  by (simp add: by_any_spelling_None)

lemma resolve_policy_mono:
  assumes "configured_policy t b s1 a1 global l1 \<le> configured_policy t b s2 a2 global l2"
  shows "resolve_policy t b launch s1 a1 global l1 \<le> resolve_policy t b launch s2 a2 global l2"
  using assms by (auto simp: resolve_policy_def Let_def split: option.split)

lemma configured_without:
  "configured_policy t b (\<lambda>_. None) (\<lambda>_. None) global l =
     (case by_any_spelling global t of Some c \<Rightarrow> c | None \<Rightarrow> default_tool_policy t b)"
  by (simp add: configured_policy_def Let_def split: option.split)

lemma resolve_without_blueprint:
  assumes "\<not> at_may_loosen st" "\<not> blueprint_loosenable tool"
  shows "resolve (without_blueprint st) i tool b \<le> resolve st i tool b"
proof -
  have "configured_policy tool b (\<lambda>_. None) (\<lambda>_. None) (at_global st) (at_may_loosen st)
      \<le> configured_policy tool b s a (at_global st) (at_may_loosen st)" for s a
    using assms by (auto simp: configured_without intro: configured_at_ceiling configured_at_default split: option.split)
  then show ?thesis by (simp add: resolve_def without_blueprint_def vec_get_def resolve_policy_mono)
qed

lemma stricter_mono: "a \<le> a' \<Longrightarrow> b \<le> b' \<Longrightarrow> stricter a b \<le> stricter a' (b' :: tool_policy)"
  by (simp add: stricter_max max.coboundedI1 max.coboundedI2)

lemma loosenable_names:
  "\<not> blueprint_loosenable ''write_file''" "\<not> blueprint_loosenable SPAWN_RAW_GRAPH_PERMISSION"
  "\<not> blueprint_loosenable OUTSIDE_WORKDIR_PERMISSION"
  by code_simp+

lemma clamped_without_blueprint:
  assumes "\<not> at_may_loosen st" "\<not> blueprint_loosenable (tc_name tc)"
  shows "clamped_policy (without_blueprint st) i tc \<le> clamped_policy st i tc"
proof -
  note r = resolve_without_blueprint [OF assms(1)]
  have f: "at_escapes (without_blueprint st) = at_escapes st"
      "at_builtin_names (without_blueprint st) = at_builtin_names st"
    by (simp_all add: without_blueprint_def)
  have "clamp_by_effect e name args p w \<le> clamp_by_effect e name args p' w'" if "p \<le> p'" "w \<le> w'" for e name args p p' w w'
    using that by (auto simp: clamp_by_effect_def intro: stricter_mono split: option.split)
  then show ?thesis
    using r [OF assms(2)] r [OF loosenable_names(1)] r [OF loosenable_names(2)]
    by (auto simp: clamped_policy_def clamp_raw_graph_def f intro!: stricter_mono)
qed

text \<open>A profile moves a stricter policy to a verdict at least as strict.\<close>

lemma tool_verdict_mono:
  "configured \<le> configured' \<Longrightarrow>
   fst (tool_verdict mc p tool source configured la) \<le> fst (tool_verdict mc p tool source configured' la)"
  by (cases configured; cases configured')
     (auto simp: tool_verdict_def less_eq_tool_policy_def restrictiveness_def Let_def split: option.split)


lemma segment_verdict_mono:
  "fst base \<le> fst base' \<Longrightarrow> di' = di\<lparr>di_configured := configured\<rparr> \<Longrightarrow>
   fst (segment_verdict mc p s has_rules base di) \<le> fst (segment_verdict mc p s has_rules base' di')"
proof -
  have arg: "arg_matches mc pattern word (di\<lparr>di_configured := configured\<rparr>) = arg_matches mc pattern word di" for pattern word
    by (simp add: arg_matches_def cong: option.case_cong)
  have m: "shell_rule_matches mc r words (di\<lparr>di_configured := configured\<rparr>) = shell_rule_matches mc r words di" for r words
    by (simp add: shell_rule_matches_def arg cong: option.case_cong)
  have "first_shell_rule mc rs words (di\<lparr>di_configured := configured\<rparr>) = first_shell_rule mc rs words di" for rs words
    by (induction rs) (auto simp: m)
  then show "fst base \<le> fst base' \<Longrightarrow> di' = di\<lparr>di_configured := configured\<rparr> \<Longrightarrow> ?thesis"
    by (auto simp: segment_verdict_def split: option.split)
qed

lemma command_strictness_mono:
  assumes "di_configured di \<le> configured"
  shows "command_strictness mc p di s \<le> command_strictness mc p (di\<lparr>di_configured := configured\<rparr>) s"
proof -
  note t = tool_verdict_mono [OF assms]
  have "fst (segment_verdict mc p s hr (tool_verdict mc p ''shell'' GroupBuiltin (di_configured di) (di_launch_allowed di)) di)
      \<le> fst (segment_verdict mc p s hr (tool_verdict mc p ''shell'' GroupBuiltin configured (di_launch_allowed di))
          (di\<lparr>di_configured := configured\<rparr>))" for hr
    by (rule segment_verdict_mono [OF t refl])
  then show ?thesis using t [of mc p "''write_file''" GroupBuiltin "di_launch_allowed di"]
    by (auto simp: command_strictness_def Let_def max.coboundedI1 max.coboundedI2)
qed

lemma shell_verdict_mono:
  assumes "di_configured di \<le> configured"
  shows "fst (shell_verdict mc p command di) \<le> fst (shell_verdict mc p command (di\<lparr>di_configured := configured\<rparr>))"
proof -
  let ?di = "di\<lparr>di_configured := configured\<rparr>"
  let ?base = "\<lambda>c. tool_verdict mc p ''shell'' GroupBuiltin c (di_launch_allowed di)"
  note base = tool_verdict_mono [OF assms, of mc p "''shell''" GroupBuiltin "di_launch_allowed di"]
  show ?thesis
  proof (cases "fst (?base configured) = VDeny")
    case True
    then show ?thesis by (simp add: shell_verdict_def Let_def)
  next
    case False
    then have nd: "fst (?base (di_configured di)) \<noteq> VDeny"
      using base by (auto simp: less_eq_verdict_def verdict_rank_def split: verdict.splits)
    show ?thesis
    proof (cases "matchable_segments command (di_escapes di)")
      case None
      then show ?thesis using False nd base by (auto simp: shell_verdict_def Let_def)
    next
      case (Some segs)
      show ?thesis
      proof (cases "segs = []")
        case True
        then show ?thesis using Some False nd base by (auto simp: shell_verdict_def Let_def)
      next
        case ne: False
        have "Max (command_strictness mc p di ` set segs) \<le> Max (command_strictness mc p ?di ` set segs)"
          using ne command_strictness_mono [OF assms, of mc p]
          by (auto simp: Max_le_iff intro: order_trans [OF _ Max_ge])
        then show ?thesis
          using shell_verdict_max [OF Some ne, of mc p] shell_verdict_max [of command ?di segs mc p] Some ne False nd
          by simp
      qed
    qed
  qed
qed

lemma judged_policy_mono:
  assumes "c \<le> c'"
  shows "judged_policy st tc c \<le> judged_policy st tc c'"
proof (cases "at_yolo st")
  case None
  then show ?thesis using assms by (simp add: judged_policy_def profile_decision_def decide_under_def)
next
  case (Some p)
  define di where "di = \<lparr>di_tool = tc_name tc, di_arguments = tc_arguments tc, di_configured = c,
      di_launch_allowed = launch_allows (at_launch st) (tc_name tc),
      di_kind = classify_tool (tc_name tc) (List.member (at_builtin_names st) (tc_name tc))
        (List.member (at_script_names st) (tc_name tc)),
      di_workdir = at_workdir st, di_home = at_home st, di_escapes = at_escapes st\<rparr>"
  have "fst (decide_profile (at_machine st) p di) \<le> fst (decide_profile (at_machine st) p (di\<lparr>di_configured := c'\<rparr>))"
    using shell_verdict_mono [of di c' "at_machine st" p] tool_verdict_mono [OF assms] assms
    by (auto simp: decide_profile_def split_beta Let_def di_def intro!: verdict_policy_mono split: option.split)
  then show ?thesis by (simp add: judged_policy_def profile_decision_def decide_under_def Some di_def)
qed

lemma judged_without_blueprint: "judged_policy (without_blueprint st) tc c = judged_policy st tc c"
  by (simp add: judged_policy_def profile_decision_def without_blueprint_def)

lemma rest_without_blueprint:
  "fence (without_blueprint st) tc w i = fence st tc w i"
  "call_outside (without_blueprint st) tc = call_outside st tc"
  "after_grants (without_blueprint st) tc ctx p = after_grants st tc ctx p"
  by (simp_all add: fence_def without_blueprint_def after_grants_def call_outside_def)

text \<open>
  C12: A blueprint never loosens. Unless the user let its permissions loosen, or the tool is one
  of the two a blueprint may pre-approve (\<open>web_search\<close> and \<open>web_fetch\<close>), whatever a graph and its
  stages declare leaves a call that is no question to a person judged at least as strictly as if
  they had declared nothing: a call that ran because of them would have run without them, and one
  that was refused without them is refused with them. The launch flags, the profile, the safe list
  and the grants are the same on both sides.
\<close>

theorem blueprint_never_loosens:
  assumes "tc_name tc \<notin> set BLOCKING_INTERACTION_TOOLS"
    and "\<not> at_may_loosen st" "\<not> blueprint_loosenable (tc_name tc)"
  shows "strictness (decide_call (without_blueprint st) tc ctx) \<le> strictness (decide_call st tc ctx)"
proof -
  let ?i = "dc_stage_index ctx"
  have "resolve (without_blueprint st) ?i OUTSIDE_WORKDIR_PERMISSION False \<le> resolve st ?i OUTSIDE_WORKDIR_PERMISSION False"
    by (rule resolve_without_blueprint [OF assms(2) loosenable_names(3)])
  moreover have "after_grants st tc ctx (judged_policy st tc (clamped_policy (without_blueprint st) ?i tc))
      \<le> after_grants st tc ctx (judged_policy st tc (clamped_policy st ?i tc))"
    by (intro after_grants_mono judged_policy_mono clamped_without_blueprint assms(2,3))
  ultimately show ?thesis
    by (auto simp: strictness_decide_call [OF assms(1)] rest_without_blueprint judged_without_blueprint)
qed

theorem blueprint_never_loosens_witness:
  "strictness (decide_call (without_blueprint (ex_tools\<lparr>at_may_loosen := False\<rparr>)) (ex_shell_call ''c1'' ''ls'') ex_ctx)
     \<le> strictness (decide_call (ex_tools\<lparr>at_may_loosen := False\<rparr>) (ex_shell_call ''c1'' ''ls'') ex_ctx)"
proof (rule blueprint_never_loosens)
  show "tc_name (ex_shell_call ''c1'' ''ls'') \<notin> set BLOCKING_INTERACTION_TOOLS" by code_simp
  show "\<not> at_may_loosen (ex_tools\<lparr>at_may_loosen := False\<rparr>)" by simp
  show "\<not> blueprint_loosenable (tc_name (ex_shell_call ''c1'' ''ls''))" by code_simp
qed


subsection \<open>What runs unasked\<close>

lemma decide_call_allows:
  assumes "decide_call st tc ctx = Run charge"
  shows "after_grants st tc ctx (judged_policy st tc (clamped_policy st (dc_stage_index ctx) tc)) = PolicyAllow"
proof -
  have "tc_name tc \<notin> set BLOCKING_INTERACTION_TOOLS"
    using assms by (auto simp: decide_call_def Let_def split: if_splits)
  from strictness_decide_call [OF this, of st ctx] show ?thesis
    using strictness_run [OF assms] by (simp split: if_splits)
qed

lemma shell_not_spawn: "shell_command name args = Some command \<Longrightarrow> canonical_tool_name name = ''shell'' \<and>
    \<not> spawns_a_raw_graph name args \<and> str_arg args ''command'' = Some command"
  by (auto simp: shell_command_def spawns_a_raw_graph_def canonical_cases split: if_splits)

text \<open>
  C19: What a shell call runs unasked was settled beforehand. In a run with no profile, where the
  layers of policy ask about a shell call, the call runs without a prompt only when its words
  leave nothing outside the working directory and every key of its line is safe, by itself or by
  its program, or granted; and each file it redirects to was granted by a person, whatever the
  user's, the agent's and the blueprint's safe lists hold. A file a safe program writes by its
  own operands is not among those.
\<close>

theorem unasked_line_was_settled:
  assumes run: "decide_call st tc ctx = Run charge"
    and shell: "shell_command (tc_name tc) (tc_arguments tc) = Some command"
    and attended: "at_yolo st = None"
    and asks: "clamped_policy st (dc_stage_index ctx) tc \<noteq> PolicyAllow"
    and safe: "at_safe_keys st = resolve_safe_keys (at_escapes st) config agent blueprint opted"
  shows "outside_is_empty (call_outside st tc) \<and>
    (\<forall>k \<in> set (command_keys (at_escapes st) command).
       is_safe (at_safe_keys st) k \<or> is_safe (at_safe_keys st) (program_of k) \<or> granted (dc_grants ctx) k) \<and>
    (\<forall>path \<in> set (write_target_paths (at_escapes st) command).
       granted (dc_grants ctx) (KEY_PREFIX @ write_key path))"
proof -
  have "judged_policy st tc p = p" for p
    by (simp add: judged_policy_def profile_decision_def decide_under_def attended)
  then have c: "outside_is_empty (call_outside st tc)"
      "all_covered (command_keys (at_escapes st) command) (is_safe (at_safe_keys st)) (granted (dc_grants ctx))"
    using decide_call_allows [OF run] asks shell_not_spawn [OF shell]
    by (auto simp: after_grants_def session_approval_keys_def split: if_splits)
  then show ?thesis
    using safe_list.covered_write [of "at_escapes st" command "at_escapes st" config agent blueprint opted "granted (dc_grants ctx)"]
    by (auto simp: safe all_covered_def uncovered_keys_def filter_empty_conv)
qed

definition ex_attended :: agent_tools where
  "ex_attended = ex_tools\<lparr>at_launch := (\<lambda>_. None), at_stage_perms := [], at_global := (\<lambda>_. None)\<rparr>"

text \<open>A line of the example run that writes inside its directory and names nothing outside.\<close>

definition ex_inside :: "string \<Rightarrow> bool" where
  "ex_inside command \<longleftrightarrow>
     escaping_write_refusal ex_machine ''bash'' (JObj [(''command'', JStr command)]) ''/w'' None True = None \<and>
     outside_workdir_for \<lparr>wr_machine = ex_machine, wr_workdir = ''/w'', wr_home = None, wr_may_read = (\<lambda>_. True),
       wr_cmd = False\<rparr> command = \<lparr>os_operands = [], os_unplaceable = None\<rparr>"

text \<open>What the example run makes of such a line, once its keys are known.\<close>

lemma ex_attended_decides:
  assumes "ex_inside command"
  shows "decide_call ex_attended (ex_shell_call i command) (ex_ctx\<lparr>dc_grants := g\<rparr>) =
    (let keys = command_keys True command; safe = is_safe [(''shell:ls'', SafeConfig)] in
     if all_covered keys safe (granted g) then Run 0 else Ask (uncovered_keys keys safe (granted g)) 0)"
proof -
  let ?call = "ex_shell_call i command" and ?ctx = "ex_ctx\<lparr>dc_grants := g\<rparr>"
  have bash: "tc_name ?call = ''bash''" "tc_arguments ?call = JObj [(''command'', JStr command)]"
    by (simp_all add: ex_shell_call_def)
  have declared: "declared_write_bytes ''bash'' (JObj [(''command'', JStr command)]) = None"
    by (simp add: declared_write_bytes_def canonical_cases Let_def)
  have keys: "session_approval_keys True ''bash'' (JObj [(''command'', JStr command)]) = command_keys True command"
    by (simp add: session_approval_keys_def spawns_a_raw_graph_def canonical_cases str_arg_def json_get_def)
  have fields: "vec_get (at_write_fences ex_attended) n = None"
      "at_protected ex_attended = []" "at_escapes ex_attended = True" "at_machine ex_attended = ex_machine"
      "at_workdir ex_attended = ''/w''" "at_home ex_attended = None" "at_may_read ex_attended = (\<lambda>_. True)"
      "at_limits ex_attended = \<lparr>wl_per_call = None, wl_per_run = Some 100\<rparr>" "at_available ex_attended = None"
      "at_safe_keys ex_attended = [(''shell:ls'', SafeConfig)]" "at_yolo ex_attended = None" for n
    by (simp_all add: ex_attended_def ex_tools_def vec_get_def)
  have "resolve ex_attended 0 ''bash'' b = PolicyAsk" "resolve ex_attended 0 ''write_file'' b = PolicyAsk" for b
    by (simp_all add: resolve_def ex_attended_def ex_tools_def vec_get_def resolve_policy_def configured_without
        default_tool_policy_def canonical_cases read_only_tools_def context_and_checklist_tools_def
        environment_tools_def mutating_tools_def Let_def)
  then have clamped: "clamped_policy ex_attended 0 ?call = PolicyAsk"
    by (simp add: clamped_policy_def clamp_raw_graph_def clamp_by_effect_def bash spawns_a_raw_graph_def
        stricter_def split: option.split)
  have command: "shell_command ''bash'' (JObj [(''command'', JStr command)]) = Some command"
    by (simp add: shell_command_def canonical_cases str_arg_def json_get_def)
  have out: "call_outside ex_attended ?call = \<lparr>os_operands = [], os_unplaceable = None\<rparr>"
    using assms by (simp add: call_outside_def outside_of_call_def fields bash command ex_inside_def)
  have "escaping_write_refusal ex_machine ''bash'' (JObj [(''command'', JStr command)]) ''/w'' None True = None"
    using assms by (simp add: ex_inside_def)
  then have "fence ex_attended ?call 0 0 = None"
    using ex_fence [of 0 command] by (simp add: fence_def or_else_def fields bash protected_path_refusal_def)
  moreover have "''bash'' \<notin> set BLOCKING_INTERACTION_TOOLS" by (simp add: BLOCKING_INTERACTION_TOOLS_def)
  moreover have "dc_written ?ctx = 0" "dc_stage_index ?ctx = 0" "dc_grants ?ctx = g" by (simp_all add: ex_ctx_def)
  ultimately show ?thesis
    by (simp add: decide_call_def bash outside_refusal_def fields out clamped policy_verdict_def keys declared
        profile_decision_def decide_under_def outside_is_empty_def Let_def)
qed

lemma ex_lines_inside: "ex_inside ''ls''" "ex_inside ''ls>x''" "ex_inside ''c>y''" "ex_inside ''c''"
  by code_simp+

lemma ex_writes: "decide_call ex_attended (ex_shell_call ''c1'' ''ls>x'') ex_ctx = Run 0"
proof -
  have "all_covered (command_keys True ''ls>x'') (is_safe [(''shell:ls'', SafeConfig)]) (granted ex_write_grants)"
    by code_simp
  then show ?thesis
    using ex_attended_decides [of "''ls>x''" "''c1''" ex_write_grants] ex_lines_inside(2) by (simp add: ex_ctx_def)
qed

theorem unasked_line_was_settled_witness:
  "decide_call ex_attended (ex_shell_call ''c1'' ''ls>x'') ex_ctx = Run 0 \<and>
   granted (dc_grants ex_ctx) (KEY_PREFIX @ write_key ''x'')"
proof -
  let ?call = "ex_shell_call ''c1'' ''ls>x''"
  note run = ex_writes
  have shell: "shell_command (tc_name ?call) (tc_arguments ?call) = Some ''ls>x''" by code_simp
  have asks: "clamped_policy ex_attended (dc_stage_index ex_ctx) ?call \<noteq> PolicyAllow" by code_simp
  let ?config = "\<lparr>sc_defaults = False, sc_tools = [''shell:>x''], sc_shell = [''>x'', ''ls'']\<rparr>"
  have safe: "at_safe_keys ex_attended = resolve_safe_keys (at_escapes ex_attended) ?config None None False"
    by code_simp
  have path: "''x'' \<in> set (write_target_paths (at_escapes ex_attended) ''ls>x'')" by code_simp
  have "at_yolo ex_attended = None" by (simp add: ex_attended_def ex_tools_def)
  from unasked_line_was_settled [OF run shell this asks safe] path run show ?thesis by blast
qed

subsection \<open>An approval that lasts\<close>

text \<open>What is written moves nothing in the fence but the ceilings.\<close>

lemma fence_later:
  assumes "fence st tc w i = None"
  shows "fence st tc u i = map_option OverBudget (write_budget_refusal (at_escapes st) (tc_name tc)
      (tc_arguments tc) (at_limits st) (at_available st) u)"
  using assms by (auto simp: fence_def or_else_def split: option.splits)

lemma decide_call_policy:
  assumes "decide_call st tc ctx = Ask keys charge"
  shows "\<exists>configured decision. policy_verdict st tc ctx configured decision = Ask keys charge \<and>
    (\<forall>g u. decide_call st tc (ctx\<lparr>dc_grants := g, dc_written := u\<rparr>) =
       (case fence st tc u (dc_stage_index ctx) of
          Some refused \<Rightarrow> Refuse (Fenced refused)
        | None \<Rightarrow> policy_verdict st tc (ctx\<lparr>dc_grants := g, dc_written := u\<rparr>) configured decision)) \<and>
    fence st tc (dc_written ctx) (dc_stage_index ctx) = None"
proof -
  let ?i = "dc_stage_index ctx"
  let ?c = "clamped_policy st ?i tc"
  let ?d = "profile_decision st tc ?c"
  have reached: "\<not> List.member BLOCKING_INTERACTION_TOOLS (tc_name tc)" "fence st tc (dc_written ctx) ?i = None"
      "\<not> (outside_refusal (call_outside st tc) \<noteq> None \<and> resolve st ?i OUTSIDE_WORKDIR_PERMISSION False = PolicyDeny)"
    using assms by (auto simp: decide_call_def Let_def split: if_splits option.splits)
  have gen: "decide_call st tc ctx' = (case fence st tc (dc_written ctx') ?i of
      Some refused \<Rightarrow> Refuse (Fenced refused) | None \<Rightarrow> policy_verdict st tc ctx' ?c ?d)"
    if "dc_stage_index ctx' = ?i" for ctx'
    using reached(1,3) unfolding decide_call_def Let_def that by (simp only: if_False)
  have "policy_verdict st tc ctx ?c ?d = Ask keys charge"
    using gen [OF refl] reached(2) assms by simp
  moreover have "decide_call st tc (ctx\<lparr>dc_grants := g, dc_written := u\<rparr>) =
       (case fence st tc u ?i of
          Some refused \<Rightarrow> Refuse (Fenced refused)
        | None \<Rightarrow> policy_verdict st tc (ctx\<lparr>dc_grants := g, dc_written := u\<rparr>) ?c ?d)" for g u
    by (subst gen) simp_all
  moreover note reached(2)
  ultimately have "policy_verdict st tc ctx ?c ?d = Ask keys charge \<and>
    (\<forall>g u. decide_call st tc (ctx\<lparr>dc_grants := g, dc_written := u\<rparr>) =
       (case fence st tc u ?i of
          Some refused \<Rightarrow> Refuse (Fenced refused)
        | None \<Rightarrow> policy_verdict st tc (ctx\<lparr>dc_grants := g, dc_written := u\<rparr>) ?c ?d)) \<and>
    fence st tc (dc_written ctx) ?i = None"
    by blast
  then show ?thesis by blast
qed

text \<open>A question with keys, judged again under the grants a lasting answer to it makes.\<close>

lemma policy_after_grant:
  assumes p: "policy_verdict st tc ctx configured decision = Ask keys charge" and keys: "keys \<noteq> []"
    and scope: "scope = Some ScopeStage \<or> scope = Some ScopeRun"
  shows "policy_verdict st tc (ctx\<lparr>dc_grants := grant scope keys (dc_grants ctx), dc_written := u\<rparr>)
      configured decision = Run charge"
proof -
  let ?g = "grant scope keys (dc_grants ctx)"
  let ?keys = "session_approval_keys (at_escapes st) (tc_name tc) (tc_arguments tc)"
  let ?judged = "case decision of None \<Rightarrow> configured | Some d \<Rightarrow> fst d"
  have j: "?judged = PolicyAsk" "outside_is_empty (call_outside st tc)"
      "keys = uncovered_keys ?keys (is_safe (at_safe_keys st)) (granted (dc_grants ctx))"
      "charge = (case declared_write_bytes (tc_name tc) (tc_arguments tc) of Some n \<Rightarrow> n | None \<Rightarrow> 0)"
    using p keys by (auto simp: policy_verdict_def Let_def split: tool_policy.splits if_splits)
  have "?keys \<noteq> []" using j(3) keys by (auto simp: uncovered_keys_def)
  moreover have "uncovered_keys ?keys (is_safe (at_safe_keys st)) (granted ?g) = []"
    using j(3) scope by (auto simp: uncovered_keys_def filter_empty_conv granted_grant)
  ultimately have "all_covered ?keys (is_safe (at_safe_keys st)) (granted ?g)"
    by (simp add: all_covered_def)
  then show ?thesis using j by (simp add: policy_verdict_def Let_def)
qed

text \<open>
  C35: An approval that lasts settles the call. When a call is put to a person with something to
  remember, and the person approves it for the stage or the run, the same call at the same stage
  under the grants they made is never put to them again, whatever the run has written by then: it
  runs and is charged the same bytes, or the write ceilings no longer leave room for it and it is
  refused for that. A question with nothing to remember, about a line that cannot be read or one
  that names something outside, is asked again.
\<close>

theorem approval_is_remembered:
  assumes asked: "decide_call st tc ctx = Ask keys charge"
    and keys: "keys \<noteq> []"
    and scope: "scope = Some ScopeStage \<or> scope = Some ScopeRun"
  shows "decide_call st tc (ctx\<lparr>dc_grants := grant scope keys (dc_grants ctx), dc_written := u\<rparr>) =
    (case write_budget_refusal (at_escapes st) (tc_name tc) (tc_arguments tc) (at_limits st) (at_available st) u of
       Some why \<Rightarrow> Refuse (Fenced (OverBudget why))
     | None \<Rightarrow> Run charge)"
proof -
  let ?g = "grant scope keys (dc_grants ctx)"
  from decide_call_policy [OF asked] obtain configured decision where
    p: "policy_verdict st tc ctx configured decision = Ask keys charge"
    and again: "decide_call st tc (ctx\<lparr>dc_grants := ?g, dc_written := u\<rparr>) =
      (case fence st tc u (dc_stage_index ctx) of Some refused \<Rightarrow> Refuse (Fenced refused)
       | None \<Rightarrow> policy_verdict st tc (ctx\<lparr>dc_grants := ?g, dc_written := u\<rparr>) configured decision)"
    and f: "fence st tc (dc_written ctx) (dc_stage_index ctx) = None"
    by blast
  show ?thesis
    by (simp add: again policy_after_grant [OF p keys scope] fence_later [OF f] split: option.split)
qed

theorem approval_is_remembered_witness:
  "decide_call ex_attended (ex_shell_call ''c1'' ''c>y'') ex_ctx = Ask [''shell:>y'', ''shell:c''] 0 \<and>
   decide_call ex_attended (ex_shell_call ''c1'' ''c>y'') (ex_ctx\<lparr>dc_grants := grant (Some ScopeRun)
      [''shell:>y'', ''shell:c''] (dc_grants ex_ctx), dc_written := 7\<rparr>) = Run 0"
proof -
  have keys: "command_keys True ''c>y'' = [''shell:>y'', ''shell:c'']" by code_simp
  have "\<not> all_covered [''shell:>y'', ''shell:c''] (is_safe [(''shell:ls'', SafeConfig)]) (granted ex_write_grants)"
    "uncovered_keys [''shell:>y'', ''shell:c''] (is_safe [(''shell:ls'', SafeConfig)]) (granted ex_write_grants)
      = [''shell:>y'', ''shell:c'']" by code_simp+
  then have asked: "decide_call ex_attended (ex_shell_call ''c1'' ''c>y'') ex_ctx = Ask [''shell:>y'', ''shell:c''] 0"
    using ex_attended_decides [of "''c>y''" "''c1''" ex_write_grants] ex_lines_inside(3) by (simp add: ex_ctx_def keys)
  have "write_budget_refusal (at_escapes ex_attended) (tc_name (ex_shell_call ''c1'' ''c>y''))
      (tc_arguments (ex_shell_call ''c1'' ''c>y'')) (at_limits ex_attended) (at_available ex_attended) 7 = None"
    using ex_fence [of 7] by (simp add: ex_attended_def ex_tools_def ex_shell_call_def)
  with approval_is_remembered [OF asked, of "Some ScopeRun" 7] asked show ?thesis by simp
qed

end
