(* ===== verification/Lane_Properties.thy ===== *)
theory Lane_Properties
  imports Tool_Properties
begin

text \<open>
  A batch of calls from the first judgement to the last answer: its runs as an inductive
  relation, and what holds of every batch that is reached.
\<close>

subsection \<open>The runs of a batch\<close>

text \<open>
  A batch with nothing asked is judged on; a batch that waits on a person is answered. The
  trace keeps each question with its answer.
\<close>

inductive lane_run :: "agent_tools \<Rightarrow> nat \<Rightarrow> lane \<Rightarrow> (ask \<times> answer) list \<Rightarrow> lane \<Rightarrow> bool" where
  lane_start: "lane_run st i l [] l"
| lane_judge: "lane_run st i l0 tr l \<Longrightarrow> ln_awaiting l = None \<Longrightarrow> lane_run st i l0 tr (dispatch st i l)"
| lane_answer: "lane_run st i l0 tr l \<Longrightarrow> ln_awaiting l = Some asked \<Longrightarrow>
    lane_run st i l0 (tr @ [(asked, a)]) (collect_approval (ask_call_id asked) a asked l)"

definition fresh_lane :: "lane \<Rightarrow> bool" where
  "fresh_lane l \<longleftrightarrow> b_decided (ln_batch l) = [] \<and> ln_awaiting l = None"

text \<open>The grants a person has made by a point of the trace: only an approval makes any.\<close>

fun grants_after :: "tool_grants \<Rightarrow> (ask \<times> answer) list \<Rightarrow> tool_grants" where
  "grants_after g [] = g"
| "grants_after g ((q, a) # tr) =
     grants_after (case a of Approved scope \<Rightarrow> grant scope (ask_keys q) g | _ \<Rightarrow> g) tr"

lemma grants_after_append: "grants_after g (tr @ tr') = grants_after (grants_after g tr) tr'"
  by (induction g tr rule: grants_after.induct) auto

text \<open>What a judgement of some of the calls leaves, and the question it stops at.\<close>

lemma decide_calls_kept:
  "decide_calls st g i cs b w = (b', w', asked) \<Longrightarrow> b_calls b' = b_calls b \<and> b_kind b' = b_kind b"
  by (induction st g i cs b w rule: decide_calls.induct)
     (auto simp: batch_decide_def split: if_splits sum.splits)

lemma settle_run: "settle kind c v = Inr (DecidedRun, charge) \<Longrightarrow> v = Run charge"
  by (auto simp: settle_def split: call_verdict.splits if_splits)

lemma settle_ask: "settle kind c v = Inl asked \<Longrightarrow>
    v = Ask (ask_keys asked) (ask_charge asked) \<and> ask_call_id asked = tc_id c"
  by (auto simp: settle_def split: call_verdict.splits if_splits)

lemma settle_charge: "settle kind c v = Inr (d, charge) \<Longrightarrow> charge = 0 \<or> v = Run charge"
  by (auto simp: settle_def split: call_verdict.splits if_splits)

lemma decide_calls_keeps_decision:
  "decide_calls st g i cs b w = (b', w', asked) \<Longrightarrow> map_of (b_decided b) cid = Some d \<Longrightarrow>
   map_of (b_decided b') cid = Some d"
proof (induction st g i cs b w rule: decide_calls.induct)
  case (2 st g i c cs b w)
  show ?case
  proof (cases "map_of (b_decided b) (tc_id c)")
    case undecided: None
    with "2.prems"(2) have "cid \<noteq> tc_id c" by auto
    with 2 undecided show ?thesis by (auto simp: batch_decide_def update_conv' split: sum.splits)
  qed (use 2 in auto)
qed simp

lemma saturating_add_grows: "w \<le> usize_max \<Longrightarrow> w \<le> saturating_add w n \<and> saturating_add w n \<le> usize_max"
  by (simp add: saturating_add_def)

lemma decide_calls_written:
  "decide_calls st g i cs b w = (b', w', asked) \<Longrightarrow> w \<le> usize_max \<Longrightarrow> w \<le> w' \<and> w' \<le> usize_max"
proof (induction st g i cs b w rule: decide_calls.induct)
  case (2 st g i c cs b w)
  then show ?case using saturating_add_grows [OF "2.prems"(2)]
    by (auto split: if_splits sum.splits prod.splits) (meson order_trans)
qed simp

text \<open>
  Every decision a judgement adds is the one the layers of permission came to, under the grants
  the batch stood at and a total between the ones it began and ended with.
\<close>

lemma decide_calls_decision:
  assumes "decide_calls st g i cs b w = (b', w', asked)" "map_of (b_decided b') cid = Some d"
    "map_of (b_decided b) cid \<noteq> Some d" "w \<le> usize_max"
  shows "\<exists>c \<in> set cs. \<exists>u charge. tc_id c = cid \<and> w \<le> u \<and> u \<le> w' \<and>
    settle (b_kind b) c (decide_call st c \<lparr>dc_grants = g, dc_written = u, dc_stage_index = i\<rparr>) = Inr (d, charge)"
  using assms
proof (induction st g i cs b w rule: decide_calls.induct)
  case (2 st g i c cs b w)
  show ?case
  proof (cases "map_of (b_decided b) (tc_id c) \<noteq> None")
    case True
    with 2 show ?thesis by auto
  next
    case undecided: False
    let ?ctx = "\<lparr>dc_grants = g, dc_written = w, dc_stage_index = i\<rparr>"
    show ?thesis
    proof (cases "settle (b_kind b) c (decide_call st c ?ctx)")
      case (Inl asked')
      then show ?thesis using "2.prems" undecided by simp
    next
      case (Inr p)
      obtain dc charge where p: "p = (dc, charge)" by force
      let ?b = "batch_decide (tc_id c) dc b"
      have rest: "decide_calls st g i cs ?b (saturating_add w charge) = (b', w', asked)"
        using "2.prems"(1) undecided Inr p by simp
      note grows = saturating_add_grows [OF "2.prems"(4), of charge]
      show ?thesis
      proof (cases "map_of (b_decided ?b) cid = Some d")
        case True
        then have "tc_id c = cid" "dc = d"
          using "2.prems"(3) by (auto simp: batch_decide_def update_conv' split: if_splits)
        then show ?thesis
          using Inr p decide_calls_written [OF rest] grows
          by (intro bexI [of _ c] exI [of _ w] exI [of _ charge]) auto
      next
        case False
        from "2.IH"(2) [OF undecided Inr p [symmetric] rest "2.prems"(2) False] grows
        show ?thesis by (fastforce simp: batch_decide_def)
      qed
    qed
  qed
qed simp

lemma decide_calls_run:
  assumes "decide_calls st g i cs b w = (b', w', asked)" "map_of (b_decided b') cid = Some DecidedRun"
    "map_of (b_decided b) cid \<noteq> Some DecidedRun" "w \<le> usize_max"
  shows "\<exists>c \<in> set cs. \<exists>u charge. tc_id c = cid \<and> w \<le> u \<and> u \<le> w' \<and>
    decide_call st c \<lparr>dc_grants = g, dc_written = u, dc_stage_index = i\<rparr> = Run charge"
  using decide_calls_decision [OF assms] by (auto dest!: settle_run)

lemma decide_calls_asked:
  assumes "decide_calls st g i cs b w = (b', w', Some asked)"
  shows "\<exists>c \<in> set cs. tc_id c = ask_call_id asked \<and>
    decide_call st c \<lparr>dc_grants = g, dc_written = w', dc_stage_index = i\<rparr> = Ask (ask_keys asked) (ask_charge asked)"
  using assms
  by (induction st g i cs b w rule: decide_calls.induct)
     (auto split: if_splits sum.splits dest!: settle_ask)

lemma decide_calls_keeps:
  "decide_calls st g i cs b w = (b', w', asked) \<Longrightarrow> map_of (b_decided b) cid \<noteq> None \<Longrightarrow>
   map_of (b_decided b') cid \<noteq> None"
  by (induction st g i cs b w rule: decide_calls.induct)
     (auto simp: batch_decide_def update_conv' split: if_splits sum.splits)

lemma decide_calls_all:
  assumes "decide_calls st g i cs b w = (b', w', None)" "c \<in> set cs"
  shows "map_of (b_decided b') (tc_id c) \<noteq> None"
proof -
  show ?thesis using assms
  proof (induction st g i cs b w rule: decide_calls.induct)
    case (2 st g i c' cs b w)
    show ?case
    proof (cases "map_of (b_decided b) (tc_id c') \<noteq> None")
      case True
      then have rest: "decide_calls st g i cs b w = (b', w', None)" using "2.prems"(1) by simp
      from decide_calls_keeps [OF this True] "2.IH"(1) [OF True this] "2.prems"(2) show ?thesis by auto
    next
      case undecided: False
      then obtain d charge where d: "settle (b_kind b) c' (decide_call st c' \<lparr>dc_grants = g, dc_written = w, dc_stage_index = i\<rparr>)
          = Inr (d, charge)" "decide_calls st g i cs (batch_decide (tc_id c') d b) (saturating_add w charge) = (b', w', None)"
        using "2.prems"(1) by (auto split: sum.splits)
      have "map_of (b_decided (batch_decide (tc_id c') d b)) (tc_id c') \<noteq> None"
        by (simp add: batch_decide_def update_conv')
      from decide_calls_keeps [OF d(2) this] show ?thesis
        using "2.IH"(2) [OF undecided d(1) refl d(2)] "2.prems"(2) by auto
    qed
  qed simp
qed


subsection \<open>Who let a call run\<close>

text \<open>The question a batch is held on is one the layers ask, about one of its calls, as it stands.\<close>

definition asked_of :: "agent_tools \<Rightarrow> nat \<Rightarrow> lane \<Rightarrow> ask \<Rightarrow> bool" where
  "asked_of st i l q \<longleftrightarrow> (\<exists>c \<in> set (b_calls (ln_batch l)). tc_id c = ask_call_id q \<and>
     decide_call st c \<lparr>dc_grants = ln_grants l, dc_written = ln_written l, dc_stage_index = i\<rparr>
       = Ask (ask_keys q) (ask_charge q))"

text \<open>
  Who let a call run: at some point of the trace, under the grants the answers before it made
  and a total the run had been charged by then, the layers let it run, or asked about it and the
  next answer of the trace approves that question.
\<close>

definition let_run :: "agent_tools \<Rightarrow> nat \<Rightarrow> lane \<Rightarrow> lane \<Rightarrow> (ask \<times> answer) list \<Rightarrow> string \<Rightarrow> bool" where
  "let_run st i l0 l tr cid \<longleftrightarrow> (\<exists>c \<in> set (b_calls (ln_batch l0)). \<exists>before after w.
     tc_id c = cid \<and> tr = before @ after \<and> ln_written l0 \<le> w \<and> w \<le> ln_written l \<and>
     (case decide_call st c \<lparr>dc_grants = grants_after (ln_grants l0) before, dc_written = w, dc_stage_index = i\<rparr> of
        Run charge \<Rightarrow> True
      | Ask keys charge \<Rightarrow> (\<exists>q scope rest. after = (q, Approved scope) # rest \<and>
          ask_call_id q = cid \<and> ask_keys q = keys \<and> ask_charge q = charge)
      | _ \<Rightarrow> False))"

lemma dispatch_fields:
  assumes "decide_in_order st (ln_grants l) i (ln_batch l) (ln_written l) = (b, w, asked)"
  shows "ln_batch (dispatch st i l) = b" "ln_written (dispatch st i l) = w"
    "ln_awaiting (dispatch st i l) = asked" "ln_grants (dispatch st i l) = ln_grants l"
    "b_calls (ln_batch (dispatch st i l)) = b_calls (ln_batch l)"
  using assms decide_calls_kept [of st "ln_grants l" i "b_calls (ln_batch l)" "ln_batch l" "ln_written l" b w asked]
  by (simp_all add: dispatch_def decide_in_order_def)

lemma collect_calls [simp]: "b_calls (ln_batch (collect_approval cid a asked l)) = b_calls (ln_batch l)"
  "ln_awaiting (collect_approval cid a asked l) = None"
  by (auto simp: collect_approval_def Let_def batch_decide_def split: answer.split)

lemma collect_decided:
  "map_of (b_decided (ln_batch (collect_approval oid a asked l))) cid = Some DecidedRun \<Longrightarrow>
   map_of (b_decided (ln_batch l)) cid = Some DecidedRun \<or>
   cid = oid \<and> (\<exists>scope. a = Approved scope)"
  by (auto simp: collect_approval_def Let_def batch_decide_def update_conv' split: answer.splits if_splits)

lemma lane_run_calls: "lane_run st i l0 tr l \<Longrightarrow> b_calls (ln_batch l) = b_calls (ln_batch l0)"
proof (induction rule: lane_run.induct)
  case (lane_judge st i l0 tr l)
  obtain b w asked where "decide_in_order st (ln_grants l) i (ln_batch l) (ln_written l) = (b, w, asked)"
    by (cases "decide_in_order st (ln_grants l) i (ln_batch l) (ln_written l)") auto
  from dispatch_fields(5) [OF this] lane_judge.IH show ?case by simp
qed simp_all

lemma lane_run_asked:
  "lane_run st i l0 tr l \<Longrightarrow> ln_awaiting l0 = None \<Longrightarrow> ln_awaiting l = Some asked \<Longrightarrow> asked_of st i l asked"
proof (induction rule: lane_run.induct)
  case (lane_judge st i l0 tr l)
  obtain b w where d: "decide_in_order st (ln_grants l) i (ln_batch l) (ln_written l) = (b, w, Some asked)"
    using lane_judge.prems(2)
    by (cases "decide_in_order st (ln_grants l) i (ln_batch l) (ln_written l)") (auto simp: dispatch_def)
  from decide_calls_asked [OF d [unfolded decide_in_order_def]] show ?case
    by (auto simp: asked_of_def dispatch_fields(2,4,5) [OF d])
qed simp_all

lemma lane_run_grants: "lane_run st i l0 tr l \<Longrightarrow> ln_grants l = grants_after (ln_grants l0) tr"
proof (induction rule: lane_run.induct)
  case (lane_judge st i l0 tr l)
  obtain b w asked where "decide_in_order st (ln_grants l) i (ln_batch l) (ln_written l) = (b, w, asked)"
    by (cases "decide_in_order st (ln_grants l) i (ln_batch l) (ln_written l)") auto
  from dispatch_fields(4) [OF this] lane_judge.IH show ?case by simp
qed (auto simp: grants_after_append collect_approval_def Let_def split: answer.split)

lemma dispatch_written:
  "ln_written l \<le> usize_max \<Longrightarrow> ln_written l \<le> ln_written (dispatch st i l) \<and> ln_written (dispatch st i l) \<le> usize_max"
  by (cases "decide_in_order st (ln_grants l) i (ln_batch l) (ln_written l)")
     (auto simp: dispatch_def decide_in_order_def dest: decide_calls_written)

lemma collect_written:
  "ln_written l \<le> usize_max \<Longrightarrow> ln_written l \<le> ln_written (collect_approval cid a q l) \<and>
   ln_written (collect_approval cid a q l) \<le> usize_max"
  using saturating_add_grows by (auto simp: collect_approval_def Let_def split: answer.split)

lemma lane_run_written:
  "lane_run st i l0 tr l \<Longrightarrow> ln_written l0 \<le> usize_max \<Longrightarrow> ln_written l0 \<le> ln_written l \<and> ln_written l \<le> usize_max"
proof (induction rule: lane_run.induct)
  case (lane_judge st i l0 tr l)
  then show ?case using dispatch_written [of l st i] by auto
next
  case (lane_answer st i l0 tr l asked a)
  then show ?case using collect_written [of l "ask_call_id asked" a asked] by auto
qed simp

lemma let_run_mono:
  assumes "let_run st i l0 l tr cid" "ln_written l \<le> ln_written l'"
  shows "let_run st i l0 l' (tr @ tr') cid"
proof -
  from assms(1) obtain c before after w where c: "c \<in> set (b_calls (ln_batch l0))" "tc_id c = cid"
      "tr = before @ after" "ln_written l0 \<le> w" "w \<le> ln_written l"
      "case decide_call st c \<lparr>dc_grants = grants_after (ln_grants l0) before, dc_written = w, dc_stage_index = i\<rparr> of
         Run charge \<Rightarrow> True
       | Ask keys charge \<Rightarrow> (\<exists>q scope rest. after = (q, Approved scope) # rest \<and>
           ask_call_id q = cid \<and> ask_keys q = keys \<and> ask_charge q = charge)
       | _ \<Rightarrow> False"
    unfolding let_run_def by blast
  show ?thesis
    unfolding let_run_def
    using c assms(2)
    by (intro bexI [of _ c] exI [of _ before] exI [of _ "after @ tr'"] exI [of _ w])
       (auto split: call_verdict.splits)
qed

text \<open>The two warrants, as a judgement and an answer give them.\<close>

lemma judged_let_run:
  assumes run: "lane_run st i l0 tr l" and w: "ln_written l0 \<le> usize_max"
    and decided: "map_of (b_decided (ln_batch (dispatch st i l))) cid = Some DecidedRun"
      "map_of (b_decided (ln_batch l)) cid \<noteq> Some DecidedRun"
  shows "let_run st i l0 (dispatch st i l) tr cid"
proof -
  obtain b w' asked where d: "decide_in_order st (ln_grants l) i (ln_batch l) (ln_written l) = (b, w', asked)"
    by (cases "decide_in_order st (ln_grants l) i (ln_batch l) (ln_written l)") auto
  note grown = lane_run_written [OF run w]
  then obtain c u charge where "c \<in> set (b_calls (ln_batch l))" "tc_id c = cid" "ln_written l \<le> u" "u \<le> w'"
      "decide_call st c \<lparr>dc_grants = ln_grants l, dc_written = u, dc_stage_index = i\<rparr> = Run charge"
    using decided decide_calls_run [OF d [unfolded decide_in_order_def], of cid]
    by (auto simp: dispatch_fields(1) [OF d])
  then show ?thesis
    using lane_run_calls [OF run] lane_run_grants [OF run] grown
    unfolding let_run_def
    by (intro bexI [of _ c] exI [of _ tr] exI [of _ "[]"] exI [of _ u]) (auto simp: dispatch_fields(2) [OF d])
qed

lemma approved_let_run:
  assumes run: "lane_run st i l0 tr l" and l0: "fresh_lane l0" "ln_written l0 \<le> usize_max"
    and asked: "ln_awaiting l = Some q" and "ln_written l \<le> ln_written l'"
  shows "let_run st i l0 l' (tr @ [(q, Approved scope)]) (ask_call_id q)"
proof -
  have "asked_of st i l q" using lane_run_asked [OF run _ asked] l0(1) by (simp add: fresh_lane_def)
  then obtain c where "c \<in> set (b_calls (ln_batch l))" "tc_id c = ask_call_id q"
      "decide_call st c \<lparr>dc_grants = ln_grants l, dc_written = ln_written l, dc_stage_index = i\<rparr>
        = Ask (ask_keys q) (ask_charge q)"
    unfolding asked_of_def by blast
  then show ?thesis
    using lane_run_written [OF run l0(2)] assms(5) lane_run_calls [OF run] lane_run_grants [OF run]
    unfolding let_run_def
    by (intro bexI [of _ c] exI [of _ tr] exI [of _ "[(q, Approved scope)]"] exI [of _ "ln_written l"]) auto
qed

text \<open>
  C1: Nothing in a batch runs that was not let. A fresh batch is judged, put to a person and
  judged on, any number of times. A call that comes to be decided to run has one of two warrants
  at some point of that trace, under exactly the grants the approvals before that point made and
  a total the run had been charged by then: the layers of permission let it run unasked there,
  or they asked about it there and the very next answer approved that question. The total
  charged is a machine integer.
\<close>

theorem nothing_runs_unlet:
  assumes "lane_run st i l0 tr l" "fresh_lane l0" "ln_written l0 \<le> usize_max"
    and "map_of (b_decided (ln_batch l)) cid = Some DecidedRun"
  shows "let_run st i l0 l tr cid"
  using assms
proof (induction arbitrary: cid rule: lane_run.induct)
  case (lane_start st i l)
  then show ?case by (simp add: fresh_lane_def)
next
  case (lane_judge st i l0 tr l)
  show ?case
  proof (cases "map_of (b_decided (ln_batch l)) cid = Some DecidedRun")
    case True
    with lane_judge have "let_run st i l0 l tr cid" by simp
    from let_run_mono [OF this, of "dispatch st i l" "[]"] show ?thesis
      using dispatch_written lane_run_written [OF lane_judge.hyps(1) lane_judge.prems(2)] by simp
  qed (rule judged_let_run [OF lane_judge.hyps(1) lane_judge.prems(2,3)])
next
  case (lane_answer st i l0 tr l q a)
  have grows: "ln_written l \<le> ln_written (collect_approval (ask_call_id q) a q l)"
    using collect_written lane_run_written [OF lane_answer.hyps(1) lane_answer.prems(2)] by blast
  from collect_decided [OF lane_answer.prems(3)] show ?case
  proof
    assume "map_of (b_decided (ln_batch l)) cid = Some DecidedRun"
    from lane_answer.IH [OF lane_answer.prems(1,2) this] grows show ?thesis by (rule let_run_mono)
  next
    assume "cid = ask_call_id q \<and> (\<exists>scope. a = Approved scope)"
    with approved_let_run [OF lane_answer.hyps(1) lane_answer.prems(1,2) lane_answer.hyps(2) grows]
    show ?thesis by blast
  qed
qed

subsection \<open>What a batch sends\<close>

lemma send_calls_result:
  "(\<forall>c \<in> set calls. map_of decided (tc_id c) \<noteq> None) \<Longrightarrow>
   send_calls calls decided =
     (if distinct (map tc_id calls) then Some (map (\<lambda>c. (c, the (map_of decided (tc_id c)))) calls) else None)"
proof (induction calls arbitrary: decided)
  case (Cons c cs)
  obtain d where d: "map_of decided (tc_id c) = Some d" using Cons.prems by auto
  let ?rest = "AList.delete (tc_id c) decided"
  show ?case
  proof (cases "tc_id c \<in> tc_id ` set cs")
    case True
    have "send_calls cs ?rest = None"
      using True
    proof (induction cs arbitrary: decided)
      case (Cons e es)
      show ?case
      proof (cases "tc_id e = tc_id c")
        case False
        then have "send_calls es (AList.delete (tc_id e) (AList.delete (tc_id c) decided)) = None"
          using Cons.IH [of "AList.delete (tc_id e) decided"] Cons.prems by (auto simp: AList.delete_twist)
        then show ?thesis by (auto simp: split: option.split)
      qed (simp add: delete_conv')
    qed simp
    then show ?thesis using True d by simp
  next
    case False
    then have "map_of ?rest (tc_id e) = map_of decided (tc_id e)" if "e \<in> set cs" for e
    proof -
      have "tc_id e \<noteq> tc_id c" using False imageI [OF that, of tc_id] by metis
      then show ?thesis by (simp add: delete_conv')
    qed
    then show ?thesis using Cons.IH [of ?rest] Cons.prems d False by (auto cong: map_cong)
  qed
qed simp

text \<open>
  C25: A batch that has been judged sends each of its calls with what was decided for that call,
  in order, when the calls have different ids. When a response repeats an id, the second call of
  the pair has no decision left to take, and the sending panics.
\<close>

theorem judged_batch_is_sent:
  assumes "ln_awaiting (dispatch st i l) = None"
  shows "let b = ln_batch (dispatch st i l) in
    send_calls (b_calls b) (b_decided b) =
      (if distinct (map tc_id (b_calls (ln_batch l)))
       then Some (map (\<lambda>c. (c, the (map_of (b_decided b) (tc_id c)))) (b_calls (ln_batch l)))
       else None)"
proof -
  obtain b w where d: "decide_in_order st (ln_grants l) i (ln_batch l) (ln_written l) = (b, w, None)"
    using assms by (cases "decide_in_order st (ln_grants l) i (ln_batch l) (ln_written l)") (auto simp: dispatch_def)
  from decide_calls_all [OF d [unfolded decide_in_order_def]]
  have "\<forall>c \<in> set (b_calls b). map_of (b_decided b) (tc_id c) \<noteq> None"
    using dispatch_fields(1,5) [OF d] by auto
  from send_calls_result [OF this] show ?thesis
    using dispatch_fields(1,5) [OF d] by (simp add: Let_def)
qed


subsection \<open>A batch nobody can be asked about\<close>

lemma decide_calls_stops_at:
  assumes "decide_calls st g i cs b w = (b', w', Some asked)"
  shows "map_of (b_decided b') (ask_call_id asked) = None"
  using assms
  by (induction st g i cs b w rule: decide_calls.induct) (auto split: if_splits sum.splits dest!: settle_ask)

lemma length_filter_drop:
  assumes "\<And>x. x \<in> set xs \<Longrightarrow> Q x \<Longrightarrow> P x" "x \<in> set xs" "P x" "\<not> Q x"
  shows "length (filter Q xs) < length (filter P xs)"
proof -
  have "filter Q xs = filter Q (filter P xs)" using assms(1) by (auto intro!: filter_cong)
  moreover have "length (filter Q (filter P xs)) < length (filter P xs)"
    using assms(2,3,4) by (intro length_filter_less [of x]) auto
  ultimately show ?thesis by simp
qed

definition undecided :: "batch \<Rightarrow> lane_call list" where
  "undecided b = filter (\<lambda>c. map_of (b_decided b) (tc_id c) = None) (b_calls b)"

lemma question_was_undecided:
  assumes "decide_in_order st g i b w = (b1, w1, Some asked)"
  shows "length (undecided (batch_decide (ask_call_id asked) d b1)) < length (undecided b)"
proof -
  note d = assms [unfolded decide_in_order_def]
  obtain c where c: "c \<in> set (b_calls b)" "tc_id c = ask_call_id asked" using decide_calls_asked [OF d] by auto
  have none: "map_of (b_decided b) (ask_call_id asked) = None"
    using decide_calls_keeps [OF d, of "ask_call_id asked"] decide_calls_stops_at [OF d] by (cases "map_of (b_decided b) (ask_call_id asked)") auto
  have "b_calls (batch_decide (ask_call_id asked) d b1) = b_calls b"
    using decide_calls_kept [OF d] by (simp add: batch_decide_def)
  moreover have "map_of (b_decided b) (tc_id x) = None"
    if "map_of (b_decided (batch_decide (ask_call_id asked) d b1)) (tc_id x) = None" for x
    using that decide_calls_keeps [OF d, of "tc_id x"]
    by (cases "map_of (b_decided b) (tc_id x)") (auto simp: batch_decide_def update_conv' split: if_splits)
  ultimately show ?thesis
    unfolding undecided_def using c none
    by (simp only:) (rule length_filter_drop [of _ _ _ c], auto simp: batch_decide_def update_conv')
qed

text \<open>
  What becomes of a verdict when nobody can be asked: it is carried out as it is, and a question
  is a refusal that says nobody answered.
\<close>

definition alone_decision :: "batch \<Rightarrow> lane_call \<Rightarrow> call_verdict \<Rightarrow> decision" where
  "alone_decision b c v =
     (case v of
        Run _ \<Rightarrow> DecidedRun
      | Refuse why \<Rightarrow> DecidedRefuse why
      | Interact attended \<Rightarrow>
          if b_kind b = ValidationBatch then DecidedRefuse (NoOneToAsk (tc_name c)) else DecidedInteract attended
      | Ask _ _ \<Rightarrow>
          DecidedRefuse (if b_kind b = ValidationBatch then NoOneToAsk (tc_name c) else Unanswered (tool_of b (tc_id c))))"

definition decided_by :: "agent_tools \<Rightarrow> tool_grants \<Rightarrow> nat \<Rightarrow> batch \<Rightarrow> nat \<Rightarrow> nat \<Rightarrow> string \<Rightarrow> decision \<Rightarrow> bool" where
  "decided_by st g i b w w' cid d \<longleftrightarrow> (\<exists>c \<in> set (b_calls b). \<exists>u. tc_id c = cid \<and> w \<le> u \<and> u \<le> w' \<and>
     d = alone_decision b c (decide_call st c \<lparr>dc_grants = g, dc_written = u, dc_stage_index = i\<rparr>))"

lemma decided_by_mono:
  "decided_by st g i b u u' cid d \<Longrightarrow> w \<le> u \<Longrightarrow> u' \<le> w' \<Longrightarrow> decided_by st g i b w w' cid d"
  unfolding decided_by_def by (meson order_trans)

lemma decided_by_same_calls:
  assumes "b_calls b' = b_calls b" "b_kind b' = b_kind b"
  shows "decided_by st g i b' w w' cid d \<longleftrightarrow> decided_by st g i b w w' cid d"
proof -
  have "alone_decision b' = alone_decision b"
    using assms by (auto simp: alone_decision_def tool_of_def call_of_def fun_eq_iff split: call_verdict.split)
  with assms show ?thesis by (simp add: decided_by_def)
qed

lemma settle_alone: "settle (b_kind b) c v = Inr (d, charge) \<Longrightarrow> d = alone_decision b c v"
  by (auto simp: settle_def alone_decision_def split: call_verdict.splits if_splits)

lemma decide_calls_asks_someone:
  "decide_calls st g i cs b w = (b', w', Some q) \<Longrightarrow> b_kind b \<noteq> ValidationBatch"
  by (induction st g i cs b w rule: decide_calls.induct)
     (auto simp: settle_def batch_decide_def split: if_splits sum.splits call_verdict.splits)

lemma judgement_decides:
  assumes "decide_in_order st g i b w = (b', w', asked)" "w \<le> usize_max"
    "map_of (b_decided b') cid = Some d" "map_of (b_decided b) cid \<noteq> Some d"
  shows "decided_by st g i b w w' cid d"
  using decide_calls_decision [OF assms(1) [unfolded decide_in_order_def] assms(3,4,2)]
  by (auto simp: decided_by_def dest!: settle_alone)

lemma question_decides:
  assumes "decide_in_order st g i b w = (b', w', Some q)" "w \<le> usize_max"
  shows "decided_by st g i b w w' (ask_call_id q) (DecidedRefuse (Unanswered (tool_of b' (ask_call_id q))))"
proof -
  note d = assms(1) [unfolded decide_in_order_def]
  obtain c where c: "c \<in> set (b_calls b)" "tc_id c = ask_call_id q"
      "decide_call st c \<lparr>dc_grants = g, dc_written = w', dc_stage_index = i\<rparr> = Ask (ask_keys q) (ask_charge q)"
    using decide_calls_asked [OF d] by auto
  have "tool_of b' = tool_of b" using decide_calls_kept [OF d] by (simp add: tool_of_def call_of_def fun_eq_iff)
  then show ?thesis
    using c decide_calls_asks_someone [OF d] decide_calls_written [OF d assms(2)]
    by (auto simp: decided_by_def alone_decision_def intro!: bexI [of _ c] exI [of _ w'])
qed

lemma alone_settles:
  assumes "length (undecided b) < turns" "w \<le> usize_max"
  shows "\<exists>b' w'. decide_alone turns st g i b w = Some (b', w') \<and> w \<le> w' \<and>
    (\<forall>c \<in> set (b_calls b). \<exists>d. map_of (b_decided b') (tc_id c) = Some d \<and>
      (map_of (b_decided b) (tc_id c) = Some d \<or> decided_by st g i b w w' (tc_id c) d))"
  using assms
proof (induction turns arbitrary: b w)
  case (Suc turns)
  obtain b1 w1 asked where d: "decide_in_order st g i b w = (b1, w1, asked)"
    by (cases "decide_in_order st g i b w") auto
  note d' = d [unfolded decide_in_order_def]
  note w1 = decide_calls_written [OF d' Suc.prems(2)]
  note judged = judgement_decides [OF d Suc.prems(2)]
  show ?case
  proof (cases asked)
    case None
    then show ?thesis using d w1 judged decide_calls_all [OF d' [unfolded None]] by fastforce
  next
    case (Some q)
    define r where "r = DecidedRefuse (Unanswered (tool_of b1 (ask_call_id q)))"
    define b2 where "b2 = batch_decide (ask_call_id q) r b1"
    have b2: "b_calls b2 = b_calls b" "b_kind b2 = b_kind b"
        "map_of (b_decided b2) cid = (if cid = ask_call_id q then Some r else map_of (b_decided b1) cid)" for cid
      using decide_calls_kept [OF d'] by (auto simp: b2_def batch_decide_def update_conv')
    have "length (undecided b2) < turns"
      using question_was_undecided [OF d [unfolded Some]] Suc.prems(1) unfolding b2_def
      by (meson less_trans_Suc not_less_eq order_less_le_trans less_Suc_eq_le)
    from Suc.IH [OF this, of w1] w1 obtain b' w' where rest: "decide_alone turns st g i b2 w1 = Some (b', w')" "w1 \<le> w'"
        "\<forall>c \<in> set (b_calls b). \<exists>d. map_of (b_decided b') (tc_id c) = Some d \<and>
          (map_of (b_decided b2) (tc_id c) = Some d \<or> decided_by st g i b2 w1 w' (tc_id c) d)"
      by (auto simp: b2(1))
    have "map_of (b_decided b) cid = Some x \<or> decided_by st g i b w w' cid x"
      if "map_of (b_decided b2) cid = Some x \<or> decided_by st g i b2 w1 w' cid x" for cid x
    proof -
      have "decided_by st g i b w w' cid x" if "decided_by st g i b w w1 cid x"
        using decided_by_mono [OF that order_refl rest(2)] .
      moreover have "decided_by st g i b w w' cid x" if "decided_by st g i b2 w1 w' cid x"
        using decided_by_mono [OF that _ order_refl] w1 decided_by_same_calls [OF b2(1,2)] by simp
      ultimately show ?thesis
        using that judged question_decides [OF d [unfolded Some] Suc.prems(2)]
        by (auto simp: b2(3) r_def split: if_splits)
    qed
    moreover have "decide_alone (Suc turns) st g i b w = Some (b', w')"
      using rest(1) by (simp add: d Some b2_def r_def)
    ultimately show ?thesis using rest(2,3) w1 by (intro exI [of _ b'] exI [of _ w']) fastforce
  qed
qed simp

text \<open>
  C24: A batch that nobody can be asked about is judged to its end. Within one turn more than it
  has calls every call is decided, none waits and no grant is made. Each is decided as the layers
  of permission judge it under the grants the batch began with and a total the run had been
  charged by then: what they let run unasked runs, what they refuse is refused for their reason,
  and what they would have asked about is refused as unanswered.
\<close>

theorem batch_alone_is_settled:
  assumes "fresh_lane l" "ln_written l \<le> usize_max"
  shows "\<exists>l'. dispatch_alone st i l = Some l' \<and> ln_awaiting l' = None \<and> ln_grants l' = ln_grants l \<and>
    (\<forall>c \<in> set (b_calls (ln_batch l)). \<exists>d. map_of (b_decided (ln_batch l')) (tc_id c) = Some d \<and>
      decided_by st (ln_grants l) i (ln_batch l) (ln_written l) (ln_written l') (tc_id c) d)"
proof -
  have "length (undecided (ln_batch l)) < Suc (length (b_calls (ln_batch l)))"
    by (simp add: undecided_def less_Suc_eq_le)
  from alone_settles [OF this assms(2), of st "ln_grants l" i] assms(1) show ?thesis
    by (fastforce simp: dispatch_alone_def fresh_lane_def)
qed

subsection \<open>An example batch\<close>

definition ex_lane :: lane where
  "ex_lane = \<lparr>ln_batch = \<lparr>b_calls = [ex_shell_call ''1'' ''ls'', ex_shell_call ''2'' ''c''], b_decided = [], b_kind = TurnBatch\<rparr>,
     ln_grants = grants_default, ln_written = 0, ln_awaiting = None\<rparr>"

definition ex_asked :: ask where
  "ex_asked = \<lparr>ask_call_id = ''2'', ask_keys = [''shell:c''], ask_charge = 0\<rparr>"

lemma ex_verdicts:
  "decide_call ex_attended (ex_shell_call i ''ls'') \<lparr>dc_grants = grants_default, dc_written = 0, dc_stage_index = 0\<rparr> = Run 0"
  "decide_call ex_attended (ex_shell_call i ''c'') \<lparr>dc_grants = grants_default, dc_written = 0, dc_stage_index = 0\<rparr>
     = Ask [''shell:c''] 0"
proof -
  have keys: "command_keys True ''ls'' = [''shell:ls'']" "command_keys True ''c'' = [''shell:c'']" by code_simp+
  have safe: "is_safe [(''shell:ls'', SafeConfig)] ''shell:ls''" "\<not> is_safe [(''shell:ls'', SafeConfig)] ''shell:c''"
    "\<not> is_safe [(''shell:ls'', SafeConfig)] (program_of ''shell:c'')" "\<not> granted grants_default ''shell:c''"
    by code_simp+
  have ctx: "\<lparr>dc_grants = grants_default, dc_written = 0, dc_stage_index = 0\<rparr> = ex_ctx\<lparr>dc_grants := grants_default\<rparr>"
    by (simp add: ex_ctx_def)
  show "decide_call ex_attended (ex_shell_call i ''ls'') \<lparr>dc_grants = grants_default, dc_written = 0, dc_stage_index = 0\<rparr> = Run 0"
    "decide_call ex_attended (ex_shell_call i ''c'') \<lparr>dc_grants = grants_default, dc_written = 0, dc_stage_index = 0\<rparr>
      = Ask [''shell:c''] 0"
    by (simp_all add: ctx ex_attended_decides ex_lines_inside keys all_covered_def uncovered_keys_def safe Let_def)
qed

lemma ex_judged:
  "dispatch ex_attended 0 ex_lane =
    \<lparr>ln_batch = \<lparr>b_calls = [ex_shell_call ''1'' ''ls'', ex_shell_call ''2'' ''c''],
       b_decided = [(''1'', DecidedRun)], b_kind = TurnBatch\<rparr>,
     ln_grants = grants_default, ln_written = 0, ln_awaiting = Some ex_asked\<rparr>"
proof -
  note ex_verdicts
  moreover have "tc_id (ex_shell_call i c) = i" for i c by (simp add: ex_shell_call_def)
  moreover have "saturating_add 0 0 = 0" by (simp add: saturating_add_def)
  ultimately show ?thesis
    by (simp add: dispatch_def decide_in_order_def ex_lane_def settle_def batch_decide_def ex_asked_def)
qed

text \<open>The example judged, approved once, and judged again.\<close>

definition ex_answered :: lane where
  "ex_answered =
    \<lparr>ln_batch = \<lparr>b_calls = [ex_shell_call ''1'' ''ls'', ex_shell_call ''2'' ''c''],
       b_decided = [(''1'', DecidedRun), (''2'', DecidedRun)], b_kind = TurnBatch\<rparr>,
     ln_grants = grants_default, ln_written = 0, ln_awaiting = None\<rparr>"

lemma ex_answer: "collect_approval ''2'' (Approved (Some ScopeOnce)) ex_asked (dispatch ex_attended 0 ex_lane) = ex_answered"
  by (simp add: ex_judged collect_approval_def ex_asked_def batch_decide_def grant_def ex_answered_def
      saturating_add_def Let_def)

lemma ex_again: "dispatch ex_attended 0 ex_answered = ex_answered"
  by (simp add: dispatch_def decide_in_order_def ex_answered_def ex_shell_call_def)

lemma ex_run: "lane_run ex_attended 0 ex_lane [(ex_asked, Approved (Some ScopeOnce))] ex_answered"
proof -
  have "lane_run ex_attended 0 ex_lane [] (dispatch ex_attended 0 ex_lane)"
    by (intro lane_judge lane_start) (simp add: ex_lane_def)
  from lane_answer [OF this, of ex_asked "Approved (Some ScopeOnce)"] ex_answer show ?thesis
    by (simp add: ex_judged ex_asked_def)
qed

theorem nothing_runs_unlet_witness:
  "let_run ex_attended 0 ex_lane ex_answered [(ex_asked, Approved (Some ScopeOnce))] ''2'' \<and>
   \<not> let_run ex_attended 0 ex_lane ex_answered [] ''2''"
proof
  show "let_run ex_attended 0 ex_lane ex_answered [(ex_asked, Approved (Some ScopeOnce))] ''2''"
    by (rule nothing_runs_unlet [OF ex_run]) (simp_all add: fresh_lane_def ex_lane_def ex_answered_def)
  show "\<not> let_run ex_attended 0 ex_lane ex_answered [] ''2''"
    using ex_verdicts(2) by (auto simp: let_run_def ex_lane_def ex_answered_def ex_shell_call_def)
qed

theorem judged_batch_is_sent_witness:
  "send_calls (b_calls (ln_batch ex_answered)) (b_decided (ln_batch ex_answered)) =
     Some [(ex_shell_call ''1'' ''ls'', DecidedRun), (ex_shell_call ''2'' ''c'', DecidedRun)]"
proof -
  have "ln_awaiting (dispatch ex_attended 0 ex_answered) = None" by (simp add: ex_again) (simp add: ex_answered_def)
  from judged_batch_is_sent [OF this] show ?thesis
    by (simp add: ex_again Let_def) (simp add: ex_answered_def ex_shell_call_def)
qed

theorem batch_alone_is_settled_witness:
  "\<exists>l'. dispatch_alone ex_attended 0 ex_lane = Some l' \<and>
     map_of (b_decided (ln_batch l')) ''1'' = Some DecidedRun \<and>
     map_of (b_decided (ln_batch l')) ''2'' = Some (DecidedRefuse (Unanswered ''bash'')) \<and>
     decided_by ex_attended grants_default 0 (ln_batch ex_lane) 0 0 ''2'' (DecidedRefuse (Unanswered ''bash''))"
proof -
  have lane: "fresh_lane ex_lane" "ln_written ex_lane \<le> usize_max" by (simp_all add: fresh_lane_def ex_lane_def)
  have judged: "decide_in_order ex_attended grants_default 0 (ln_batch ex_lane) 0 =
      (\<lparr>b_calls = [ex_shell_call ''1'' ''ls'', ex_shell_call ''2'' ''c''],
        b_decided = [(''1'', DecidedRun)], b_kind = TurnBatch\<rparr>, 0, Some ex_asked)"
    using ex_judged by (auto simp: dispatch_def ex_lane_def split: prod.splits)
  have fields: "tc_id (ex_shell_call n c) = n" "tc_name (ex_shell_call n c) = ''bash''" for n c
    by (simp_all add: ex_shell_call_def)
  have alone: "dispatch_alone ex_attended 0 ex_lane = Some (ex_lane\<lparr>ln_batch :=
      \<lparr>b_calls = [ex_shell_call ''1'' ''ls'', ex_shell_call ''2'' ''c''],
       b_decided = [(''1'', DecidedRun), (''2'', DecidedRefuse (Unanswered ''bash''))], b_kind = TurnBatch\<rparr>\<rparr>)"
    using judged
    by (simp add: dispatch_alone_def ex_lane_def)
       (simp add: decide_in_order_def batch_decide_def tool_of_def call_of_def ex_asked_def fields)
  from batch_alone_is_settled [OF lane, of ex_attended 0]
  have "decided_by ex_attended grants_default 0 (ln_batch ex_lane) 0 0 ''2'' (DecidedRefuse (Unanswered ''bash''))"
    by (simp add: alone) (simp add: ex_lane_def fields)
  then show ?thesis by (simp add: alone)
qed

subsection \<open>The write budget\<close>

lemma policy_verdict_charge:
  "policy_verdict st tc ctx c d = Run n \<or> policy_verdict st tc ctx c d = Ask ks n \<Longrightarrow>
   n = (case declared_write_bytes (tc_name tc) (tc_arguments tc) of Some n \<Rightarrow> n | None \<Rightarrow> 0)"
  by (cases "case d of None \<Rightarrow> c | Some x \<Rightarrow> fst x") (auto simp: policy_verdict_def Let_def split: if_splits)

lemma decide_call_charge:
  assumes "decide_call st tc ctx = Run charge \<or> decide_call st tc ctx = Ask keys charge"
    and limit: "wl_per_run (at_limits st) = Some limit"
  shows "saturating_add (dc_written ctx) charge \<le> max (dc_written ctx) limit"
proof -
  let ?declared = "declared_write_bytes (tc_name tc) (tc_arguments tc)"
  have f: "fence st tc (dc_written ctx) (dc_stage_index ctx) = None"
    and p: "\<exists>configured decision. policy_verdict st tc ctx configured decision = Run charge \<or>
        policy_verdict st tc ctx configured decision = Ask keys charge"
    using assms(1) by (auto simp: decide_call_def Let_def split: if_splits option.splits)
  then have charge: "charge = (case ?declared of Some n \<Rightarrow> n | None \<Rightarrow> 0)"
    using policy_verdict_charge by blast
  from f have "write_budget_refusal (at_escapes st) (tc_name tc) (tc_arguments tc) (at_limits st) (at_available st)
      (dc_written ctx) = None"
    by (auto simp: fence_def or_else_def split: option.splits)
  then show ?thesis
    using charge limit
    by (auto simp: write_budget_refusal_def check_write_def write_refusal_def over_def Let_def saturating_add_def
        split: option.splits if_splits)
qed

definition within_budget :: "agent_tools \<Rightarrow> lane \<Rightarrow> nat \<Rightarrow> bool" where
  "within_budget st l cap \<longleftrightarrow> ln_written l \<le> cap \<and>
     (\<forall>asked. ln_awaiting l = Some asked \<longrightarrow> saturating_add (ln_written l) (ask_charge asked) \<le> cap)"

lemma decide_calls_budget:
  assumes "decide_calls st g i cs b w = (b', w', asked)" "wl_per_run (at_limits st) = Some limit"
    "w \<le> cap" "limit \<le> cap"
  shows "w' \<le> cap \<and> (\<forall>q. asked = Some q \<longrightarrow> saturating_add w' (ask_charge q) \<le> cap)"
  using assms
proof (induction st g i cs b w rule: decide_calls.induct)
  case (2 st g i c cs b w)
  let ?ctx = "\<lparr>dc_grants = g, dc_written = w, dc_stage_index = i\<rparr>"
  show ?case
  proof (cases "map_of (b_decided b) (tc_id c) \<noteq> None")
    case True
    with 2 show ?thesis by auto
  next
    case undecided: False
    show ?thesis
    proof (cases "settle (b_kind b) c (decide_call st c ?ctx)")
      case (Inl q)
      then have "decide_call st c ?ctx = Ask (ask_keys q) (ask_charge q)" by (auto dest: settle_ask)
      from decide_call_charge [OF disjI2 [OF this] "2.prems"(2)] show ?thesis
        using "2.prems" undecided Inl by auto
    next
      case (Inr p)
      obtain d charge where p: "p = (d, charge)" by force
      have "saturating_add w charge \<le> cap"
        using settle_charge [OF Inr [unfolded p]]
      proof
        assume "charge = 0"
        then show ?thesis using "2.prems"(3) by (simp add: saturating_add_def)
      next
        assume "decide_call st c ?ctx = Run charge"
        from decide_call_charge [OF disjI1 [OF this] "2.prems"(2)] show ?thesis using "2.prems"(3,4) by simp
      qed
      then show ?thesis using "2.IH"(2) [OF undecided Inr p [symmetric]] "2.prems" undecided Inr p by auto
    qed
  qed
qed simp

text \<open>
  C16: A batch keeps the run's write budget. However its calls are judged and answered, the
  bytes the run is charged never pass the ceiling for the whole run, or what it had written
  before the batch where that was past it already: a call that declares more is refused before
  it runs, and the one a person approves late was counted when they were asked.
\<close>

theorem batch_keeps_its_write_budget:
  assumes "lane_run st i l0 tr l" "fresh_lane l0" "wl_per_run (at_limits st) = Some limit"
  shows "ln_written l \<le> max (ln_written l0) limit"
proof -
  have "within_budget st l (max (ln_written l0) limit)"
    using assms
  proof (induction rule: lane_run.induct)
    case (lane_start st i l)
    then show ?case by (simp add: within_budget_def fresh_lane_def)
  next
    case (lane_judge st i l0 tr l)
    obtain b w asked where d: "decide_in_order st (ln_grants l) i (ln_batch l) (ln_written l) = (b, w, asked)"
      by (cases "decide_in_order st (ln_grants l) i (ln_batch l) (ln_written l)") auto
    from decide_calls_budget [OF d [unfolded decide_in_order_def] lane_judge.prems(2)] lane_judge
    show ?case by (simp add: within_budget_def dispatch_fields [OF d])
  next
    case (lane_answer st i l0 tr l asked a)
    then show ?case
      by (auto simp: within_budget_def collect_approval_def Let_def split: answer.split)
  qed
  then show ?thesis by (simp add: within_budget_def)
qed

theorem batch_keeps_its_write_budget_witness: "ln_written ex_answered \<le> max (ln_written ex_lane) 100"
  by (rule batch_keeps_its_write_budget [OF ex_run])
     (simp_all add: fresh_lane_def ex_lane_def ex_attended_def ex_tools_def)

subsection \<open>Grants that are kept\<close>

text \<open>A run's grants come back from its state as the grants they were.\<close>

lemma grants_read_back:
  assumes "case tg_stage_index g of None \<Rightarrow> True | Some i \<Rightarrow> i < 2 ^ 32"
  shows "granted (grants_from_state (grants_to_state g)) k \<longleftrightarrow> granted g k"
    "tg_stage_index (grants_from_state (grants_to_state g)) = tg_stage_index g"
  using assms by (auto simp: granted_def grants_from_state_def grants_to_state_def split: option.splits)

end
