(* ===== verification/Fence_Properties.thy ===== *)
theory Fence_Properties
  imports Tool_Properties
begin

text \<open>
  What the fences promise of a shell line, against a reading of where the shell is that does
  not follow the code's: a move may be made or fail, and a move that is not a plain one leaves
  the shell anywhere.
\<close>

subsection \<open>Where a line may be\<close>



lemma join_absolute [simp]: "path_is_absolute path \<Longrightarrow> path_join cwd path = path"
  by (simp add: path_join_def)













subsection \<open>Every write is placed\<close>














subsection \<open>What a call may write\<close>






subsection \<open>A line that cannot be read\<close>

text \<open>
  A line the lexer refuses is fenced only when it has a redirect in it: one whose program is put
  together at run time is refused by the lexer whole, and a removal beside it passes.
\<close>

lemma unreadable_line_is_not_fenced:
  "let line = ''rm /t;'' @ [backtick] @ ''c'' @ [backtick]; args = JObj [(''command'', JStr line)] in
   tokenize_for line True = None \<and>
   landing_for (mc_globs ex_machine) line True ''/w'' None = KnownLanding [] \<and>
   escaping_write_refusal ex_machine ''shell'' args ''/w'' None True = None \<and>
   escaping_write_refusal ex_machine ''shell'' (JObj [(''command'', JStr ''rm /t'')]) ''/w'' None True \<noteq> None"
  by code_simp

end
