(* ===== verification/Fence_Layers.thy ===== *)
theory Fence_Layers
  imports Fence_Properties
begin

text \<open>
  Write paths in layers, and what a shell line may read without being asked about.
\<close>

subsection \<open>Layers\<close>

text \<open>A path as a write spells it, and as the file system resolves it, under the working directory.\<close>

definition spelled_at :: "machine \<Rightarrow> string \<Rightarrow> string \<Rightarrow> string option" where
  "spelled_at mc workdir p = Option.bind (fold_dot_dot (path_join workdir p))
     (\<lambda>q. under (mc_files mc) q workdir (resolved_or_self (mc_files mc) workdir))"

definition lands_at :: "machine \<Rightarrow> string \<Rightarrow> string \<Rightarrow> string option" where
  "lands_at mc workdir p = Option.bind (fold_dot_dot (path_join workdir p))
     (\<lambda>q. Option.bind (canonicalize_for_match (mc_files mc) q)
        (\<lambda>c. relative_to c (resolved_or_self (mc_files mc) workdir)))"

lemma fence_check_at:
  assumes "fence_check mc f p workdir = None" "f \<noteq> []"
  shows "\<exists>w r. spelled_at mc workdir p = Some w \<and> lands_at mc workdir p = Some r \<and>
    fence_allows (mc_globs mc) f w \<and> fence_allows (mc_globs mc) f r"
  using assms by (auto simp: fence_check_def fence_is_open_def spelled_at_def lands_at_def Let_def
      split: option.splits if_splits)

lemma fence_check_drop: "fence_check mc (f @ g) p workdir = None \<Longrightarrow> fence_check mc f p workdir = None"
  by (cases "fold_dot_dot (path_join workdir p)"; cases "canonicalize_for_match (mc_files mc) (the (fold_dot_dot (path_join workdir p)))")
     (auto simp: fence_check_def fence_is_open_def fence_allows_def Let_def split: option.splits if_splits)

lemma fence_new_layer:
  assumes "fence_allows gl (fence_new gl layers) rel" "layer \<in> set layers" "layer \<noteq> []"
  shows "\<exists>g \<in> set layer. check_glob gl g = None \<and> gl_matches_path gl (normalize_glob g) rel"
  using assms by (fastforce simp: fence_allows_def fence_new_def list_all_iff list_ex_iff)

text \<open>
  C14: A layer of write paths only takes away. A write that passes the layers of a run above and
  those of its own passes the ones above alone, so no child or worker writes where the run that
  started it could not; and it lies under the working directory and matches a well-formed glob
  of every layer that has any, both as it is spelled and as the file system resolves it.
\<close>

theorem write_paths_only_narrow:
  assumes "fence_check mc (fence_new (mc_globs mc) (parent @ own)) p workdir = None"
  shows "fence_check mc (fence_new (mc_globs mc) parent) p workdir = None \<and>
    (\<forall>layer \<in> set (parent @ own). layer \<noteq> [] \<longrightarrow>
      (\<exists>w r. spelled_at mc workdir p = Some w \<and> lands_at mc workdir p = Some r \<and>
        (\<exists>g \<in> set layer. check_glob (mc_globs mc) g = None \<and> gl_matches_path (mc_globs mc) (normalize_glob g) w) \<and>
        (\<exists>g \<in> set layer. check_glob (mc_globs mc) g = None \<and> gl_matches_path (mc_globs mc) (normalize_glob g) r)))"
proof -
  have split: "fence_new (mc_globs mc) (parent @ own) = fence_new (mc_globs mc) parent @ fence_new (mc_globs mc) own"
    by (simp add: fence_new_def)
  have "\<exists>w r. spelled_at mc workdir p = Some w \<and> lands_at mc workdir p = Some r \<and>
        (\<exists>g \<in> set layer. check_glob (mc_globs mc) g = None \<and> gl_matches_path (mc_globs mc) (normalize_glob g) w) \<and>
        (\<exists>g \<in> set layer. check_glob (mc_globs mc) g = None \<and> gl_matches_path (mc_globs mc) (normalize_glob g) r)"
    if "layer \<in> set (parent @ own)" "layer \<noteq> []" for layer
  proof -
    from that have "fence_new (mc_globs mc) (parent @ own) \<noteq> []"
      by (auto simp: fence_new_def filter_empty_conv)
    from fence_check_at [OF assms this] fence_new_layer [OF _ that] show ?thesis by blast
  qed
  with fence_check_drop [OF assms [unfolded split]] show ?thesis by blast
qed

definition ex_layered :: machine where
  "ex_layered = ex_machine\<lparr>mc_globs := (mc_globs ex_machine)\<lparr>gl_matches_path := (\<lambda>p rel. prefix p rel)\<rparr>\<rparr>"

theorem write_paths_only_narrow_witness:
  "fence_check ex_layered (fence_new (mc_globs ex_layered) [[''d'']]) ''d/x'' ''/w'' = None \<and>
   fence_check ex_layered (fence_new (mc_globs ex_layered) [[''d'']]) ''x'' ''/w'' \<noteq> None"
proof -
  have "fence_check ex_layered (fence_new (mc_globs ex_layered) ([[''d'']] @ [[''d/x'', ''e'']])) ''d/x'' ''/w'' = None"
    by code_simp
  from write_paths_only_narrow [OF this]
  have "fence_check ex_layered (fence_new (mc_globs ex_layered) [[''d'']]) ''d/x'' ''/w'' = None" by blast
  moreover have "fence_check ex_layered (fence_new (mc_globs ex_layered) [[''d'']]) ''x'' ''/w'' \<noteq> None" by code_simp
  ultimately show ?thesis by blast
qed

end
