(* ===== verification/Fence_Reads.thy ===== *)
theory Fence_Reads
  imports Fence_Layers
begin

text \<open>What a shell line may read without being asked about.\<close>

subsection \<open>Where a line that is walked may be\<close>






subsection \<open>The walk only adds\<close>

definition grows :: "walk \<Rightarrow> walk \<Rightarrow> bool" where
  "grows wk wk' \<longleftrightarrow> prefix (os_operands (wk_out wk)) (os_operands (wk_out wk')) \<and> prefix (wk_bases wk) (wk_bases wk')"

lemma grows_refl [simp]: "grows wk wk"
  by (simp add: grows_def)


lemma grows_same [simp]: "grows wk (unplaceable why wk') = grows wk wk'" "grows wk (wk'\<lparr>wk_left := b\<rparr>) = grows wk wk'"
  by (simp_all add: grows_def unplaceable_def)


definition quiet :: "walk \<Rightarrow> bool" where
  "quiet wk \<longleftrightarrow> os_operands (wk_out wk) = []"


lemma quiet_add [simp]: "\<not> quiet (add_operand s wk)" "quiet (unplaceable why wk) = quiet wk"
  "quiet (wk\<lparr>wk_left := b\<rparr>) = quiet wk" "quiet (wk\<lparr>wk_bases := bs\<rparr>) = quiet wk"
  by (simp_all add: quiet_def add_operand_def unplaceable_def)









subsection \<open>A quiet walk\<close>







lemma inside_mono: "inside wr bases s \<Longrightarrow> set bases' \<subseteq> set bases \<Longrightarrow> inside wr bases' s"
  by (auto simp: inside_def list_all_iff Let_def split: if_splits option.splits)










subsection \<open>What runs unasked\<close>





subsection \<open>A protected file a redirect reaches\<close>

text \<open>
  A redirect is looked up from the working directory whatever the line moved to: a run whose
  working directory holds the protected file writes it after a move.
\<close>

lemma redirect_after_a_move_is_missed:
  "let protected = [\<lparr>pp_path = ''/h/l/c'', pp_label = ''config.toml''\<rparr>]; args = JObj [(''command'', JStr ''cd l;>c'')] in
   protected_path_refusal (mc_files ex_machine) ''shell'' args True ''/h'' (Some ''/h'') protected = None \<and>
   escaping_write_refusal ex_machine ''shell'' args ''/h'' (Some ''/h'') True = None \<and>
   landing_for (mc_globs ex_machine) ''cd l;>c'' True ''/h'' (Some ''/h'') =
     KnownLanding [\<lparr>wt_written = ''c'', wt_lands = [''/h/c'', ''/h/l/c''], wt_by = REDIRECT\<rparr>]"
  by code_simp

end
