(* ===== verification/Spec2Isabelle.thy ===== *)
theory Spec2Isabelle
  imports Gate_Properties Run_Properties Circuit Pool_Properties Lane_Properties Fence_Reads
begin

text \<open>
  A verification library for Leviath, an agent runtime written in Rust
  (\<open>crates/leviath-core\<close>, \<open>crates/leviath-runtime\<close>, \<open>crates/leviath-cli\<close>).

  \<^bold>\<open>The program.\<close> An agent's memory is a context window of regions, each a list of
  entries under a token budget, a kind that says how it makes room, and an optional taint
  record that says how sensitive its entries are. Before a tool call leaves the machine a
  gate reads that taint, and the user's policy file, and allows, asks or denies. Every step
  of a run is recorded in one append-only file, which is what a restarted process resumes
  from and what every reader reads. A turn of the model asks for tool calls; each is judged by
  the user's table, the blueprint, the launch flags, a profile, the safe list and the grants
  made so far, and runs, is refused, or is put to a person. Models are called through pools of
  limited slots, and a provider that keeps failing is taken out of service for a while.

  \<^bold>\<open>Regions.\<close>
  \<^item> \<open>Prelude\<close>: options, lists, positions, sums and JSON values shared by the parts.
  \<^item> \<open>Taint\<close> (\<open>leviath-core/src/taint.rs\<close>): the lattice of levels, classifications, a region's
    record of one level per entry, tool directions.
  \<^item> \<open>Text_Cut\<close> (\<open>text.rs\<close>), \<open>Mime\<close> (\<open>mime/\<close>): UTF-8 cuts, mime types, patterns and parts.
  \<^item> \<open>Region\<close>, \<open>Region_Write\<close>, \<open>Region_Evict\<close>, \<open>Region_Keyed\<close> (\<open>region/\<close>): a region's data,
    its writes, how it makes room and its keyed writes. \<open>Turn_Groups\<close> splits the entries into
    the groups eviction must not break, \<open>Region_Inv\<close> holds the invariant, \<open>Region_Step\<close> the
    step relation over every operation, and \<open>Region_Properties\<close> what a region promises.

  \<^bold>\<open>Windows.\<close> \<open>Window\<close>, \<open>Window_Writes\<close>, \<open>Window_Evict\<close>, \<open>Window_Cascade\<close>
  (\<open>leviath-runtime/src/components/context_window\<close>): writes with the hooks scripts have, and
  the cascade that evicts across regions when a window overflows; \<open>Window_Inv\<close> and
  \<open>Window_Properties\<close> hold the invariant and what the window promises.

  \<^bold>\<open>The gate.\<close> \<open>Policy\<close> (\<open>policy_file.rs\<close>, \<open>mcp_names.rs\<close>) and \<open>Gate\<close>
  (\<open>leviath-runtime/src/taint.rs\<close>), with \<open>Gate_Properties\<close>: no call sends content more
  sensitive than the window, the policy and the user allow.

  \<^bold>\<open>The run file.\<close>
  \<^item> \<open>Run_State\<close> (\<open>state/mod.rs\<close>, \<open>state/context.rs\<close>, \<open>state/files.rs\<close>): what a run is.
  \<^item> \<open>Context_Diff\<close>, \<open>State_Delta\<close> (\<open>state/context.rs\<close>, \<open>state/delta.rs\<close>): what changed between
    two states, and replaying it. The locale \<open>step_recorder\<close> is the contract both keep.
  \<^item> \<open>Run_Codec\<close>, \<open>Run_Scan\<close> (\<open>runfile/codec.rs\<close>): frames, forwards and backwards, and the scan
    that tells a torn last write from damage.
  \<^item> \<open>Run_Reader\<close>, \<open>Run_Writer\<close>, \<open>Run_Tail\<close> (\<open>runfile/reader.rs\<close>, \<open>writer.rs\<close>, \<open>tail.rs\<close>).
  \<^item> \<open>Run_Log\<close> is the abstract file, a list of payloads that stands for a list of states;
    \<open>Run_Read\<close> shows the reader reads it, \<open>Run_Session\<close> that the writer keeps it through
    failed writes, deaths and reopenings, and \<open>Run_Properties\<close> states what follows.

  \<^bold>\<open>Judging tool calls.\<close>
  \<^item> \<open>Shell_Lex\<close>, \<open>Shell_Keys\<close> (\<open>leviath-cli/src/shell_keys.rs\<close>): a shell line is read as
    commands, and each command gives the keys an approval of it is remembered under. A line
    that cannot be read has no keys and is never covered. \<open>Shell_Join\<close> shows how a line reads
    when it is continued, and \<open>Shell_Properties\<close> what follows: no command of a line is missed
    when its parts are not, and quoted words come back as written.
  \<^item> \<open>Tool_Policy\<close> (\<open>tools.rs\<close>, \<open>leviath-core/src/write_limits.rs\<close>): policies in layers, the clamps
    by what a call does, its approval keys and the write ceilings.
  \<^item> \<open>Approvals\<close> (\<open>approvals.rs\<close>, \<open>pipeline/tool_verdicts.rs\<close>): the safe list and the grants. The
    locale \<open>safe_table\<close> is what coverage relies on of a safe list.
  \<^item> \<open>Yolo\<close> (\<open>yolo/\<close>, \<open>leviath-core/src/paths.rs\<close>): profiles, compiled and decided by, with
    \<open>Yolo_Properties\<close>.
  \<^item> \<open>Shell_Targets\<close> (\<open>shell_keys/targets.rs\<close>): where the writes of a line land, from every
    directory its moves may leave it in. \<open>Write_Fence\<close> (\<open>write_fence.rs\<close>, \<open>tools.rs\<close>,
    \<open>leviath-core/src/write_paths.rs\<close>): those writes against the working directory, the write
    paths of a stage and the protected files. \<open>Shell_Operands\<close> (\<open>shell_keys/operands.rs\<close>): what a
    line names outside. \<open>Fence_Properties\<close> and \<open>Fence_Reads\<close> hold these against what a shell may
    do with the line, a relation that lets each move succeed or fail (\<open>shell_at\<close>,
    \<open>walks_to\<close>), and \<open>Fence_Layers\<close> shows that layers of write paths only narrow.
  \<^item> \<open>Tool_Decide\<close> (\<open>daemon/tool_service.rs\<close>, \<open>pipeline/lane_batch.rs\<close>, \<open>approval_prompt.rs\<close>): the
    verdict on one call, and a batch judged in order, asked about and sent. \<open>Tool_Properties\<close>
    states what a verdict promises, \<open>Lane_Properties\<close> what holds of every batch that is reached,
    by induction over \<open>lane_run\<close>.

  \<^bold>\<open>Calling models.\<close> \<open>Circuit\<close> (\<open>pipeline/circuit.rs\<close>): a circuit stands for the streak of
  failures since the last success. \<open>Pool\<close>, \<open>Pool_Run\<close>, \<open>Pool_Properties\<close> (\<open>inference_pool.rs\<close>):
  the pools over an explicit store of semaphores, the account each pool keeps, and every order
  of acquires, releases and changed limits as the relation \<open>pool_run\<close>.

  \<^bold>\<open>Conventions.\<close> Tokens, sequence numbers and sizes the code keeps in \<open>u64\<close> or \<open>usize\<close> are
  naturals; a \<open>u32\<close> the code casts to is reduced modulo its width, and the bytes of a frame
  are words. Fractions the code keeps in \<open>f64\<close> (the low-water mark, the checkpoint ratio) are
  rationals. Trimming and case folding are those of ASCII. Scripts, the clock, the TOML
  parser, \<open>postcard\<close>, \<open>zstd\<close> and \<open>crc32fast\<close> are parameters, with the laws the code relies on
  (what is packed unpacks, a leading field is read from a cut payload) as hypotheses that a
  concrete instance meets. A write to the disk takes its outcome, a success or how many bytes
  landed and whether the cut back worked, as an argument. Every loop of the code that is not
  structural is a function with a measure: the scan and the backward walk by the bytes left,
  eviction by the entries left, the lexer by the characters left. The one bound by turns is
  \<open>decide_alone\<close>, where one turn more than the batch has calls is enough (\<open>alone_settles\<close>). The
  tokio semaphore (\<open>semaphore_laws\<close>), globs and the file system are parameters too (\<open>machine\<close>),
  and what a run may read is a function in its state.
  The characters of a text are the first 256 code points, and a length in bytes is that of
  their UTF-8 (\<open>utf8_len\<close>); in \<open>Text_Cut\<close> and \<open>Mime\<close> a text is its UTF-8 bytes. Paths are
  those of Unix, hash maps are association lists or functions, and a sentence that only explains
  a refusal is a constructor.

  \<^bold>\<open>Not modelled.\<close> The model providers and their wire formats, the command line, dashboard
  and server, the configuration file, the MCP client, the scripting engine, telemetry,
  networking and packaging: input and output around the parts above. Running the tools,
  and what measures their writes. Of the runtime, the systems over the entity store that
  drive a run from stage to stage, fan-out, the control socket and the resolution of
  blueprints; in the run file, the window a large file is read through, blobs and the files
  beside it.
\<close>

end
